(* ===== verification/Prelude.thy ===== *)
theory Prelude
  imports Main "HOL-Library.Word"
begin

text \<open>
  The vocabulary every component of the development shares: bytes, Go errors and their wrapping,
  slice expressions that panic out of range, actions that thread a world and may fail, and
  reachability of a transition system. Nothing here is specific to one file of the program.
\<close>

named_theorems go_simps \<open>unfoldings of the Go idioms: slices, actions, wrapped errors\<close>

section \<open>Bytes and strings\<close>

type_synonym byte = "8 word"

text \<open>A Go conversion from a string to a byte slice: the bytes of the string, in order.\<close>

definition bytes_of :: "string \<Rightarrow> byte list" where
  "bytes_of s = map of_char s"

lemma length_bytes_of [simp]: "length (bytes_of s) = length s"
  by (simp add: bytes_of_def)

lemma bytes_of_Nil_iff [simp]: "bytes_of s = [] \<longleftrightarrow> s = []"
  by (simp add: bytes_of_def)

section \<open>Errors\<close>

text \<open>
  Go's sentinel errors are compared by identity, so each is a constructor. An error made by code
  outside the repository is \<open>External\<close> with its message. \<open>Errorf p e\<close> is
  \<^verbatim>\<open>fmt.Errorf("p%w", e)\<close>; \<open>ErrorfQ e l s\<close> is
  \<^verbatim>\<open>fmt.Errorf("%wl%q", e, s)\<close>.
\<close>

datatype sentinel =
    ErrShortWrite
  | ErrListenerClosed
  | ErrHandshakeFailed
  | ErrALPNMismatch
  | ErrConfigNotInit
  | ErrEOF
  | ErrUnexpectedEOF

datatype goerror =
    Sentinel sentinel
  | External string
  | Errorf string goerror
  | ErrorfQ goerror string string

text \<open>\<^verbatim>\<open>err.Error()\<close>: the verb \<^verbatim>\<open>%q\<close> is the parameter \<open>q\<close>.\<close>

fun sentinel_text :: "sentinel \<Rightarrow> string" where
  "sentinel_text ErrShortWrite = ''short write''"
| "sentinel_text ErrListenerClosed = ''listener closed''"
| "sentinel_text ErrHandshakeFailed = ''dpi: TLS handshake failed''"
| "sentinel_text ErrALPNMismatch = ''dpi: ALPN protocol not in allowed set''"
| "sentinel_text ErrConfigNotInit = ''dpi: server TLS  config not initialized''"
| "sentinel_text ErrEOF = ''EOF''"
| "sentinel_text ErrUnexpectedEOF = ''unexpected EOF''"

fun error_text :: "(string \<Rightarrow> string) \<Rightarrow> goerror \<Rightarrow> string" where
  "error_text q (Sentinel s) = sentinel_text s"
| "error_text q (External m) = m"
| "error_text q (Errorf p e) = p @ error_text q e"
| "error_text q (ErrorfQ e l s) = error_text q e @ l @ q s"

text \<open>\<^verbatim>\<open>errors.Is(err, target)\<close>: the chain of wrapped errors is searched.\<close>

fun errors_Is :: "goerror \<Rightarrow> goerror \<Rightarrow> bool" where
  "errors_Is (Sentinel s) t = (t = Sentinel s)"
| "errors_Is (External m) t = (t = External m)"
| "errors_Is (Errorf p e) t = (t = Errorf p e \<or> errors_Is e t)"
| "errors_Is (ErrorfQ e l s) t = (t = ErrorfQ e l s \<or> errors_Is e t)"

lemma errors_Is_refl [simp]: "errors_Is e e"
  by (cases e) auto

section \<open>Slices and panics\<close>

text \<open>What a call can do: return a value, or panic.\<close>

datatype 'a outcome = Return 'a | Panic

text \<open>The slice expressions \<^verbatim>\<open>b[n:]\<close> and \<^verbatim>\<open>b[:n]\<close>; \<open>None\<close> is the panic.\<close>

definition slice_from :: "'a list \<Rightarrow> int \<Rightarrow> 'a list option" where
  "slice_from b n = (if 0 \<le> n \<and> n \<le> int (length b) then Some (drop (nat n) b) else None)"

definition slice_to :: "'a list \<Rightarrow> int \<Rightarrow> 'a list option" where
  "slice_to b n = (if 0 \<le> n \<and> n \<le> int (length b) then Some (take (nat n) b) else None)"

lemma slice_from_Some_iff:
  "slice_from b n = Some b' \<longleftrightarrow> 0 \<le> n \<and> n \<le> int (length b) \<and> b' = drop (nat n) b"
  by (auto simp: slice_from_def)

lemma slice_from_shorter:
  "slice_from b n = Some b' \<Longrightarrow> n \<noteq> 0 \<Longrightarrow> length b' < length b"
  by (auto simp: slice_from_Some_iff)

lemma slice_in_range [go_simps]:
  assumes "0 \<le> n" and "n \<le> int (length b)"
  shows "slice_from b n = Some (drop (nat n) b)" and "slice_to b n = Some (take (nat n) b)"
  using assms by (simp_all add: slice_from_def slice_to_def)

lemma take_nat_add:
  assumes "0 \<le> n" and "n \<le> int (length b)" and "0 \<le> m"
  shows "take (nat n) b @ take (nat m) (drop (nat n) b) = take (nat (n + m)) b"
  using assms by (simp add: nat_add_distrib take_add)

section \<open>Rounding up to whole pieces\<close>

definition ceil_div :: "nat \<Rightarrow> nat \<Rightarrow> nat" where
  "ceil_div q k = (q + k - 1) div k"

lemma ceil_div_0 [simp]: "0 < k \<Longrightarrow> ceil_div 0 k = 0"
  by (simp add: ceil_div_def)

lemma ceil_div_step:
  assumes "0 < k" and "0 < q"
  shows "ceil_div q k = Suc (ceil_div (q - k) k)"
proof -
  have "ceil_div q k = ((q - 1) + k) div k"
    using assms by (simp add: ceil_div_def)
  also have "\<dots> = Suc ((q - 1) div k)"
    using assms(1) div_add_self2 [of k "q - 1"] by linarith
  also have "(q - 1) div k = ceil_div (q - k) k"
    using assms by (cases "q \<le> k") (auto simp: ceil_div_def)
  finally show ?thesis .
qed

lemma ceil_div_mult: "0 < k \<Longrightarrow> ceil_div (k * n) k = n"
  by (induction n) (simp_all add: ceil_div_step)

lemma ceil_div_bounds:
  assumes "0 < k"
  shows "q \<le> k * ceil_div q k" and "k * ceil_div q k < q + k"
proof -
  have "k * ceil_div q k + (q + k - 1) mod k = q + k - 1"
    unfolding ceil_div_def by (rule mult_div_mod_eq)
  moreover have "(q + k - 1) mod k < k"
    using assms by simp
  ultimately show "q \<le> k * ceil_div q k" and "k * ceil_div q k < q + k"
    by linarith+
qed

section \<open>Actions that may fail\<close>

text \<open>
  An action threads a world and returns an error or a value: the shape of a Go function with an
  \<^verbatim>\<open>error\<close> result, where \<open>bindE\<close> is the test \<^verbatim>\<open>if err != nil \<dots> return\<close> after a call.
\<close>

type_synonym ('w, 'a) act = "'w \<Rightarrow> 'w \<times> (goerror + 'a)"

definition okE :: "'a \<Rightarrow> ('w, 'a) act" where
  "okE a = (\<lambda>w. (w, Inr a))"

definition failE :: "goerror \<Rightarrow> ('w, 'a) act" where
  "failE e = (\<lambda>w. (w, Inl e))"

definition bindE :: "('w, 'a) act \<Rightarrow> ('a \<Rightarrow> ('w, 'b) act) \<Rightarrow> ('w, 'b) act" where
  "bindE m f = (\<lambda>w. case m w of (w', Inl e) \<Rightarrow> (w', Inl e) | (w', Inr a) \<Rightarrow> f a w')"

text \<open>The error of the action wrapped with a prefix, \<^verbatim>\<open>fmt.Errorf("p: %w", err)\<close>.\<close>

definition wrapE :: "string \<Rightarrow> ('w, 'a) act \<Rightarrow> ('w, 'a) act" where
  "wrapE p m = (\<lambda>w. case m w of (w', Inl e) \<Rightarrow> (w', Inl (Errorf p e)) | (w', Inr a) \<Rightarrow> (w', Inr a))"

text \<open>A step that cannot fail, such as reading the clock.\<close>

definition liftE :: "('w \<Rightarrow> 'w \<times> 'a) \<Rightarrow> ('w, 'a) act" where
  "liftE m = (\<lambda>w. case m w of (w', a) \<Rightarrow> (w', Inr a))"

lemmas act_defs = okE_def failE_def bindE_def wrapE_def liftE_def

lemma okE_eq [go_simps]: "okE a w = (w', r) \<longleftrightarrow> w' = w \<and> r = Inr a"
  by (auto simp: okE_def)

lemma bindE_Inr_iff [go_simps]:
  "bindE m f w = (w', Inr b) \<longleftrightarrow> (\<exists>w1 a. m w = (w1, Inr a) \<and> f a w1 = (w', Inr b))"
  by (auto simp: bindE_def split: prod.splits sum.splits)

lemma bindE_Inl_iff [go_simps]:
  "bindE m f w = (w', Inl e) \<longleftrightarrow>
     m w = (w', Inl e) \<or> (\<exists>w1 a. m w = (w1, Inr a) \<and> f a w1 = (w', Inl e))"
  by (auto simp: bindE_def split: prod.splits sum.splits)

lemma bindE_InrE:
  assumes "bindE m f w = (w', Inr b)"
  obtains w1 a where "m w = (w1, Inr a)" and "f a w1 = (w', Inr b)"
  using assms by (auto simp: bindE_Inr_iff)

lemma bindE_InlE:
  assumes "bindE m f w = (w', Inl e)"
  obtains "m w = (w', Inl e)" | w1 a where "m w = (w1, Inr a)" and "f a w1 = (w', Inl e)"
  using assms by (auto simp: bindE_Inl_iff)

lemma wrapE_Inr_iff [go_simps]: "wrapE p m w = (w', Inr a) \<longleftrightarrow> m w = (w', Inr a)"
  by (auto simp: wrapE_def split: prod.splits sum.splits)

lemma wrapE_Inl_iff [go_simps]:
  "wrapE p m w = (w', Inl e) \<longleftrightarrow> (\<exists>e'. m w = (w', Inl e') \<and> e = Errorf p e')"
  by (auto simp: wrapE_def split: prod.splits sum.splits)

lemma liftE_Inr_iff [go_simps]: "liftE m w = (w', Inr a) \<longleftrightarrow> m w = (w', a)"
  by (auto simp: liftE_def split: prod.splits)

lemma liftE_not_Inl [go_simps]: "liftE m w = (w', Inl e) \<longleftrightarrow> False"
  by (auto simp: liftE_def split: prod.splits)

section \<open>Transition systems\<close>

text \<open>
  The states a system of labelled steps reaches from a start state, and the contract of an
  invariant: it holds at the start and every step keeps it.
\<close>

inductive reach :: "('s \<Rightarrow> 'l \<Rightarrow> 's \<Rightarrow> bool) \<Rightarrow> 's \<Rightarrow> 's \<Rightarrow> bool" for step s0 where
  reach_init: "reach step s0 s0"
| reach_step: "reach step s0 s \<Longrightarrow> step s l t \<Longrightarrow> reach step s0 t"

lemma reach_trans: "reach step s t \<Longrightarrow> reach step r s \<Longrightarrow> reach step r t"
  by (induction rule: reach.induct) (auto intro: reach.intros)

text \<open>The steps of a run, with their labels.\<close>

inductive trace :: "('s \<Rightarrow> 'l \<Rightarrow> 's \<Rightarrow> bool) \<Rightarrow> 's \<Rightarrow> 'l list \<Rightarrow> 's \<Rightarrow> bool" for step where
  trace_Nil: "trace step s [] s"
| trace_Cons: "step s l t \<Longrightarrow> trace step t ls u \<Longrightarrow> trace step s (l # ls) u"

inductive_cases trace_NilE: "trace step s [] t"
inductive_cases trace_ConsE: "trace step s (l # ls) u"

lemma trace_reach: "trace step s ls t \<Longrightarrow> reach step s0 s \<Longrightarrow> reach step s0 t"
  by (induction rule: trace.induct) (auto intro: reach.intros)

text \<open>A quantity every step of a run decreases bounds the length of the run.\<close>

lemma trace_length_le:
  assumes "\<And>s l t. step s l t \<Longrightarrow> ok l \<Longrightarrow> (m t :: nat) < m s"
  shows "trace step s ls t \<Longrightarrow> list_all ok ls \<Longrightarrow> length ls + m t \<le> m s"
proof (induction rule: trace.induct)
  case (trace_Cons s l t ls u)
  then show ?case
    using assms [of s l t] by simp
qed simp

locale invariant_of =
  fixes step :: "'s \<Rightarrow> 'l \<Rightarrow> 's \<Rightarrow> bool" and start :: "'s" and inv :: "'s \<Rightarrow> bool"
  assumes inv_start: "inv start"
    and inv_step: "\<And>s l t. step s l t \<Longrightarrow> inv s \<Longrightarrow> inv t"
begin

lemma reach_inv: "reach step start s \<Longrightarrow> inv s"
  by (induction rule: reach.induct) (auto intro: inv_start inv_step)

lemma reach_step_inv: "reach step start s \<Longrightarrow> step s l t \<Longrightarrow> inv s \<and> inv t"
  using reach_inv inv_step by blast

end

end
