(* ===== verification/GoStrings.thy ===== *)
theory GoStrings
  imports Prelude
begin

text \<open>
  The functions of Go's \<^verbatim>\<open>bytes\<close> and \<^verbatim>\<open>strings\<close> packages the program calls, over lists of any
  element type: a byte slice and a string are both sequences of bytes.
\<close>

section \<open>Occurrences\<close>

definition occurs_at :: "'a list \<Rightarrow> 'a list \<Rightarrow> nat \<Rightarrow> bool" where
  "occurs_at sep s j \<longleftrightarrow> j + length sep \<le> length s \<and> take (length sep) (drop j s) = sep"

definition contains :: "'a list \<Rightarrow> 'a list \<Rightarrow> bool" where
  "contains s sep \<longleftrightarrow> (\<exists>j \<le> length s. occurs_at sep s j)"

text \<open>\<^verbatim>\<open>bytes.Index\<close>: the first position of \<open>sep\<close> in \<open>s\<close>, or -1.\<close>

fun bytes_Index :: "'a list \<Rightarrow> 'a list \<Rightarrow> int" where
  "bytes_Index [] sep = (if sep = [] then 0 else - 1)"
| "bytes_Index (x # s) sep =
     (if take (length sep) (x # s) = sep then 0
      else (let i = bytes_Index s sep in if i < 0 then - 1 else i + 1))"

text \<open>\<^verbatim>\<open>strings.HasSuffix\<close> and \<^verbatim>\<open>strings.Contains\<close>.\<close>

definition strings_HasSuffix :: "'a list \<Rightarrow> 'a list \<Rightarrow> bool" where
  "strings_HasSuffix s suf \<longleftrightarrow>
     length suf \<le> length s \<and> drop (length s - length suf) s = suf"

definition strings_Contains :: "'a list \<Rightarrow> 'a list \<Rightarrow> bool" where
  "strings_Contains s sub \<longleftrightarrow> 0 \<le> bytes_Index s sub"

section \<open>What they promise\<close>

lemma occurs_at_0: "occurs_at sep s 0 \<longleftrightarrow> take (length sep) s = sep"
  unfolding occurs_at_def by (metis add_0 drop_0 length_take min.absorb_iff2 min.commute nat_le_linear)

lemma occurs_at_Suc: "occurs_at sep (x # s) (Suc j) \<longleftrightarrow> occurs_at sep s j"
  by (simp add: occurs_at_def)

lemma occurs_at_bound: "occurs_at sep s j \<Longrightarrow> j + length sep \<le> length s"
  by (simp add: occurs_at_def)

lemma contains_iff: "contains s sep \<longleftrightarrow> (\<exists>j. occurs_at sep s j)"
  unfolding contains_def by (metis add_leE occurs_at_bound)

lemma occurs_at_take:
  "occurs_at sep (take k s) j \<longleftrightarrow> j + length sep \<le> k \<and> occurs_at sep s j"
proof (cases "j + length sep \<le> k")
  case True
  then have "take (length sep) (drop j (take k s)) = take (length sep) (drop j s)"
    by (simp add: drop_take)
  with True show ?thesis
    by (simp add: occurs_at_def)
next
  case False
  then show ?thesis
    by (simp add: occurs_at_def)
qed

lemma occurs_at_drop:
  "k \<le> length s \<Longrightarrow> occurs_at sep (drop k s) j \<longleftrightarrow> occurs_at sep s (k + j)"
  by (auto simp: occurs_at_def add.commute)

lemma bytes_Index_range: "bytes_Index s sep = - 1 \<or> 0 \<le> bytes_Index s sep"
  by (induction s sep rule: bytes_Index.induct) (auto simp: Let_def)

lemma bytes_Index_neg: "bytes_Index s sep < 0 \<longleftrightarrow> (\<forall>j. \<not> occurs_at sep s j)"
proof (induction s sep rule: bytes_Index.induct)
  case (1 sep)
  then show ?case by (auto simp: occurs_at_def)
next
  case (2 x s sep)
  have split: "(\<forall>j. \<not> occurs_at sep (x # s) j) \<longleftrightarrow>
      \<not> occurs_at sep (x # s) 0 \<and> (\<forall>j. \<not> occurs_at sep s j)"
    by (metis not0_implies_Suc occurs_at_Suc)
  show ?case
  proof (cases "take (length sep) (x # s) = sep")
    case True
    then show ?thesis by (auto simp: split occurs_at_0)
  next
    case False
    with "2.IH" show ?thesis by (auto simp: split occurs_at_0 Let_def)
  qed
qed

lemma bytes_Index_first:
  "0 \<le> bytes_Index s sep \<Longrightarrow>
     occurs_at sep s (nat (bytes_Index s sep)) \<and>
     (\<forall>j < nat (bytes_Index s sep). \<not> occurs_at sep s j)"
proof (induction s sep rule: bytes_Index.induct)
  case (1 sep)
  then show ?case by (auto simp: occurs_at_def split: if_splits)
next
  case (2 x s sep)
  show ?case
  proof (cases "take (length sep) (x # s) = sep")
    case True
    then show ?thesis by (simp add: occurs_at_0)
  next
    case False
    with "2.prems" have nn: "0 \<le> bytes_Index s sep"
      by (auto simp: Let_def split: if_splits)
    with False have idx: "nat (bytes_Index (x # s) sep) = Suc (nat (bytes_Index s sep))"
      by (simp add: Let_def nat_add_distrib)
    have "\<not> occurs_at sep (x # s) j" if "j < nat (bytes_Index (x # s) sep)" for j
      using that False nn "2.IH"
      by (cases j) (auto simp: idx occurs_at_0 occurs_at_Suc)
    with idx nn False "2.IH" show ?thesis
      by (simp add: occurs_at_Suc)
  qed
qed

text \<open>A cut inside the first match: nothing is left of it before the cut.\<close>

lemma contains_take_first:
  assumes first: "bytes_Index s sep = int i" and "k < i + length sep"
  shows "\<not> contains (take k s) sep"
proof
  assume "contains (take k s) sep"
  then obtain j where j: "j + length sep \<le> k" "occurs_at sep s j"
    by (auto simp: contains_iff occurs_at_take)
  then have "j < i"
    using assms(2) by simp
  then show False
    using bytes_Index_first [of s sep] first j(2) by simp
qed

lemma contains_drop:
  "k \<le> length s \<Longrightarrow> contains (drop k s) sep \<longleftrightarrow> (\<exists>j \<ge> k. occurs_at sep s j)"
  by (auto simp: contains_iff occurs_at_drop le_iff_add)

lemma bytes_Index_found:
  "0 \<le> bytes_Index s sep \<longleftrightarrow> contains s sep"
  by (simp add: bytes_Index_neg contains_iff flip: linorder_not_less)

lemma bytes_Index_unique:
  assumes "occurs_at sep s i" and "\<And>j. occurs_at sep s j \<Longrightarrow> j = i"
  shows "bytes_Index s sep = int i"
proof -
  have "0 \<le> bytes_Index s sep"
    using assms(1) by (auto simp: bytes_Index_found contains_iff)
  with bytes_Index_first [OF this] assms(2) show ?thesis
    by force
qed

lemma strings_Contains_iff: "strings_Contains s sub \<longleftrightarrow> contains s sub"
  by (metis bytes_Index_neg contains_iff linorder_not_le strings_Contains_def)

lemma contains_code [code]: "contains s sep = strings_Contains s sep"
  by (simp add: strings_Contains_iff)

lemma strings_HasSuffix_append [simp]: "strings_HasSuffix (p @ suf) suf"
  by (simp add: strings_HasSuffix_def)

lemma strings_HasSuffix_iff: "strings_HasSuffix s suf \<longleftrightarrow> (\<exists>p. s = p @ suf)"
  unfolding strings_HasSuffix_def
  by (metis append_eq_conv_conj append_take_drop_id diff_add_inverse2 length_append le_add2)

end
