(* ===== verification/SpoofConn.thy ===== *)
theory SpoofConn
  imports GoStrings
begin

text \<open>
  \<^verbatim>\<open>src/dpi-spoof.go\<close>: the connection wrapper that splits the writes of the handshake phase.
  \<open>spoof_conn\<close> is the struct without the embedded connection. The embedded connection, the
  random source and the clock live in a world \<open>'w\<close> and are parameters: \<open>wr\<close> is the
  underlying \<^verbatim>\<open>Write\<close>, \<open>rnd\<close> is \<^verbatim>\<open>rand.Int\<close>, \<open>slp\<close> is \<^verbatim>\<open>time.Sleep\<close>. What a caller may
  expect of \<open>wr\<close> is the locale \<open>io_writer\<close>; the same contract is then proved of the wrapper.
\<close>

section \<open>The struct and its constructor\<close>

record spoof_conn =
  sc_bytesWritten :: int
  sc_fragmentSize :: int
  sc_handshakeLen :: int
  sc_maxDelay :: int
  sc_sni :: "byte list"

definition defaultFragmentSize :: int where
  "defaultFragmentSize = 2"

definition NewSpoofConn :: "int \<Rightarrow> int \<Rightarrow> int \<Rightarrow> string \<Rightarrow> spoof_conn" where
  "NewSpoofConn fragmentSize handshakeLen maxDelay sni =
     \<lparr>sc_bytesWritten = 0,
      sc_fragmentSize = fragmentSize,
      sc_handshakeLen = handshakeLen,
      sc_maxDelay = maxDelay,
      sc_sni = bytes_of sni\<rparr>"

text \<open>\<^verbatim>\<open>c.bytesWritten += n\<close>, the update made under the mutex after each underlying write.\<close>

definition count_written :: "spoof_conn \<Rightarrow> int \<Rightarrow> spoof_conn" where
  "count_written c n = c\<lparr>sc_bytesWritten := sc_bytesWritten c + n\<rparr>"

text \<open>\<^verbatim>\<open>c.bytesWritten >= c.handshakeLen\<close>, the test made under the mutex.\<close>

definition past_handshake :: "spoof_conn \<Rightarrow> bool" where
  "past_handshake c \<longleftrightarrow> sc_handshakeLen c \<le> sc_bytesWritten c"

section \<open>The operations\<close>

type_synonym 'w writer = "'w \<Rightarrow> byte list \<Rightarrow> 'w \<times> int \<times> goerror option"
type_synonym 'w rand_int = "'w \<Rightarrow> int \<Rightarrow> 'w \<times> (goerror + int)"
type_synonym 'w sleeper = "'w \<Rightarrow> int \<Rightarrow> 'w"
type_synonym write_result = "(int \<times> goerror option) outcome"

definition randDuration :: "'w rand_int \<Rightarrow> 'w \<Rightarrow> int \<Rightarrow> 'w \<times> int" where
  "randDuration rnd w maximum =
     (if maximum \<le> 0 then (w, 0)
      else (case rnd w maximum of
              (w', Inl _) \<Rightarrow> (w', maximum div 2)
            | (w', Inr n) \<Rightarrow> (w', n)))"

text \<open>\<^verbatim>\<open>if delay := randDuration(c.maxDelay); delay > 0 { time.Sleep(delay) }\<close>\<close>

definition pause :: "'w rand_int \<Rightarrow> 'w sleeper \<Rightarrow> 'w \<Rightarrow> int \<Rightarrow> 'w" where
  "pause rnd slp w maximum =
     (case randDuration rnd w maximum of
        (w', delay) \<Rightarrow> if 0 < delay then slp w' delay else w')"

text \<open>
  The write-all loop of \<^verbatim>\<open>trackedWrite\<close>; the tail of \<^verbatim>\<open>fragmentedWrite\<close> is the same loop, started
  with the bytes already written as \<open>tot\<close>.
\<close>

function write_all :: "'w writer \<Rightarrow> 'w \<Rightarrow> spoof_conn \<Rightarrow> int \<Rightarrow> byte list \<Rightarrow>
    'w \<times> spoof_conn \<times> write_result" where
  "write_all wr w c tot b =
     (if b = [] then (w, c, Return (tot, None))
      else (case wr w b of (w', n, err) \<Rightarrow>
        if n = 0 \<and> err = None then (w', count_written c n, Return (tot + n, Some (Sentinel ErrShortWrite)))
        else if err \<noteq> None then (w', count_written c n, Return (tot + n, err))
        else (case slice_from b n of
                None \<Rightarrow> (w', count_written c n, Panic)
              | Some b' \<Rightarrow> write_all wr w' (count_written c n) (tot + n) b')))"
  by pat_completeness auto
termination
  by (relation "measure (\<lambda>(wr, w, c, tot, b). length b)") (auto dest: slice_from_shorter)

declare write_all.simps [simp del]

definition trackedWrite :: "'w writer \<Rightarrow> 'w \<Rightarrow> spoof_conn \<Rightarrow> byte list \<Rightarrow>
    'w \<times> spoof_conn \<times> write_result" where
  "trackedWrite wr w c b = write_all wr w c 0 b"

definition sniSplitWrite :: "'w writer \<Rightarrow> 'w rand_int \<Rightarrow> 'w sleeper \<Rightarrow> 'w \<Rightarrow> spoof_conn \<Rightarrow> byte list \<Rightarrow>
    'w \<times> spoof_conn \<times> write_result" where
  "sniSplitWrite wr rnd slp w c b =
     (let i = bytes_Index b (sc_sni c) in
      if i < 0 then trackedWrite wr w c b
      else (let cut = i + int (length (sc_sni c)) div 2 in
        if cut \<le> 0 \<or> int (length b) \<le> cut then trackedWrite wr w c b
        else (case trackedWrite wr w c (take (nat cut) b) of
            (w1, c1, Panic) \<Rightarrow> (w1, c1, Panic)
          | (w1, c1, Return (n, Some err)) \<Rightarrow> (w1, c1, Return (n, Some err))
          | (w1, c1, Return (n, None)) \<Rightarrow>
              (case trackedWrite wr (pause rnd slp w1 (sc_maxDelay c1)) c1 (drop (nat cut) b) of
                 (w2, c2, Panic) \<Rightarrow> (w2, c2, Panic)
               | (w2, c2, Return (m, err)) \<Rightarrow> (w2, c2, Return (n + m, err))))))"

text \<open>The pause after a fragment, when bytes remain and the handshake phase is still on.\<close>

definition fragment_pause :: "'w rand_int \<Rightarrow> 'w sleeper \<Rightarrow> 'w \<Rightarrow> spoof_conn \<Rightarrow> byte list \<Rightarrow> 'w" where
  "fragment_pause rnd slp w c b =
     (if b \<noteq> [] \<and> \<not> past_handshake c then pause rnd slp w (sc_maxDelay c) else w)"

text \<open>The loop of \<^verbatim>\<open>fragmentedWrite\<close>.\<close>

function frag_loop :: "'w writer \<Rightarrow> 'w rand_int \<Rightarrow> 'w sleeper \<Rightarrow> int \<Rightarrow>
    'w \<Rightarrow> spoof_conn \<Rightarrow> int \<Rightarrow> byte list \<Rightarrow> 'w \<times> spoof_conn \<times> write_result" where
  "frag_loop wr rnd slp fragSize w c tot b =
     (if b = [] then (w, c, Return (tot, None))
      else if past_handshake c then write_all wr w c tot b
      else (let size = min fragSize (int (length b)) in
        (case slice_to b size of
           None \<Rightarrow> (w, c, Panic)
         | Some seg \<Rightarrow>
            (case wr w seg of (w', n, err) \<Rightarrow>
              if n = 0 \<and> err = None then (w', count_written c n, Return (tot + n, Some (Sentinel ErrShortWrite)))
              else if err \<noteq> None then (w', count_written c n, Return (tot + n, err))
              else (case slice_from b n of
                  None \<Rightarrow> (w', count_written c n, Panic)
                | Some b' \<Rightarrow>
                    frag_loop wr rnd slp fragSize
                      (fragment_pause rnd slp w' (count_written c n) b')
                      (count_written c n) (tot + n) b')))))"
  by pat_completeness auto
termination
  by (relation "measure (\<lambda>(wr, rnd, slp, fs, w, c, tot, b). length b)")
    (auto dest: slice_from_shorter)

declare frag_loop.simps [simp del]

definition frag_size :: "spoof_conn \<Rightarrow> int" where
  "frag_size c = (if sc_fragmentSize c \<le> 0 then defaultFragmentSize else sc_fragmentSize c)"

definition fragmentedWrite :: "'w writer \<Rightarrow> 'w rand_int \<Rightarrow> 'w sleeper \<Rightarrow> 'w \<Rightarrow> spoof_conn \<Rightarrow> byte list \<Rightarrow>
    'w \<times> spoof_conn \<times> write_result" where
  "fragmentedWrite wr rnd slp w c b = frag_loop wr rnd slp (frag_size c) w c 0 b"

definition spoof_Write :: "'w writer \<Rightarrow> 'w rand_int \<Rightarrow> 'w sleeper \<Rightarrow> 'w \<Rightarrow> spoof_conn \<Rightarrow> byte list \<Rightarrow>
    'w \<times> spoof_conn \<times> write_result" where
  "spoof_Write wr rnd slp w c b =
     (if past_handshake c then (case wr w b of (w', n, err) \<Rightarrow> (w', c, Return (n, err)))
      else if sc_sni c \<noteq> [] then sniSplitWrite wr rnd slp w c b
      else fragmentedWrite wr rnd slp w c b)"

text \<open>
  \<^verbatim>\<open>CloseRead\<close> and \<^verbatim>\<open>CloseWrite\<close> forward to the connection when it has the method: \<open>None\<close> is a
  connection whose type does not satisfy the interface.
\<close>

definition forward_close :: "('w \<Rightarrow> 'w \<times> goerror option) option \<Rightarrow> 'w \<Rightarrow> 'w \<times> goerror option" where
  "forward_close meth w = (case meth of Some close \<Rightarrow> close w | None \<Rightarrow> (w, None))"

definition spoof_CloseRead :: "('w \<Rightarrow> 'w \<times> goerror option) option \<Rightarrow> 'w \<Rightarrow> 'w \<times> goerror option" where
  "spoof_CloseRead closeRead w = forward_close closeRead w"

definition spoof_CloseWrite :: "('w \<Rightarrow> 'w \<times> goerror option) option \<Rightarrow> 'w \<Rightarrow> 'w \<times> goerror option" where
  "spoof_CloseWrite closeWrite w = forward_close closeWrite w"

lemma count_written_simps [simp]:
  "sc_bytesWritten (count_written c n) = sc_bytesWritten c + n"
  "sc_handshakeLen (count_written c n) = sc_handshakeLen c"
  "sc_fragmentSize (count_written c n) = sc_fragmentSize c"
  "sc_maxDelay (count_written c n) = sc_maxDelay c"
  "sc_sni (count_written c n) = sc_sni c"
  "count_written (count_written c n) m = count_written c (n + m)"
  "count_written c 0 = c"
  by (simp_all add: count_written_def)

lemma frag_size_pos: "0 < frag_size c"
  by (simp add: frag_size_def defaultFragmentSize_def)

lemma pause_disabled: "maximum \<le> 0 \<Longrightarrow> pause rnd slp w maximum = w"
  by (simp add: pause_def randDuration_def)

section \<open>The contract of a writer\<close>

text \<open>
  One write accepted \<open>n\<close> bytes of \<open>b\<close>: the documented part of Go's \<^verbatim>\<open>io.Writer\<close> the code relies
  on. \<open>sent w\<close> is all the bytes the connection has accepted.
\<close>

definition accepted :: "('w \<Rightarrow> byte list) \<Rightarrow> 'w \<Rightarrow> byte list \<Rightarrow> 'w \<Rightarrow> int \<Rightarrow> bool" where
  "accepted sent w b w' n \<longleftrightarrow> 0 \<le> n \<and> n \<le> int (length b) \<and> sent w' = sent w @ take (nat n) b"

lemma accepted_zero [simp]: "accepted sent w b w 0"
  by (simp add: accepted_def)

lemma accepted_trans:
  assumes "accepted sent w b w1 n" and "accepted sent w1 (drop (nat n) b) w2 m"
  shows "accepted sent w b w2 (n + m)"
  using assms by (auto simp: accepted_def take_nat_add)

lemma accepted_frame: "sent w1 = sent w \<Longrightarrow> accepted sent w1 b w' n \<longleftrightarrow> accepted sent w b w' n"
  by (simp add: accepted_def)

lemma accepted_prefix:
  assumes "accepted sent w (take k b) w' n"
  shows "accepted sent w b w' n"
proof -
  have "nat n \<le> min (length b) k"
    using assms by (auto simp: accepted_def)
  then show ?thesis
    using assms by (auto simp: accepted_def min_def split: if_splits)
qed

text \<open>
  What a looping write promises: it returns (never panics) having counted and accepted some
  \<open>n\<close> bytes, all of them when there is no error.
\<close>

definition loop_ok :: "('w \<Rightarrow> byte list) \<Rightarrow> 'w \<Rightarrow> spoof_conn \<Rightarrow> int \<Rightarrow> byte list \<Rightarrow>
    'w \<times> spoof_conn \<times> write_result \<Rightarrow> bool" where
  "loop_ok sent w c tot b res \<longleftrightarrow>
     (case res of (w', c', r) \<Rightarrow> \<exists>n e. r = Return (tot + n, e) \<and> accepted sent w b w' n \<and>
        c' = count_written c n \<and> (e = None \<longrightarrow> n = int (length b)))"

lemma loop_okI:
  assumes "res = (w', c', Return (k, e))" and "accepted sent w b w' n"
    and "k = tot + n" and "c' = count_written c n" and "e = None \<Longrightarrow> n = int (length b)"
  shows "loop_ok sent w c tot b res"
  using assms by (auto simp: loop_ok_def)

lemma loop_ok_step:
  assumes "accepted sent w b w1 n" and "sent w1' = sent w1"
    and "loop_ok sent w1' (count_written c n) (tot + n) (drop (nat n) b) res"
  shows "loop_ok sent w c tot b res"
proof -
  obtain w2 c2 m e where res: "res = (w2, c2, Return (tot + n + m, e))"
    and acc: "accepted sent w1' (drop (nat n) b) w2 m"
    and c2: "c2 = count_written c (n + m)"
    and all: "e = None \<longrightarrow> m = int (length (drop (nat n) b))"
    using assms(3) by (auto simp: loop_ok_def)
  have bounds: "0 \<le> n" "n \<le> int (length b)"
    using assms(1) by (auto simp: accepted_def)
  have "accepted sent w b w2 (n + m)"
    using accepted_trans assms(1,2) acc accepted_frame by metis
  moreover have "n + m = int (length b)" if "e = None"
    using that all bounds by simp
  ultimately show ?thesis
    using res c2 by (auto intro: loop_okI [where n = "n + m"])
qed

lemma loop_ok_Nil: "loop_ok sent w c tot [] (w, c, Return (tot, None))"
  by (rule loop_okI [where n = 0]) auto

text \<open>The loops stop after a write that failed or made no progress.\<close>

lemma loop_ok_stop:
  assumes "accepted sent w b w1 n" and "e \<noteq> None"
  shows "loop_ok sent w c tot b (w1, count_written c n, Return (tot + n, e))"
  using assms by (auto intro: loop_okI)

lemma loop_ok_stalled:
  "accepted sent w b w1 0 \<Longrightarrow> loop_ok sent w c tot b (w1, c, Return (tot, Some e))"
  by (auto intro: loop_okI [where n = 0])

locale io_writer =
  fixes wr :: "'w writer" and sent :: "'w \<Rightarrow> byte list"
  assumes wr_accepted: "wr w b = (w', n, e) \<Longrightarrow> accepted sent w b w' n"
begin

lemma wr_slice:
  assumes "wr w b = (w', n, e)"
  shows "slice_from b n = Some (drop (nat n) b)"
  using wr_accepted [OF assms] by (simp add: accepted_def go_simps)

lemma write_all_ok: "loop_ok sent w c tot b (write_all wr w c tot b)"
proof (induction b arbitrary: w c tot rule: length_induct)
  case (1 b)
  show ?case
  proof (cases "b = []")
    case True
    then show ?thesis
      by (subst write_all.simps) (simp add: loop_ok_Nil)
  next
    case False
    obtain w' n err where wr: "wr w b = (w', n, err)"
      by (cases "wr w b") auto
    note acc = wr_accepted [OF wr]
    show ?thesis
    proof (cases "n = 0 \<or> err \<noteq> None")
      case True
      with wr acc False show ?thesis
        by (auto simp: write_all.simps [of wr w c tot b] intro: loop_ok_stop loop_ok_stalled)
    next
      case stop: False
      with wr False have eq: "write_all wr w c tot b =
          write_all wr w' (count_written c n) (tot + n) (drop (nat n) b)"
        by (auto simp: write_all.simps [of wr w c tot b] wr_slice)
      have "length (drop (nat n) b) < length b"
        using acc stop False by (auto simp: accepted_def)
      with "1.IH" have "loop_ok sent w' (count_written c n) (tot + n) (drop (nat n) b)
          (write_all wr w' (count_written c n) (tot + n) (drop (nat n) b))"
        by blast
      then show ?thesis
        unfolding eq by (rule loop_ok_step [OF acc refl])
    qed
  qed
qed

end

text \<open>
  The wrapper also draws random delays and sleeps; neither touches what the connection accepted.
\<close>

locale spoof_env = io_writer wr sent
  for wr :: "'w writer" and sent :: "'w \<Rightarrow> byte list" +
  fixes rnd :: "'w rand_int" and slp :: "'w sleeper"
  assumes rnd_sent: "sent (fst (rnd w m)) = sent w"
    and slp_sent: "sent (slp w d) = sent w"
    and rnd_range: "0 < m \<Longrightarrow> rnd w m = (w', Inr n) \<Longrightarrow> 0 \<le> n \<and> n < m"
begin

lemma pause_sent: "sent (pause rnd slp w m) = sent w"
  using rnd_sent [of w m]
  by (auto simp: pause_def randDuration_def slp_sent split: prod.splits sum.splits)

lemma fragment_pause_sent: "sent (fragment_pause rnd slp w c b) = sent w"
  by (simp add: fragment_pause_def pause_sent)

lemma randDuration_bounds:
  "0 < m \<Longrightarrow> 0 \<le> snd (randDuration rnd w m) \<and> snd (randDuration rnd w m) < m"
  using rnd_range by (auto simp: randDuration_def split: prod.splits sum.splits)

lemma trackedWrite_ok: "loop_ok sent w c 0 b (trackedWrite wr w c b)"
  by (simp add: trackedWrite_def write_all_ok)

lemma frag_loop_ok:
  assumes fs: "0 < fs"
  shows "loop_ok sent w c tot b (frag_loop wr rnd slp fs w c tot b)"
proof (induction b arbitrary: w c tot rule: length_induct)
  case (1 b)
  note unfold_loop = frag_loop.simps [of wr rnd slp fs w c tot b]
  show ?case
  proof (cases "b = [] \<or> past_handshake c")
    case True
    then show ?thesis
      by (auto simp: unfold_loop loop_ok_Nil write_all_ok)
  next
    case False
    define size where "size = min fs (int (length b))"
    have seg: "slice_to b size = Some (take (nat size) b)" "0 < size" "size \<le> int (length b)"
      using fs False by (auto simp: size_def go_simps)
    obtain w' n err where wr: "wr w (take (nat size) b) = (w', n, err)"
      by (cases "wr w (take (nat size) b)") auto
    have "accepted sent w (take (nat size) b) w' n"
      by (rule wr_accepted [OF wr])
    then have acc: "accepted sent w b w' n"
      by (rule accepted_prefix)
    have cut: "slice_from b n = Some (drop (nat n) b)"
      using acc by (simp add: accepted_def go_simps)
    show ?thesis
    proof (cases "n = 0 \<or> err \<noteq> None")
      case True
      with wr acc False seg show ?thesis
        by (auto simp: unfold_loop Let_def size_def [symmetric] intro: loop_ok_stop loop_ok_stalled)
    next
      case stop: False
      define w1 where "w1 = fragment_pause rnd slp w' (count_written c n) (drop (nat n) b)"
      have eq: "frag_loop wr rnd slp fs w c tot b =
          frag_loop wr rnd slp fs w1 (count_written c n) (tot + n) (drop (nat n) b)"
        using wr False seg stop cut
        by (simp add: unfold_loop Let_def size_def [symmetric] w1_def [symmetric])
      have "length (drop (nat n) b) < length b"
        using acc stop False by (auto simp: accepted_def)
      with "1.IH" have "loop_ok sent w1 (count_written c n) (tot + n) (drop (nat n) b)
          (frag_loop wr rnd slp fs w1 (count_written c n) (tot + n) (drop (nat n) b))"
        by blast
      moreover have "sent w1 = sent w'"
        by (simp add: w1_def fragment_pause_sent)
      ultimately show ?thesis
        unfolding eq using acc by (rule_tac loop_ok_step)
    qed
  qed
qed

lemma fragmentedWrite_ok: "loop_ok sent w c 0 b (fragmentedWrite wr rnd slp w c b)"
  by (simp add: fragmentedWrite_def frag_loop_ok frag_size_pos)

lemma sniSplitWrite_ok: "loop_ok sent w c 0 b (sniSplitWrite wr rnd slp w c b)"
proof -
  define i where "i = bytes_Index b (sc_sni c)"
  define cut where "cut = i + int (length (sc_sni c)) div 2"
  note unfold_split = sniSplitWrite_def [of wr rnd slp w c b, folded i_def, unfolded Let_def, folded cut_def]
  show ?thesis
  proof (cases "i < 0 \<or> cut \<le> 0 \<or> int (length b) \<le> cut")
    case True
    then show ?thesis
      using trackedWrite_ok by (auto simp: unfold_split)
  next
    case False
    obtain w1 n e where first: "trackedWrite wr w c (take (nat cut) b) = (w1, count_written c n, Return (n, e))"
      and acc: "accepted sent w (take (nat cut) b) w1 n"
      and full: "e = None \<longrightarrow> n = int (length (take (nat cut) b))"
      using trackedWrite_ok [of w c "take (nat cut) b"] by (auto simp: loop_ok_def)
    have acc_b: "accepted sent w b w1 n"
      using acc by (rule accepted_prefix)
    show ?thesis
    proof (cases e)
      case (Some err)
      then show ?thesis
        using first False acc_b loop_ok_stop [OF acc_b, of e c 0] by (simp add: unfold_split)
    next
      case None
      then have n: "n = cut"
        using full False by (auto simp: min_def nat_le_iff le_nat_iff)
      define w1' where "w1' = pause rnd slp w1 (sc_maxDelay c)"
      obtain w2 m e2 where second: "trackedWrite wr w1' (count_written c n) (drop (nat cut) b) =
            (w2, count_written (count_written c n) m, Return (m, e2))"
        and acc2: "accepted sent w1' (drop (nat cut) b) w2 m"
        and full2: "e2 = None \<longrightarrow> m = int (length (drop (nat cut) b))"
        using trackedWrite_ok [of w1' "count_written c n" "drop (nat cut) b"] by (auto simp: loop_ok_def)
      have "loop_ok sent w1' (count_written c n) (0 + n) (drop (nat n) b)
          (w2, count_written (count_written c n) m, Return (0 + n + m, e2))"
        using acc2 full2 n by (auto intro: loop_okI)
      then have "loop_ok sent w c 0 b (w2, count_written (count_written c n) m, Return (0 + n + m, e2))"
        using acc_b by (rule_tac loop_ok_step) (simp_all add: w1'_def pause_sent)
      with None False first second show ?thesis
        by (simp add: unfold_split w1'_def)
    qed
  qed
qed

text \<open>
  The contract of the wrapper's own \<^verbatim>\<open>Write\<close>: the same contract, and in the handshake phase the
  stronger one that a short write comes with an error.
\<close>

lemma spoof_Write_ok:
  assumes "spoof_Write wr rnd slp w c b = (w', c', r)"
  obtains n e where "r = Return (n, e)" and "accepted sent w b w' n"
    and "c' = (if past_handshake c then c else count_written c n)"
    and "\<not> past_handshake c \<Longrightarrow> e = None \<Longrightarrow> n = int (length b)"
proof (cases "past_handshake c")
  case True
  with assms that show ?thesis
    by (auto simp: spoof_Write_def split: prod.splits dest: wr_accepted)
next
  case False
  then have "loop_ok sent w c 0 b (w', c', r)"
    using assms sniSplitWrite_ok [of w c b] fragmentedWrite_ok [of w c b]
    by (auto simp: spoof_Write_def split: if_splits)
  with False that show ?thesis
    by (auto simp: loop_ok_def)
qed

end

end
