(* ===== verification/SpoofSegments.thy ===== *)
theory SpoofSegments
  imports SpoofConn
begin

text \<open>
  What \<^verbatim>\<open>SpoofConn.Write\<close> puts on the wire, write call by write call, on a connection that accepts
  every write in full: where the cut inside the server name falls, and how the handshake prefix is
  chunked. Then the contract of the wrapper as a writer of its own, for the layer above it, and
  the connections of the repository's tests as concrete providers of the contract.
\<close>

section \<open>Chunking, as a specification\<close>

fun chunks :: "nat \<Rightarrow> 'a list \<Rightarrow> 'a list list" where
  "chunks fs b = (if b = [] \<or> fs = 0 then [] else take fs b # chunks fs (drop fs b))"

declare chunks.simps [simp del]

text \<open>The bytes that go out in fragments: the quota rounded up to whole fragments.\<close>

definition fragmented_len :: "nat \<Rightarrow> nat \<Rightarrow> nat" where
  "fragmented_len fs quota = fs * ceil_div quota fs"

definition fragment_plan :: "nat \<Rightarrow> nat \<Rightarrow> 'a list \<Rightarrow> 'a list list" where
  "fragment_plan fs quota b =
     (let h = fragmented_len fs quota in
      chunks fs (take h b) @ (if length b \<le> h then [] else [drop h b]))"

lemma chunks_Nil [simp]: "chunks fs [] = []"
  by (simp add: chunks.simps)

lemma chunks_step: "b \<noteq> [] \<Longrightarrow> 0 < fs \<Longrightarrow> chunks fs b = take fs b # chunks fs (drop fs b)"
  by (subst chunks.simps) simp

lemma concat_chunks: "0 < fs \<Longrightarrow> concat (chunks fs b) = b"
proof (induction fs b rule: chunks.induct)
  case (1 fs b)
  then show ?case
    by (cases "b = []") (auto simp: chunks_step)
qed

lemma chunks_size: "s \<in> set (chunks fs b) \<Longrightarrow> s \<noteq> [] \<and> length s \<le> fs"
proof (induction fs b rule: chunks.induct)
  case (1 fs b)
  then show ?case
    by (cases "b = [] \<or> fs = 0") (auto simp: chunks.simps [of fs b])
qed

lemma length_chunks: "0 < fs \<Longrightarrow> length (chunks fs b) = ceil_div (length b) fs"
proof (induction fs b rule: chunks.induct)
  case (1 fs b)
  show ?case
  proof (cases "b = []")
    case False
    then have "length (chunks fs b) = Suc (ceil_div (length b - fs) fs)"
      using 1 by (subst chunks_step) auto
    then show ?thesis
      using False "1.prems" by (simp add: ceil_div_step)
  qed (use "1.prems" in simp)
qed

lemma fragmented_len_0 [simp]: "0 < fs \<Longrightarrow> fragmented_len fs 0 = 0"
  by (simp add: fragmented_len_def)

lemma fragmented_len_step:
  "0 < fs \<Longrightarrow> 0 < quota \<Longrightarrow> fragmented_len fs quota = fs + fragmented_len fs (quota - fs)"
  by (simp add: fragmented_len_def ceil_div_step)

lemmas fragmented_len_bounds = ceil_div_bounds [of fs for fs, folded fragmented_len_def]

lemma fragment_plan_Nil [simp]: "fragment_plan fs quota [] = []"
  by (simp add: fragment_plan_def)

lemma fragment_plan_past: "0 < fs \<Longrightarrow> b \<noteq> [] \<Longrightarrow> fragment_plan fs 0 b = [b]"
  by (simp add: fragment_plan_def)

lemma fragment_plan_step:
  assumes "0 < fs" and "0 < quota" and "b \<noteq> []"
  shows "fragment_plan fs quota b = take fs b # fragment_plan fs (quota - fs) (drop fs b)"
proof -
  define h where "h = fragmented_len fs (quota - fs)"
  have h: "fragmented_len fs quota = fs + h"
    unfolding h_def using assms(1,2) by (rule fragmented_len_step)
  have "chunks fs (take (fs + h) b) = take fs b # chunks fs (take h (drop fs b))"
    using assms by (subst chunks_step) (auto simp: drop_take)
  moreover have "length b \<le> fs + h \<longleftrightarrow> length (drop fs b) \<le> h"
    by auto
  ultimately show ?thesis
    by (simp add: fragment_plan_def Let_def h h_def [symmetric] add.commute)
qed

lemma concat_fragment_plan: "0 < fs \<Longrightarrow> concat (fragment_plan fs quota b) = b"
  by (simp add: fragment_plan_def Let_def concat_chunks)

section \<open>A connection that accepts every write in full\<close>

locale full_env =
  fixes wr :: "'w writer" and segs :: "'w \<Rightarrow> byte list list"
    and rnd :: "'w rand_int" and slp :: "'w sleeper"
  assumes full: "wr w b = (w', n, e) \<Longrightarrow> segs w' = segs w @ [b] \<and> n = int (length b) \<and> e = None"
    and rnd_segs: "segs (fst (rnd w m)) = segs w"
    and slp_segs: "segs (slp w d) = segs w"
    and rnd_within: "0 < m \<Longrightarrow> rnd w m = (w', Inr n) \<Longrightarrow> 0 \<le> n \<and> n < m"
begin

lemma wr_full:
  obtains w' where "wr w b = (w', int (length b), None)" and "segs w' = segs w @ [b]"
  using full by (metis prod_cases3)

lemma pause_segs: "segs (pause rnd slp w m) = segs w"
  using rnd_segs [of w m]
  by (auto simp: pause_def randDuration_def slp_segs split: prod.splits sum.splits)

lemma fragment_pause_segs: "segs (fragment_pause rnd slp w c b) = segs w"
  by (simp add: fragment_pause_def pause_segs)

lemma write_all_full:
  assumes "b \<noteq> []"
  obtains w' where "write_all wr w c tot b =
      (w', count_written c (int (length b)), Return (tot + int (length b), None))"
    and "segs w' = segs w @ [b]"
proof -
  obtain w' where w': "wr w b = (w', int (length b), None)" "segs w' = segs w @ [b]"
    by (rule wr_full)
  have "write_all wr w c tot b =
      write_all wr w' (count_written c (int (length b))) (tot + int (length b)) []"
    using assms w'(1) by (subst write_all.simps) (auto simp: slice_from_def)
  with w'(2) that show ?thesis
    by (simp add: write_all.simps)
qed

text \<open>
  Chunking: with \<open>quota\<close> bytes of the handshake phase left, the segments are exactly the plan.
\<close>

lemma frag_loop_full:
  assumes fs: "0 < fs"
  shows "\<exists>w'. frag_loop wr rnd slp fs w c tot b =
        (w', count_written c (int (length b)), Return (tot + int (length b), None)) \<and>
      segs w' = segs w @
        fragment_plan (nat fs) (nat (sc_handshakeLen c - sc_bytesWritten c)) b"
proof (induction b arbitrary: w c tot rule: length_induct)
  case (1 b)
  let ?quota = "nat (sc_handshakeLen c - sc_bytesWritten c)"
  consider "b = []" | "b \<noteq> []" "past_handshake c" | "b \<noteq> []" "\<not> past_handshake c"
    by blast
  then show ?case
  proof cases
    case 1
    then show ?thesis by (simp add: frag_loop.simps)
  next
    case 2
    obtain w' where "write_all wr w c tot b =
        (w', count_written c (int (length b)), Return (tot + int (length b), None))"
      and "segs w' = segs w @ [b]"
      by (rule write_all_full [OF \<open>b \<noteq> []\<close>])
    moreover have "?quota = 0"
      using 2 by (simp add: past_handshake_def)
    ultimately show ?thesis
      using 2 fs by (subst frag_loop.simps) (simp add: fragment_plan_past)
  next
    case 3
    define seg where "seg = take (nat fs) b"
    define rest where "rest = drop (nat fs) b"
    define size where "size = min fs (int (length b))"
    have size: "slice_to b size = Some seg" "size = int (length seg)" "0 < size"
      using 3 fs by (auto simp: size_def seg_def go_simps min_def nat_le_iff)
    obtain w' where w': "wr w seg = (w', size, None)" "segs w' = segs w @ [seg]"
      using wr_full [of w seg] size(2) by metis
    have cut: "slice_from b size = Some rest"
      using fs by (auto simp: size_def rest_def slice_from_def min_def nat_le_iff)
    define w1 where "w1 = fragment_pause rnd slp w' (count_written c size) rest"
    have eq: "frag_loop wr rnd slp fs w c tot b =
        frag_loop wr rnd slp fs w1 (count_written c size) (tot + size) rest"
      using 3 size(1,3) w'(1) cut
      by (simp add: frag_loop.simps [of wr rnd slp fs w c tot b] Let_def size_def [symmetric] w1_def)
    have len: "length b = length seg + length rest" "length rest < length b"
      using 3 fs by (auto simp: seg_def rest_def min_def)
    have quota: "nat (sc_handshakeLen c - (sc_bytesWritten c + size)) = ?quota - nat fs \<or> rest = []"
      using fs by (auto simp: size_def rest_def min_def)
    have "segs w1 = segs w @ [seg]"
      by (simp add: w1_def fragment_pause_segs w'(2))
    moreover have "fragment_plan (nat fs) ?quota b =
        seg # fragment_plan (nat fs) (nat (sc_handshakeLen c - (sc_bytesWritten c + size))) rest"
      using quota 3 fs fragment_plan_step [of "nat fs" ?quota b]
      by (auto simp: seg_def rest_def past_handshake_def)
    ultimately show ?thesis
      using "1.IH" [rule_format, OF len(2), of w1 "count_written c size" "tot + size"] len(1) size(2)
      by (auto simp: eq)
  qed
qed

lemma trackedWrite_full:
  assumes "b \<noteq> []"
  shows "\<exists>w'. trackedWrite wr w c b =
        (w', count_written c (int (length b)), Return (int (length b), None)) \<and>
      segs w' = segs w @ [b]"
  using write_all_full [OF assms, of w c 0] by (metis add_0 trackedWrite_def)

text \<open>The cut inside the server name: two write calls, at a position inside the first match.\<close>

lemma sniSplitWrite_full:
  assumes "bytes_Index b (sc_sni c) = int i"
    and k: "k = i + length (sc_sni c) div 2" "0 < k" "k < length b"
  shows "\<exists>w'. sniSplitWrite wr rnd slp w c b =
        (w', count_written c (int (length b)), Return (int (length b), None)) \<and>
      segs w' = segs w @ [take k b, drop k b]"
proof -
  have at: "int i + int (length (sc_sni c)) div 2 = int k"
    using k(1) by (simp add: zdiv_int)
  have ne: "take k b \<noteq> []" "drop k b \<noteq> []" and len: "length (take k b) = k"
    using k by auto
  obtain w1 where w1: "trackedWrite wr w c (take k b) = (w1, count_written c (int k), Return (int k, None))"
    "segs w1 = segs w @ [take k b]"
    using trackedWrite_full [OF ne(1)] unfolding len by metis
  define w1' where "w1' = pause rnd slp w1 (sc_maxDelay c)"
  obtain w2 where w2: "trackedWrite wr w1' (count_written c (int k)) (drop k b) =
      (w2, count_written (count_written c (int k)) (int (length (drop k b))),
       Return (int (length (drop k b)), None))"
    "segs w2 = segs w1' @ [drop k b]"
    using trackedWrite_full [OF ne(2)] by metis
  have sum: "int k + int (length (drop k b)) = int (length b)"
    using k(3) by simp
  have "sniSplitWrite wr rnd slp w c b =
      (w2, count_written c (int (length b)), Return (int (length b), None))"
    unfolding sniSplitWrite_def Let_def assms(1) at
    using k(2,3) w1(1) w2(1) by (simp add: w1'_def sum del: length_drop)
  moreover have "segs w1' = segs w1"
    by (simp add: w1'_def pause_segs)
  ultimately show ?thesis
    using w1(2) w2(2) by simp
qed

end

sublocale full_env \<subseteq> spoof_env wr "\<lambda>w. concat (segs w)" rnd slp
proof
  show "accepted (\<lambda>w. concat (segs w)) w b w' n" if "wr w b = (w', n, e)" for w b w' n e
    using full [OF that] by (simp add: accepted_def)
qed (simp_all add: rnd_segs slp_segs rnd_within)

section \<open>One cut through the server name\<close>

lemma spoof_Write_split_once:
  assumes "full_env wr segs rnd slp" and "\<not> past_handshake c"
    and "2 \<le> length (sc_sni c)" and "occurs_at (sc_sni c) b i"
    and "\<And>j. occurs_at (sc_sni c) b j \<Longrightarrow> j = i"
  shows "\<exists>w' x y. spoof_Write wr rnd slp w c b =
      (w', count_written c (int (length b)), Return (int (length b), None)) \<and>
    segs w' = segs w @ [x, y] \<and> x @ y = b \<and> x \<noteq> [] \<and> y \<noteq> [] \<and>
    \<not> contains x (sc_sni c) \<and> \<not> contains y (sc_sni c)"
proof -
  define k where "k = i + length (sc_sni c) div 2"
  have first: "bytes_Index b (sc_sni c) = int i"
    using assms(4,5) by (rule bytes_Index_unique)
  have k: "i < k" "0 < k" "k < i + length (sc_sni c)" "k < length b"
    using assms(3) occurs_at_bound [OF assms(4)] by (auto simp: k_def)
  obtain w' where w': "sniSplitWrite wr rnd slp w c b =
      (w', count_written c (int (length b)), Return (int (length b), None))"
    "segs w' = segs w @ [take k b, drop k b]"
    using full_env.sniSplitWrite_full [OF assms(1) first k_def k(2,4)] by blast
  have "\<not> contains (take k b) (sc_sni c)"
    using first k(3) by (rule contains_take_first)
  moreover have "\<not> contains (drop k b) (sc_sni c)"
    using contains_drop [of k b "sc_sni c"] k(1,4) assms(5) by force
  moreover have "spoof_Write wr rnd slp w c b = sniSplitWrite wr rnd slp w c b"
    using assms(2,3) by (auto simp: spoof_Write_def)
  ultimately show ?thesis
    using w' k(2,4) by (intro exI [of _ w'] exI [of _ "take k b"] exI [of _ "drop k b"]) auto
qed

text \<open>With a server name configured the fragment size is never read: the writes do not depend on it.\<close>

lemma write_all_fragmentSize:
  "write_all wr w (c\<lparr>sc_fragmentSize := n\<rparr>) tot b =
    (case write_all wr w c tot b of (w', c', r) \<Rightarrow> (w', c'\<lparr>sc_fragmentSize := n\<rparr>, r))"
proof (induction wr w c tot b rule: write_all.induct)
  case (1 wr w c tot b)
  have cw: "count_written (c\<lparr>sc_fragmentSize := n\<rparr>) k = (count_written c k)\<lparr>sc_fragmentSize := n\<rparr>" for k
    by (simp add: count_written_def)
  show ?case
    using 1 by (subst (1 2) write_all.simps) (auto simp: cw split: prod.splits option.splits)
qed

lemma spoof_Write_fragmentSize:
  assumes "sc_sni c \<noteq> []"
  shows "spoof_Write wr rnd slp w (c\<lparr>sc_fragmentSize := n\<rparr>) b =
    (case spoof_Write wr rnd slp w c b of (w', c', r) \<Rightarrow> (w', c'\<lparr>sc_fragmentSize := n\<rparr>, r))"
  using assms
  by (auto simp: spoof_Write_def past_handshake_def sniSplitWrite_def trackedWrite_def Let_def
      write_all_fragmentSize split: prod.splits outcome.splits option.splits)

section \<open>The wrapper is itself a writer\<close>

text \<open>The whole documented contract of \<^verbatim>\<open>io.Writer\<close>: a short write comes with an error.\<close>

locale go_writer = io_writer wr sent
  for wr :: "'w writer" and sent :: "'w \<Rightarrow> byte list" +
  assumes short: "wr w b = (w', n, None) \<Longrightarrow> n = int (length b)"

text \<open>A client of a writer: write the records one after the other, stop at the first error.\<close>

fun write_seq :: "'w writer \<Rightarrow> 'w \<Rightarrow> byte list list \<Rightarrow> 'w \<times> goerror option" where
  "write_seq wr w [] = (w, None)"
| "write_seq wr w (b # bs) =
     (case wr w b of
        (w', n, Some e) \<Rightarrow> (w', Some e)
      | (w', n, None) \<Rightarrow> write_seq wr w' bs)"

context go_writer
begin

lemma write_seq_sent:
  "write_seq wr w bs = (w', r) \<Longrightarrow>
     \<exists>k. sent w' = sent w @ take k (concat bs) \<and> (r = None \<longrightarrow> k = length (concat bs))"
proof (induction bs arbitrary: w)
  case Nil
  then show ?case by auto
next
  case (Cons b bs)
  obtain w1 n e where wr: "wr w b = (w1, n, e)"
    by (cases "wr w b") auto
  have acc: "accepted sent w b w1 n"
    using wr by (rule wr_accepted)
  show ?case
  proof (cases e)
    case (Some err)
    then have "w' = w1" "r = Some err"
      using Cons.prems wr by auto
    then show ?thesis
      using acc by (intro exI [of _ "nat n"]) (auto simp: accepted_def)
  next
    case None
    then have n: "n = int (length b)"
      using short [of w b w1 n] wr by simp
    then have sent1: "sent w1 = sent w @ b"
      using acc by (simp add: accepted_def)
    obtain k where "sent w' = sent w1 @ take k (concat bs)" "r = None \<longrightarrow> k = length (concat bs)"
      using Cons wr None by auto
    then show ?thesis
      using sent1 by (intro exI [of _ "length b + k"]) simp
  qed
qed

end

text \<open>
  The wrapper as the connection of the layer above it: its state is the world together with the
  struct. The panic case is never taken over a writer that keeps its contract.
\<close>

definition layered_Write :: "'w writer \<Rightarrow> 'w rand_int \<Rightarrow> 'w sleeper \<Rightarrow> ('w \<times> spoof_conn) writer" where
  "layered_Write wr rnd slp wc b =
     (case spoof_Write wr rnd slp (fst wc) (snd wc) b of
        (w', c', Return (n, e)) \<Rightarrow> ((w', c'), n, e)
      | (w', c', Panic) \<Rightarrow> ((w', c'), - 1, None))"

locale go_spoof_env = spoof_env wr sent rnd slp + go_writer wr sent
  for wr :: "'w writer" and sent :: "'w \<Rightarrow> byte list"
    and rnd :: "'w rand_int" and slp :: "'w sleeper"
begin

lemma spoof_Write_short:
  assumes "spoof_Write wr rnd slp w c b = (w', c', Return (n, None))"
  shows "n = int (length b)"
proof (cases "past_handshake c")
  case True
  with assms show ?thesis
    by (auto simp: spoof_Write_def split: prod.splits dest: short)
next
  case False
  then show ?thesis
    using spoof_Write_ok [OF assms] by (metis outcome.inject prod.inject)
qed

end

sublocale go_spoof_env \<subseteq> layered: go_writer "layered_Write wr rnd slp" "\<lambda>wc. sent (fst wc)"
proof
  fix wc b wc' n e
  assume L: "layered_Write wr rnd slp wc b = (wc', n, e)"
  obtain w' c' r where W: "spoof_Write wr rnd slp (fst wc) (snd wc) b = (w', c', r)"
    by (cases "spoof_Write wr rnd slp (fst wc) (snd wc) b") auto
  obtain n' e' where r: "r = Return (n', e')" and acc: "accepted sent (fst wc) b w' n'"
    by (rule spoof_Write_ok [OF W])
  with L W have eqs: "wc' = (w', c')" "n = n'" "e = e'"
    by (auto simp: layered_Write_def)
  then show "accepted (\<lambda>wc. sent (fst wc)) wc b wc' n"
    using acc by (simp add: accepted_def)
next
  fix wc b wc' n
  assume L: "layered_Write wr rnd slp wc b = (wc', n, None)"
  obtain w' c' r where W: "spoof_Write wr rnd slp (fst wc) (snd wc) b = (w', c', r)"
    by (cases "spoof_Write wr rnd slp (fst wc) (snd wc) b") auto
  obtain n' e' where r: "r = Return (n', e')"
    by (rule spoof_Write_ok [OF W])
  with L W have "e' = None" "n = n'"
    by (auto simp: layered_Write_def)
  with W r show "n = int (length b)"
    by (auto intro: spoof_Write_short)
qed

context go_spoof_env
begin

lemma session_sent:
  "write_seq (layered_Write wr rnd slp) (w, c) bs = ((w', c'), res) \<Longrightarrow>
     \<exists>k. sent w' = sent w @ take k (concat bs) \<and> (res = None \<longrightarrow> k = length (concat bs))"
  using layered.write_seq_sent by fastforce

end

section \<open>What does not depend on the environment\<close>

lemma layered_Write_past:
  "past_handshake c \<Longrightarrow> layered_Write wr rnd slp (w, c) b = (case wr w b of (w', n, e) \<Rightarrow> ((w', c), n, e))"
  by (simp add: layered_Write_def spoof_Write_def split: prod.splits)

lemma write_seq_past:
  "past_handshake c \<Longrightarrow>
     write_seq (layered_Write wr rnd slp) (w, c) bs = (case write_seq wr w bs of (w', r) \<Rightarrow> ((w', c), r))"
  by (induction bs arbitrary: w) (auto simp: layered_Write_past split: prod.splits option.splits)

lemma frag_loop_no_delay:
  "sc_maxDelay c \<le> 0 \<Longrightarrow> frag_loop wr rnd slp fs w c tot b = frag_loop wr rnd' slp' fs w c tot b"
proof (induction b arbitrary: w c tot rule: length_induct)
  case (1 b)
  have same: "fragment_pause rnd slp w' c' b' = fragment_pause rnd' slp' w' c' b'"
    if "sc_maxDelay c' = sc_maxDelay c" for w' c' b'
    using "1.prems" that by (simp add: fragment_pause_def pause_disabled)
  have rest: "frag_loop wr rnd slp fs w' (count_written c n) t b' = frag_loop wr rnd' slp' fs w' (count_written c n) t b'"
    if "slice_from b n = Some b'" "n \<noteq> 0" for w' n t b'
    using "1.IH" "1.prems" slice_from_shorter [OF that] by simp
  show ?case
    by (subst (1 2) frag_loop.simps) (auto simp: Let_def same rest split: option.splits prod.splits)
qed

lemma spoof_Write_no_delay:
  "sc_maxDelay c \<le> 0 \<Longrightarrow> spoof_Write wr rnd slp w c b = spoof_Write wr rnd' slp' w c b"
proof -
  assume "sc_maxDelay c \<le> 0"
  moreover from this have "fragmentedWrite wr rnd slp w c b = fragmentedWrite wr rnd' slp' w c b"
    unfolding fragmentedWrite_def by (rule frag_loop_no_delay)
  moreover have "sc_maxDelay c1 = sc_maxDelay c" if "trackedWrite wr w c s = (w1, c1, r)" for w w1 c1 r s
  proof -
    have "sc_maxDelay (fst (snd (write_all wr w c t b))) = sc_maxDelay c" for w c t b
      by (induction wr w c t b rule: write_all.induct)
        (subst write_all.simps, auto simp: write_all.simps split: option.splits prod.splits)
    from this [of w c 0 s] that show ?thesis
      by (simp add: trackedWrite_def)
  qed
  ultimately show ?thesis
    by (auto simp: spoof_Write_def sniSplitWrite_def Let_def pause_disabled
        split: prod.splits outcome.splits option.splits)
qed

text \<open>A first write that makes no progress ends the operation.\<close>

lemma write_all_stalled:
  "b \<noteq> [] \<Longrightarrow> wr w b = (w', 0, None) \<Longrightarrow>
     write_all wr w c tot b = (w', c, Return (tot, Some (Sentinel ErrShortWrite)))"
  by (subst write_all.simps) simp

lemma spoof_Write_stalled:
  assumes c: "\<not> past_handshake c" and b: "b \<noteq> []"
    and stall: "\<And>s. s \<noteq> [] \<Longrightarrow> wr w s = (w', 0, None)"
  shows "spoof_Write wr rnd slp w c b = (w', c, Return (0, Some (Sentinel ErrShortWrite)))"
proof -
  have tracked: "trackedWrite wr w c s = (w', c, Return (0, Some (Sentinel ErrShortWrite)))"
    if "s \<noteq> []" for s
    using that stall by (simp add: trackedWrite_def write_all_stalled)
  define size where "size = min (frag_size c) (int (length b))"
  have "0 < size" "size \<le> int (length b)"
    using b frag_size_pos by (auto simp: size_def)
  then have "slice_to b size = Some (take (nat size) b)" "take (nat size) b \<noteq> []"
    using b by (auto simp: go_simps)
  then have "fragmentedWrite wr rnd slp w c b = (w', c, Return (0, Some (Sentinel ErrShortWrite)))"
    using b c stall unfolding fragmentedWrite_def
    by (subst frag_loop.simps) (simp add: Let_def size_def [symmetric])
  then show ?thesis
    using b c by (auto simp: spoof_Write_def sniSplitWrite_def Let_def tracked)
qed

section \<open>A connection that always makes progress\<close>

locale progress_env = spoof_env wr sent rnd slp
  for wr :: "'w writer" and sent :: "'w \<Rightarrow> byte list"
    and rnd :: "'w rand_int" and slp :: "'w sleeper" +
  assumes progress: "b \<noteq> [] \<Longrightarrow> \<exists>w' n. wr w b = (w', n, None) \<and> n \<noteq> 0"
begin

lemma write_all_live: "\<exists>w' c' k. write_all wr w c tot b = (w', c', Return (k, None))"
proof (induction b arbitrary: w c tot rule: length_induct)
  case (1 b)
  show ?case
  proof (cases "b = []")
    case True
    then show ?thesis by (simp add: write_all.simps)
  next
    case False
    obtain w' n where wr: "wr w b = (w', n, None)" "n \<noteq> 0"
      using progress [OF False] by blast
    have "length (drop (nat n) b) < length b"
      using wr_accepted [OF wr(1)] wr(2) False by (auto simp: accepted_def)
    with "1.IH" show ?thesis
      using False wr wr_slice [OF wr(1)] by (simp add: write_all.simps [of wr w c tot b])
  qed
qed

lemma trackedWrite_live: "\<exists>w' c' k. trackedWrite wr w c b = (w', c', Return (k, None))"
  by (simp add: trackedWrite_def write_all_live)

lemma frag_loop_live:
  assumes fs: "0 < fs"
  shows "\<exists>w' c' k. frag_loop wr rnd slp fs w c tot b = (w', c', Return (k, None))"
proof (induction b arbitrary: w c tot rule: length_induct)
  case (1 b)
  note unfold_loop = frag_loop.simps [of wr rnd slp fs w c tot b]
  show ?case
  proof (cases "b = [] \<or> past_handshake c")
    case True
    then show ?thesis
      using write_all_live by (auto simp: unfold_loop)
  next
    case False
    define size where "size = min fs (int (length b))"
    have "0 < size" "size \<le> int (length b)"
      using fs False by (auto simp: size_def)
    then have seg: "slice_to b size = Some (take (nat size) b)" "take (nat size) b \<noteq> []"
      using False by (auto simp: go_simps)
    obtain w' n where wr: "wr w (take (nat size) b) = (w', n, None)" "n \<noteq> 0"
      using progress [OF seg(2)] by blast
    have acc: "accepted sent w b w' n"
      using wr_accepted [OF wr(1)] by (rule accepted_prefix)
    then have cut: "slice_from b n = Some (drop (nat n) b)"
      by (simp add: accepted_def go_simps)
    have "length (drop (nat n) b) < length b"
      using acc wr(2) False by (auto simp: accepted_def)
    with "1.IH" show ?thesis
      using False wr seg(1) cut by (simp add: unfold_loop Let_def size_def [symmetric])
  qed
qed

lemma sniSplitWrite_live: "\<exists>w' c' k. sniSplitWrite wr rnd slp w c b = (w', c', Return (k, None))"
proof -
  obtain w1 c1 n1 where 1: "trackedWrite wr w c b = (w1, c1, Return (n1, None))"
    using trackedWrite_live by blast
  obtain w2 c2 n2 where 2: "trackedWrite wr w c
      (take (nat (bytes_Index b (sc_sni c) + int (length (sc_sni c)) div 2)) b) = (w2, c2, Return (n2, None))"
    using trackedWrite_live by blast
  obtain w3 c3 n3 where 3: "trackedWrite wr (pause rnd slp w2 (sc_maxDelay c2)) c2
      (drop (nat (bytes_Index b (sc_sni c) + int (length (sc_sni c)) div 2)) b) = (w3, c3, Return (n3, None))"
    using trackedWrite_live by blast
  show ?thesis
    using 1 2 3 by (simp add: sniSplitWrite_def Let_def)
qed

lemma spoof_Write_live:
  "\<not> past_handshake c \<Longrightarrow> \<exists>w' c' k. spoof_Write wr rnd slp w c b = (w', c', Return (k, None))"
  using sniSplitWrite_live frag_loop_live [OF frag_size_pos]
  by (simp add: spoof_Write_def fragmentedWrite_def)

end

section \<open>The connections of the tests\<close>

text \<open>
  \<^verbatim>\<open>fakeConn\<close>, \<^verbatim>\<open>shortWriteConn\<close> and \<^verbatim>\<open>zeroWriteConn\<close> of \<^verbatim>\<open>src/camouflage_test.go\<close>, extended with
  a scripted random source and a record of the sleeps.
\<close>

record fake_conn =
  fc_writes :: "byte list list"
  fc_closed :: bool

record fake_world = fake_conn +
  fw_rands :: "int list"
  fw_sleeps :: "int list"

definition fake_Write :: "'a fake_conn_scheme writer" where
  "fake_Write f b = (f\<lparr>fc_writes := fc_writes f @ [b]\<rparr>, int (length b), None)"

definition short_Write :: "nat \<Rightarrow> 'a fake_conn_scheme writer" where
  "short_Write maxPerWrite f b =
     fake_Write f (take (if maxPerWrite < length b then maxPerWrite else length b) b)"

definition zero_Write :: "'a fake_conn_scheme writer" where
  "zero_Write f b = (f, 0, None)"

definition fake_rand :: "fake_world rand_int" where
  "fake_rand f m =
     (case fw_rands f of
        [] \<Rightarrow> (f, Inl (External ''entropy''))
      | r # rs \<Rightarrow> (f\<lparr>fw_rands := rs\<rparr>, Inr (r mod m)))"

definition fake_sleep :: "fake_world sleeper" where
  "fake_sleep f d = f\<lparr>fw_sleeps := fw_sleeps f @ [d]\<rparr>"

definition fresh_fake :: "int list \<Rightarrow> fake_world" where
  "fresh_fake rands = \<lparr>fc_writes = [], fc_closed = False, fw_rands = rands, fw_sleeps = []\<rparr>"

lemmas fake_defs = fake_Write_def short_Write_def zero_Write_def fake_rand_def fake_sleep_def
  fresh_fake_def

interpretation fake: full_env fake_Write fc_writes fake_rand fake_sleep
  by unfold_locales (auto simp: fake_defs split: list.splits)

interpretation fake: go_spoof_env fake_Write "\<lambda>f. concat (fc_writes f)" fake_rand fake_sleep
  by unfold_locales (auto simp: fake_defs)

interpretation short: spoof_env "short_Write k" "\<lambda>f. concat (fc_writes f)" fake_rand fake_sleep for k
  by unfold_locales (auto simp: fake_defs accepted_def fake.rnd_sent fake.slp_sent split: list.splits)

interpretation stuck: spoof_env zero_Write "\<lambda>f. concat (fc_writes f)" fake_rand fake_sleep
  by unfold_locales (auto simp: fake_defs accepted_def split: list.splits)

interpretation short: progress_env "short_Write (Suc k)" "\<lambda>f. concat (fc_writes f)" fake_rand fake_sleep for k
  by unfold_locales (auto simp: fake_defs)

end
