(* ===== verification/SpoofClaims.thy ===== *)
theory SpoofClaims
  imports SpoofSegments
begin

text \<open>
  The properties of \<^verbatim>\<open>src/dpi-spoof.go\<close>, each with a witness on the connections of the tests.
\<close>

section \<open>Delivery\<close>

text \<open>C3 Over any connection that keeps the part of the \<^verbatim>\<open>io.Writer\<close> contract the code relies on,
  \<^verbatim>\<open>SpoofConn.Write\<close> never panics, whatever the mode: it reports a count within the buffer, exactly
  that prefix of the buffer has been accepted by the connection, the count is added to
  \<^verbatim>\<open>bytesWritten\<close> in the handshake phase only, and in that phase an incomplete write is an error.\<close>

theorem spoof_Write_delivers:
  assumes "spoof_env wr sent rnd slp"
    and "spoof_Write wr rnd slp w c b = (w', c', r)"
  shows "\<exists>n e. r = Return (n, e) \<and> 0 \<le> n \<and> n \<le> int (length b) \<and>
    sent w' = sent w @ take (nat n) b \<and>
    c' = (if past_handshake c then c else count_written c n) \<and>
    (\<not> past_handshake c \<and> e = None \<longrightarrow> n = int (length b))"
  by (rule spoof_env.spoof_Write_ok [OF assms]) (auto simp: accepted_def)

theorem spoof_Write_delivers_witness:
  "\<exists>w' c' r n e. spoof_Write (short_Write 1) fake_rand fake_sleep (fresh_fake [])
      (NewSpoofConn 3 10 0 '''') (bytes_of ''ABCDEF'') = (w', c', r) \<and>
    r = Return (n, e) \<and> concat (fc_writes w') = take (nat n) (bytes_of ''ABCDEF'')"
proof -
  obtain w' c' r where R: "spoof_Write (short_Write 1) fake_rand fake_sleep (fresh_fake [])
      (NewSpoofConn 3 10 0 '''') (bytes_of ''ABCDEF'') = (w', c', r)"
    by (rule prod_cases3)
  obtain n e where "r = Return (n, e)" "concat (fc_writes w') = take (nat n) (bytes_of ''ABCDEF'')"
    using spoof_Write_delivers [OF short.spoof_env_axioms R] by (auto simp: fresh_fake_def)
  with R show ?thesis
    by blast
qed

text \<open>Over a connection that always makes progress without error, however short its writes, a
  handshake-phase \<^verbatim>\<open>Write\<close> delivers the whole buffer and returns its length and no error: neither
  the split mode nor the fragment mode ever stops early or spins.\<close>

theorem spoof_Write_completes:
  assumes "progress_env wr sent rnd slp" and "\<not> past_handshake c"
  shows "\<exists>w' c'. spoof_Write wr rnd slp w c b = (w', c', Return (int (length b), None)) \<and>
    sent w' = sent w @ b"
proof -
  obtain w' c' k where W: "spoof_Write wr rnd slp w c b = (w', c', Return (k, None))"
    using progress_env.spoof_Write_live [OF assms] by blast
  have env: "spoof_env wr sent rnd slp"
    using assms(1) by (simp add: progress_env_def)
  from spoof_env.spoof_Write_ok [OF env W] assms(2) have "accepted sent w b w' k" "k = int (length b)"
    by (metis outcome.inject prod.inject)+
  with W show ?thesis
    by (auto simp: accepted_def)
qed

theorem spoof_Write_completes_witness:
  "\<exists>w' c'. spoof_Write (short_Write (Suc 0)) fake_rand fake_sleep (fresh_fake [])
      (NewSpoofConn 3 10 0 '''') (bytes_of ''ABCDEF'') = (w', c', Return (6, None)) \<and>
    concat (fc_writes w') = bytes_of ''ABCDEF''"
  using spoof_Write_completes [OF short.progress_env_axioms,
      of "NewSpoofConn 3 10 0 ''''" 0 "fresh_fake []" "bytes_of ''ABCDEF''"]
  by (simp add: past_handshake_def NewSpoofConn_def fresh_fake_def)

text \<open>C20 A session of writes through the wrapper, as the TLS layer above it makes: what the peer has been
  sent is always a prefix of the concatenated records, and all of them when every write succeeded.
  Splitting and fragmenting never reorder, drop or repeat a byte.\<close>

theorem spoofed_session_stream:
  assumes "go_spoof_env wr sent rnd slp"
    and "write_seq (layered_Write wr rnd slp) (w, NewSpoofConn fs hl md sni) recs = ((w', c'), res)"
  shows "\<exists>k. sent w' = sent w @ take k (concat recs) \<and> (res = None \<longrightarrow> k = length (concat recs))"
  using assms by (rule go_spoof_env.session_sent)

theorem spoofed_session_stream_witness:
  "\<exists>w' c' res k. write_seq (layered_Write fake_Write fake_rand fake_sleep)
      (fresh_fake [5], NewSpoofConn 2 10 7 ''ab'') [bytes_of ''xxabyy'', bytes_of ''zz''] = ((w', c'), res) \<and>
    concat (fc_writes w') = take k (bytes_of ''xxabyyzz'')"
proof -
  obtain w' c' res where R: "write_seq (layered_Write fake_Write fake_rand fake_sleep)
      (fresh_fake [5], NewSpoofConn 2 10 7 ''ab'') [bytes_of ''xxabyy'', bytes_of ''zz''] = ((w', c'), res)"
    by (metis surj_pair)
  show ?thesis
    using spoofed_session_stream [OF fake.go_spoof_env_axioms R] R
    by (auto simp: fresh_fake_def bytes_of_def)
qed

section \<open>The cut inside the server name\<close>

text \<open>C6 In the handshake phase, on a connection that accepts writes in full, a buffer that holds the
  configured server name (of at least two bytes) exactly once goes out as exactly two non-empty
  write calls, neither of which contains the name: no single segment shows it to a DPI box.\<close>

theorem sni_split_hides_name:
  assumes "full_env wr segs rnd slp" and "\<not> past_handshake c"
    and "2 \<le> length (sc_sni c)" and "occurs_at (sc_sni c) b i"
    and "\<And>j. occurs_at (sc_sni c) b j \<Longrightarrow> j = i"
  shows "\<exists>w' x y. spoof_Write wr rnd slp w c b =
      (w', count_written c (int (length b)), Return (int (length b), None)) \<and>
    segs w' = segs w @ [x, y] \<and> x @ y = b \<and> x \<noteq> [] \<and> y \<noteq> [] \<and>
    \<not> contains x (sc_sni c) \<and> \<not> contains y (sc_sni c)"
  using assms by (rule spoof_Write_split_once)

theorem sni_split_hides_name_witness:
  "\<exists>w' x y. spoof_Write fake_Write fake_rand fake_sleep (fresh_fake [])
      (NewSpoofConn 2 2048 0 ''ab'') (bytes_of ''xxabyy'') =
      (w', count_written (NewSpoofConn 2 2048 0 ''ab'') 6, Return (6, None)) \<and>
    fc_writes w' = [x, y] \<and> x @ y = bytes_of ''xxabyy'' \<and>
    \<not> contains x (bytes_of ''ab'') \<and> \<not> contains y (bytes_of ''ab'')"
proof -
  let ?c = "NewSpoofConn 2 2048 0 ''ab''"
  have sni: "sc_sni ?c = bytes_of ''ab''"
    by (simp add: NewSpoofConn_def)
  have h: "\<not> past_handshake ?c" "2 \<le> length (sc_sni ?c)"
    by (simp_all add: past_handshake_def NewSpoofConn_def)
  have occ: "occurs_at (sc_sni ?c) (bytes_of ''xxabyy'') 2"
    by (simp add: occurs_at_def sni bytes_of_def)
  have uniq: "j = 2" if "occurs_at (sc_sni ?c) (bytes_of ''xxabyy'') j" for j
  proof -
    have "j \<le> 4"
      using occurs_at_bound [OF that] by (simp add: sni)
    then have "j = 0 \<or> j = 1 \<or> j = 2 \<or> j = 3 \<or> j = 4"
      by linarith
    then show ?thesis
      using that by (auto simp: occurs_at_def sni bytes_of_def)
  qed
  obtain w' x y where "spoof_Write fake_Write fake_rand fake_sleep (fresh_fake []) ?c (bytes_of ''xxabyy'') =
      (w', count_written ?c (int (length (bytes_of ''xxabyy''))),
       Return (int (length (bytes_of ''xxabyy'')), None))"
    "fc_writes w' = fc_writes (fresh_fake []) @ [x, y]" "x @ y = bytes_of ''xxabyy''"
    "\<not> contains x (sc_sni ?c)" "\<not> contains y (sc_sni ?c)"
    using sni_split_hides_name [OF fake.full_env_axioms h occ uniq] by blast
  then show ?thesis
    unfolding sni by (intro exI [of _ w'] exI [of _ x] exI [of _ y]) (simp add: fresh_fake_def)
qed

text \<open>The limit of the technique: only the first match is cut. When the name occurs again behind the
  first match, the second write call carries it in one piece (the first never does).\<close>

theorem sni_repeated_escapes:
  assumes "full_env wr segs rnd slp" and "\<not> past_handshake c"
    and "2 \<le> length (sc_sni c)" and "bytes_Index b (sc_sni c) = int i"
    and "occurs_at (sc_sni c) b j" and "i + length (sc_sni c) \<le> j"
  shows "\<exists>w' r x y. spoof_Write wr rnd slp w c b = (w', count_written c (int (length b)), r) \<and>
    segs w' = segs w @ [x, y] \<and> \<not> contains x (sc_sni c) \<and> contains y (sc_sni c)"
proof -
  define k where "k = i + length (sc_sni c) div 2"
  have k: "0 < k" "k < i + length (sc_sni c)" "k < length b" "k \<le> j"
    using assms(3,6) occurs_at_bound [OF assms(5)] by (auto simp: k_def)
  obtain w' where w': "sniSplitWrite wr rnd slp w c b =
      (w', count_written c (int (length b)), Return (int (length b), None))"
    "segs w' = segs w @ [take k b, drop k b]"
    using full_env.sniSplitWrite_full [OF assms(1,4) k_def k(1,3)] by blast
  have "\<not> contains (take k b) (sc_sni c)"
    using assms(4) k(2) by (rule contains_take_first)
  moreover have "contains (drop k b) (sc_sni c)"
    using contains_drop [of k b "sc_sni c"] k(3,4) assms(5) by auto
  moreover have "spoof_Write wr rnd slp w c b = sniSplitWrite wr rnd slp w c b"
    using assms(2,3) by (auto simp: spoof_Write_def)
  ultimately show ?thesis
    using w' by auto
qed

theorem sni_repeated_escapes_witness:
  "\<exists>w' c' r x y. spoof_Write fake_Write fake_rand fake_sleep (fresh_fake [])
      (NewSpoofConn 2 2048 0 ''ab'') (bytes_of ''abab'') = (w', c', r) \<and>
    fc_writes w' = [x, y] \<and> contains y (bytes_of ''ab'')"
proof -
  let ?c = "NewSpoofConn 2 2048 0 ''ab''"
  have h: "\<not> past_handshake ?c" "2 \<le> length (sc_sni ?c)"
    "bytes_Index (bytes_of ''abab'') (sc_sni ?c) = int 0"
    "occurs_at (sc_sni ?c) (bytes_of ''abab'') 2" "0 + length (sc_sni ?c) \<le> 2"
    by (simp_all add: past_handshake_def NewSpoofConn_def occurs_at_def bytes_of_def)
  from sni_repeated_escapes [OF fake.full_env_axioms h, of "fresh_fake []"]
  show ?thesis
    by (auto simp: fresh_fake_def NewSpoofConn_def)
qed

section \<open>Fragment mode\<close>

text \<open>C27 With no server name configured, on a connection that accepts writes in full, the write calls of
  a handshake-phase \<^verbatim>\<open>Write\<close> are exactly the fragment plan: pieces of the fragment size covering the
  rest of the handshake length rounded up to whole fragments, then the remainder in one call.\<close>

theorem fragment_mode_plan:
  assumes "full_env wr segs rnd slp" and "\<not> past_handshake c" and "sc_sni c = []"
  shows "\<exists>w'. spoof_Write wr rnd slp w c b =
      (w', count_written c (int (length b)), Return (int (length b), None)) \<and>
    segs w' = segs w @
      fragment_plan (nat (frag_size c)) (nat (sc_handshakeLen c - sc_bytesWritten c)) b"
  using full_env.frag_loop_full [OF assms(1) frag_size_pos, of c w c 0 b] assms(2,3)
  by (simp add: spoof_Write_def fragmentedWrite_def)

theorem fragment_mode_plan_witness:
  "\<exists>w'. spoof_Write fake_Write fake_rand fake_sleep (fresh_fake [])
      (NewSpoofConn 2 10 0 '''') (bytes_of ''HELLO_WORLD!'') =
      (w', count_written (NewSpoofConn 2 10 0 '''') 12, Return (12, None)) \<and>
    map length (fc_writes w') = [2, 2, 2, 2, 2, 2]"
proof -
  let ?c = "NewSpoofConn 2 10 0 ''''"
  have h: "\<not> past_handshake ?c" "sc_sni ?c = []"
    by (simp_all add: past_handshake_def NewSpoofConn_def)
  have "map length (fragment_plan 2 10 (bytes_of ''HELLO_WORLD!'')) = [2, 2, 2, 2, 2, 2]"
    by (simp add: fragment_plan_def fragmented_len_def ceil_div_def bytes_of_def chunks.simps)
  with fragment_mode_plan [OF fake.full_env_axioms h, of "fresh_fake []" "bytes_of ''HELLO_WORLD!''"]
  show ?thesis
    by (auto simp: fresh_fake_def) (simp add: NewSpoofConn_def frag_size_def)
qed

text \<open>The sizes of those write calls: first the handshake fragments, as many as it takes to cover the
  buffer or the remaining quota, each non-empty and at most the fragment size; then at most one
  longer call, made only after \<^verbatim>\<open>handshakeLen\<close> bytes have been counted. A non-positive configured
  fragment size means two bytes.\<close>

theorem fragment_mode_sizes:
  assumes "full_env wr segs rnd slp" and "\<not> past_handshake c" and "sc_sni c = []"
    and "spoof_Write wr rnd slp w c b = (w', c', r)"
  shows "\<exists>hs rest. segs w' = segs w @ hs @ rest \<and> concat (hs @ rest) = b \<and>
    (\<forall>s \<in> set hs. s \<noteq> [] \<and> int (length s) \<le> (if 0 < sc_fragmentSize c then sc_fragmentSize c else 2)) \<and>
    length hs \<le> ceil_div (nat (sc_handshakeLen c - sc_bytesWritten c)) (nat (frag_size c)) \<and>
    length rest \<le> 1 \<and>
    (rest \<noteq> [] \<longrightarrow> sc_handshakeLen c \<le> sc_bytesWritten c + int (length (concat hs)))"
proof -
  define fs where "fs = nat (frag_size c)"
  define q where "q = nat (sc_handshakeLen c - sc_bytesWritten c)"
  define h where "h = fragmented_len fs q"
  define hs where "hs = chunks fs (take h b)"
  define rest where "rest = (if length b \<le> h then [] else [drop h b])"
  have fs: "0 < fs"
    using frag_size_pos [of c] by (simp add: fs_def)
  have plan: "segs w' = segs w @ hs @ rest"
    using full_env.frag_loop_full [OF assms(1) frag_size_pos, of c w c 0 b] assms(2-4)
    by (simp add: spoof_Write_def fragmentedWrite_def fragment_plan_def Let_def
        hs_def rest_def h_def fs_def q_def)
  have hs: "concat hs = take h b"
    unfolding hs_def using fs by (rule concat_chunks)
  have q: "q \<le> h"
    unfolding h_def using fs by (rule fragmented_len_bounds)
  have "ceil_div (length (take h b)) fs \<le> ceil_div h fs"
    unfolding ceil_div_def by (intro div_le_mono) simp
  also have "ceil_div h fs = ceil_div q fs"
    using fs by (simp add: h_def fragmented_len_def ceil_div_mult)
  finally have n: "length hs \<le> ceil_div q fs"
    unfolding hs_def using fs by (simp add: length_chunks)
  have "int fs = (if 0 < sc_fragmentSize c then sc_fragmentSize c else 2)"
    by (simp add: fs_def frag_size_def defaultFragmentSize_def)
  then have sizes: "\<forall>s \<in> set hs. s \<noteq> [] \<and> int (length s) \<le> (if 0 < sc_fragmentSize c then sc_fragmentSize c else 2)"
    using chunks_size unfolding hs_def by (metis of_nat_le_iff)
  have "sc_handshakeLen c \<le> sc_bytesWritten c + int (length (concat hs))" if "rest \<noteq> []"
    using that q by (auto simp: hs rest_def q_def split: if_splits)
  moreover have "concat (hs @ rest) = b"
    by (simp add: hs rest_def)
  ultimately show ?thesis
    using plan sizes n by (intro exI [of _ hs] exI [of _ rest]) (auto simp: rest_def q_def fs_def)
qed

theorem fragment_mode_sizes_witness:
  "\<exists>w' c' r hs rest. spoof_Write fake_Write fake_rand fake_sleep (fresh_fake [])
      (NewSpoofConn 0 10 0 '''') (bytes_of ''HELLO_WORLD!'') = (w', c', r) \<and>
    fc_writes w' = hs @ rest \<and> (\<forall>s \<in> set hs. s \<noteq> [] \<and> int (length s) \<le> 2)"
proof -
  let ?c = "NewSpoofConn 0 10 0 ''''"
  have h: "\<not> past_handshake ?c" "sc_sni ?c = []"
    by (simp_all add: past_handshake_def NewSpoofConn_def)
  obtain w' c' r where R: "spoof_Write fake_Write fake_rand fake_sleep (fresh_fake []) ?c
      (bytes_of ''HELLO_WORLD!'') = (w', c', r)"
    by (rule prod_cases3)
  from fragment_mode_sizes [OF fake.full_env_axioms h R] R show ?thesis
    by (auto simp: fresh_fake_def NewSpoofConn_def)
qed

section \<open>After the handshake phase\<close>

text \<open>Once \<^verbatim>\<open>handshakeLen\<close> bytes have been counted the wrapper is transparent for good: any session of
  writes through it is, call for call, the same session on the connection itself.\<close>

theorem past_handshake_transparent:
  assumes "past_handshake c"
  shows "write_seq (layered_Write wr rnd slp) (w, c) recs =
    (case write_seq wr w recs of (w', r) \<Rightarrow> ((w', c), r))"
  using assms by (rule write_seq_past)

theorem past_handshake_transparent_witness:
  "write_seq (layered_Write fake_Write fake_rand fake_sleep)
      (fresh_fake [], NewSpoofConn 2 0 0 ''ab'') [bytes_of ''xxab'', bytes_of ''ab''] =
    ((\<lparr>fc_writes = [bytes_of ''xxab'', bytes_of ''ab''], fc_closed = False, fw_rands = [], fw_sleeps = []\<rparr>,
      NewSpoofConn 2 0 0 ''ab''), None)"
proof -
  have past: "past_handshake (NewSpoofConn 2 0 0 ''ab'')"
    by (simp add: past_handshake_def NewSpoofConn_def)
  show ?thesis
    unfolding past_handshake_transparent [OF past]
    by (simp add: fresh_fake_def fake_Write_def)
qed

text \<open>The byte counter cannot overflow: it never exceeds the handshake length by more than one
  buffer, so with lengths that fit in a signed 64-bit integer together it stays in its range.\<close>

theorem bytesWritten_in_range:
  assumes "spoof_env wr sent rnd slp" and "spoof_Write wr rnd slp w c b = (w', c', r)"
    and "0 \<le> sc_bytesWritten c" and "sc_bytesWritten c < 2 ^ 63"
    and "sc_handshakeLen c + int (length b) \<le> 2 ^ 63"
  shows "sc_bytesWritten c \<le> sc_bytesWritten c' \<and> sc_bytesWritten c' < 2 ^ 63 \<and>
    (sc_bytesWritten c' = sc_bytesWritten c \<or>
     sc_bytesWritten c' < sc_handshakeLen c + int (length b))"
  by (rule spoof_env.spoof_Write_ok [OF assms(1,2)])
    (use assms(3-5) in \<open>auto simp: accepted_def past_handshake_def split: if_splits\<close>)

theorem bytesWritten_in_range_witness:
  "\<exists>w' c' r. spoof_Write fake_Write fake_rand fake_sleep (fresh_fake [])
      (NewSpoofConn 2 2048 0 ''ab'') (bytes_of ''xxabyy'') = (w', c', r) \<and>
    0 \<le> sc_bytesWritten c' \<and> sc_bytesWritten c' < 2 ^ 63"
proof -
  let ?c = "NewSpoofConn 2 2048 0 ''ab''"
  obtain w' c' r where R: "spoof_Write fake_Write fake_rand fake_sleep (fresh_fake []) ?c
      (bytes_of ''xxabyy'') = (w', c', r)"
    by (rule prod_cases3)
  have h: "0 \<le> sc_bytesWritten ?c" "sc_bytesWritten ?c < 2 ^ 63"
    "sc_handshakeLen ?c + int (length (bytes_of ''xxabyy'')) \<le> 2 ^ 63"
    by (simp_all add: NewSpoofConn_def)
  from bytesWritten_in_range [OF fake.spoof_env_axioms R h] R h(1) show ?thesis
    by (intro exI [of _ w'] exI [of _ c'] exI [of _ r]) auto
qed

section \<open>Delays and errors\<close>

text \<open>The random delay is never negative and stays below the bound, also when the random source
  fails and half the bound is used instead; for a non-positive bound there is no delay and the
  random source is not touched.\<close>

theorem randDuration_range:
  assumes "spoof_env wr sent rnd slp"
  shows "if m \<le> 0 then randDuration rnd w m = (w, 0)
    else 0 \<le> snd (randDuration rnd w m) \<and> snd (randDuration rnd w m) < m"
  using spoof_env.randDuration_bounds [OF assms] by (simp add: randDuration_def)

theorem randDuration_range_witness:
  "snd (randDuration fake_rand (fresh_fake [13]) 10) < 10 \<and> 0 \<le> snd (randDuration fake_rand (fresh_fake []) 10)"
  using randDuration_range [OF fake.spoof_env_axioms, of 10 "fresh_fake [13]"]
    randDuration_range [OF fake.spoof_env_axioms, of 10 "fresh_fake []"]
  by simp

text \<open>With delays disabled (the default) \<^verbatim>\<open>Write\<close> neither draws randomness nor sleeps: the outcome is
  the same for every random source and clock.\<close>

theorem no_delay_no_entropy:
  assumes "sc_maxDelay c \<le> 0"
  shows "spoof_Write wr rnd slp w c b = spoof_Write wr rnd' slp' w c b"
  using assms by (rule spoof_Write_no_delay)

theorem no_delay_no_entropy_witness:
  "spoof_Write fake_Write fake_rand fake_sleep (fresh_fake [13]) (NewSpoofConn 2 10 0 '''') [1, 2, 3] =
   spoof_Write fake_Write (\<lambda>w m. (w, Inr 0)) (\<lambda>w d. w) (fresh_fake [13]) (NewSpoofConn 2 10 0 '''') [1, 2, 3]"
  by (rule no_delay_no_entropy) (simp add: NewSpoofConn_def)

text \<open>A connection that accepts nothing and reports no error does not make the wrapper spin: the
  handshake-phase \<^verbatim>\<open>Write\<close> of a non-empty buffer returns \<^verbatim>\<open>io.ErrShortWrite\<close> after that one call, with
  nothing counted.\<close>

theorem zero_progress_is_ErrShortWrite:
  assumes "\<not> past_handshake c" and "b \<noteq> []"
    and "\<And>s. s \<noteq> [] \<Longrightarrow> wr w s = (w', 0, None)"
  shows "spoof_Write wr rnd slp w c b = (w', c, Return (0, Some (Sentinel ErrShortWrite)))"
  using assms by (rule spoof_Write_stalled)

theorem zero_progress_is_ErrShortWrite_witness:
  "spoof_Write zero_Write fake_rand fake_sleep (fresh_fake []) (NewSpoofConn 2 10 0 '''') (bytes_of ''AB'') =
    (fresh_fake [], NewSpoofConn 2 10 0 '''', Return (0, Some (Sentinel ErrShortWrite)))"
  by (rule zero_progress_is_ErrShortWrite)
    (simp_all add: past_handshake_def NewSpoofConn_def bytes_of_def zero_Write_def)

end
