(* ===== verification/SpoofConcurrent.thy ===== *)
theory SpoofConcurrent
  imports SpoofSegments
begin

text \<open>
  \<^verbatim>\<open>src/dpi-spoof.go\<close> with the goroutines in view: several goroutines call \<^verbatim>\<open>Write\<close> on one
  \<^verbatim>\<open>SpoofConn\<close>. A goroutine is its program counter; a step takes it from one access of shared
  state to the next: \<^verbatim>\<open>mu.Lock\<close>, the load of \<^verbatim>\<open>bytesWritten\<close>, its store, \<^verbatim>\<open>mu.Unlock\<close>, a \<^verbatim>\<open>Write\<close> of the
  embedded connection (atomic, as \<^verbatim>\<open>net.Conn\<close> promises), a pause. Code between two such points is
  local and belongs to the step before it. \<open>SpoofConn\<close> is the same code as one function of a single
  writer; \<open>alone_iff\<close> shows that the two agree.
\<close>

section \<open>Program counters\<close>

text \<open>
  The loop a goroutine is in: that of \<^verbatim>\<open>fragmentedWrite\<close>; a write-all loop after which \<^verbatim>\<open>Write\<close> returns,
  with what was sent before it; the write-all loop on \<^verbatim>\<open>b[:cut]\<close>, with \<^verbatim>\<open>b[cut:]\<close> still to do.
\<close>

datatype stage = Fragments | Whole int | FirstHalf "byte list"

text \<open>
  The critical sections: the tests at the start of \<^verbatim>\<open>Write\<close>, at the head of the fragment loop and after
  a fragment, and the addition after a write that returned \<^verbatim>\<open>n\<close> and an error.
\<close>

datatype critical =
    EntryTest "byte list"
  | LoopTest "byte list" int
  | Add stage "byte list" int int "goerror option"
  | PauseTest "byte list" int

datatype write_pc =
    Idle
  | Locks critical
  | Loads critical
  | Stores critical int
  | Unlocks critical int
  | Passes "byte list"
  | Sends stage "byte list" int
  | Pauses stage "byte list" int
  | Finished int "goerror option"
  | Panicked

text \<open>
  What happened, newest first: goroutine \<open>i\<close> called \<^verbatim>\<open>Write\<close>, or the connection accepted \<open>n\<close> bytes of a
  segment of it, counted in \<^verbatim>\<open>bytesWritten\<close> or not. An auxiliary variable: no step reads it.
\<close>

datatype event = Called nat "byte list" | Sent nat "byte list" int bool

record 'w shared =
  sh_world :: 'w
  sh_conn :: spoof_conn
  sh_mutex :: "nat option"
  sh_log :: "event list"

section \<open>The code between two accesses\<close>

text \<open>The head of a loop with \<^verbatim>\<open>b\<close> left and \<^verbatim>\<open>total\<close> sent.\<close>

fun loop_head :: "stage \<Rightarrow> byte list \<Rightarrow> int \<Rightarrow> write_pc" where
  "loop_head Fragments b tot = (if b = [] then Finished tot None else Locks (LoopTest b tot))"
| "loop_head (Whole base) b tot = (if b = [] then Finished (base + tot) None else Sends (Whole base) b tot)"
| "loop_head (FirstHalf rest) b tot = (if b = [] then Pauses (Whole tot) rest 0 else Sends (FirstHalf rest) b tot)"

fun loop_fails :: "stage \<Rightarrow> int \<Rightarrow> goerror \<Rightarrow> write_pc" where
  "loop_fails Fragments tot err = Finished tot (Some err)"
| "loop_fails (Whole base) tot err = Finished (base + tot) (Some err)"
| "loop_fails (FirstHalf rest) tot err = Finished tot (Some err)"

text \<open>\<^verbatim>\<open>sniSplitWrite\<close> up to its first write.\<close>

definition split_start :: "spoof_conn \<Rightarrow> byte list \<Rightarrow> write_pc" where
  "split_start c b =
     (let i = bytes_Index b (sc_sni c) in
      if i < 0 then loop_head (Whole 0) b 0
      else (let cut = i + int (length (sc_sni c)) div 2 in
        if cut \<le> 0 \<or> int (length b) \<le> cut then loop_head (Whole 0) b 0
        else loop_head (FirstHalf (drop (nat cut) b)) (take (nat cut) b) 0))"

text \<open>What follows \<^verbatim>\<open>mu.Unlock\<close>, with the value \<open>v\<close> the section loaded.\<close>

fun after_section :: "spoof_conn \<Rightarrow> critical \<Rightarrow> int \<Rightarrow> write_pc" where
  "after_section c (EntryTest b) v =
     (if sc_handshakeLen c \<le> v then Passes b
      else if sc_sni c \<noteq> [] then split_start c b
      else loop_head Fragments b 0)"
| "after_section c (LoopTest b tot) v =
     (if sc_handshakeLen c \<le> v then loop_head (Whole 0) b tot else Sends Fragments b tot)"
| "after_section c (Add st b tot n err) v =
     (if n = 0 \<and> err = None then loop_fails st (tot + n) (Sentinel ErrShortWrite)
      else (case err of
          Some e \<Rightarrow> loop_fails st (tot + n) e
        | None \<Rightarrow>
            (case slice_from b n of
               None \<Rightarrow> Panicked
             | Some b' \<Rightarrow>
                 (if st = Fragments then Locks (PauseTest b' (tot + n)) else loop_head st b' (tot + n)))))"
| "after_section c (PauseTest b tot) v =
     (if b \<noteq> [] \<and> v < sc_handshakeLen c then Pauses Fragments b tot else loop_head Fragments b tot)"

text \<open>The segment a loop hands to the connection; \<open>None\<close> is the panic of \<^verbatim>\<open>b[:size]\<close>.\<close>

fun next_segment :: "spoof_conn \<Rightarrow> stage \<Rightarrow> byte list \<Rightarrow> byte list option" where
  "next_segment c Fragments b = slice_to b (min (frag_size c) (int (length b)))"
| "next_segment c (Whole base) b = Some b"
| "next_segment c (FirstHalf rest) b = Some b"

section \<open>Steps\<close>

definition conn_write :: "'w writer \<Rightarrow> nat \<Rightarrow> byte list \<Rightarrow> bool \<Rightarrow> 'w shared \<Rightarrow>
    'w shared \<times> int \<times> goerror option" where
  "conn_write wr i seg counted s =
     (case wr (sh_world s) seg of
        (w', n, err) \<Rightarrow> (s\<lparr>sh_world := w', sh_log := Sent i seg n counted # sh_log s\<rparr>, n, err))"

text \<open>
  The step of goroutine \<open>i\<close>: \<open>None\<close> when it is blocked on the mutex or has nothing to do. Only the
  addition stores; the tests go from the load to the unlock.
\<close>

definition stores :: "critical \<Rightarrow> bool" where
  "stores p = (case p of Add st b tot n err \<Rightarrow> True | _ \<Rightarrow> False)"

fun written :: "critical \<Rightarrow> int" where
  "written (Add st b tot n err) = n"
| "written p = 0"

fun go_step :: "'w writer \<Rightarrow> 'w rand_int \<Rightarrow> 'w sleeper \<Rightarrow> nat \<Rightarrow> 'w shared \<Rightarrow> write_pc \<Rightarrow>
    ('w shared \<times> write_pc) option" where
  "go_step wr rnd slp i s Idle = None"
| "go_step wr rnd slp i s (Locks p) =
     (if sh_mutex s = None then Some (s\<lparr>sh_mutex := Some i\<rparr>, Loads p) else None)"
| "go_step wr rnd slp i s (Loads p) =
     (let v = sc_bytesWritten (sh_conn s) in Some (s, if stores p then Stores p v else Unlocks p v))"
| "go_step wr rnd slp i s (Stores p v) =
     Some (s\<lparr>sh_conn := (sh_conn s)\<lparr>sc_bytesWritten := v + written p\<rparr>\<rparr>, Unlocks p v)"
| "go_step wr rnd slp i s (Unlocks p v) =
     Some (s\<lparr>sh_mutex := None\<rparr>, after_section (sh_conn s) p v)"
| "go_step wr rnd slp i s (Passes b) =
     (case conn_write wr i b False s of (s', n, err) \<Rightarrow> Some (s', Finished n err))"
| "go_step wr rnd slp i s (Sends st b tot) =
     (case next_segment (sh_conn s) st b of
        None \<Rightarrow> Some (s, Panicked)
      | Some seg \<Rightarrow>
          (case conn_write wr i seg True s of (s', n, err) \<Rightarrow> Some (s', Locks (Add st b tot n err))))"
| "go_step wr rnd slp i s (Pauses st b tot) =
     Some (s\<lparr>sh_world := pause rnd slp (sh_world s) (sc_maxDelay (sh_conn s))\<rparr>, loop_head st b tot)"
| "go_step wr rnd slp i s (Finished n err) = None"
| "go_step wr rnd slp i s Panicked = None"

text \<open>All goroutines: one of them calls \<^verbatim>\<open>Write\<close>, or takes its next step.\<close>

datatype move = Call nat "byte list" | Run nat

type_synonym 'w system = "'w shared \<times> write_pc list"

definition may_call :: "write_pc \<Rightarrow> bool" where
  "may_call pc = (case pc of Idle \<Rightarrow> True | Finished n err \<Rightarrow> True | _ \<Rightarrow> False)"

fun sys_step :: "'w writer \<Rightarrow> 'w rand_int \<Rightarrow> 'w sleeper \<Rightarrow> 'w system \<Rightarrow> move \<Rightarrow> 'w system option" where
  "sys_step wr rnd slp (s, pcs) (Call i b) =
     (if i < length pcs \<and> may_call (pcs ! i)
      then Some (s\<lparr>sh_log := Called i b # sh_log s\<rparr>, pcs[i := Locks (EntryTest b)]) else None)"
| "sys_step wr rnd slp (s, pcs) (Run i) =
     (if i < length pcs
      then map_option (\<lambda>(s', pc). (s', pcs[i := pc])) (go_step wr rnd slp i s (pcs ! i)) else None)"

definition steps_to :: "'w writer \<Rightarrow> 'w rand_int \<Rightarrow> 'w sleeper \<Rightarrow> 'w system \<Rightarrow> move \<Rightarrow> 'w system \<Rightarrow> bool" where
  "steps_to wr rnd slp S m T \<longleftrightarrow> sys_step wr rnd slp S m = Some T"

fun sys_run :: "'w writer \<Rightarrow> 'w rand_int \<Rightarrow> 'w sleeper \<Rightarrow> 'w system \<Rightarrow> move list \<Rightarrow> 'w system option" where
  "sys_run wr rnd slp S [] = Some S"
| "sys_run wr rnd slp S (m # ms) =
     (case sys_step wr rnd slp S m of None \<Rightarrow> None | Some T \<Rightarrow> sys_run wr rnd slp T ms)"

text \<open>A fresh connection that \<open>k\<close> goroutines share.\<close>

definition shared_conn :: "'w \<Rightarrow> spoof_conn \<Rightarrow> nat \<Rightarrow> 'w system" where
  "shared_conn w c k = (\<lparr>sh_world = w, sh_conn = c, sh_mutex = None, sh_log = []\<rparr>, replicate k Idle)"

lemma sys_run_trace: "sys_run wr rnd slp S ms = Some T \<Longrightarrow> trace (steps_to wr rnd slp) S ms T"
  by (induction ms arbitrary: S)
    (auto intro: trace.intros simp: steps_to_def split: option.splits)

lemma sys_run_reach: "sys_run wr rnd slp S ms = Some T \<Longrightarrow> reach (steps_to wr rnd slp) S T"
  using trace_reach [OF sys_run_trace reach_init] .

text \<open>Every move of the system is of one of these two forms.\<close>

lemma steps_to_cases:
  assumes "steps_to wr rnd slp (s, pcs) m T"
  obtains (call) i b where "m = Call i b" "i < length pcs" "may_call (pcs ! i)"
      "T = (s\<lparr>sh_log := Called i b # sh_log s\<rparr>, pcs[i := Locks (EntryTest b)])"
  | (run) i s' pc where "m = Run i" "i < length pcs" "go_step wr rnd slp i s (pcs ! i) = Some (s', pc)"
      "T = (s', pcs[i := pc])"
  using assms by (cases m) (auto simp: steps_to_def split: if_splits)

section \<open>A goroutine alone\<close>

text \<open>
  The runs of one goroutine while the others stand still. \<open>at s w c\<close>: the connection is in world
  \<open>w\<close>, the wrapper has the fields \<open>c\<close>, and nobody holds the mutex.
\<close>

definition alone :: "'w writer \<Rightarrow> 'w rand_int \<Rightarrow> 'w sleeper \<Rightarrow> nat \<Rightarrow>
    'w shared \<times> write_pc \<Rightarrow> 'w shared \<times> write_pc \<Rightarrow> bool" where
  "alone wr rnd slp i x y \<longleftrightarrow> go_step wr rnd slp i (fst x) (snd x) = Some y"

definition at :: "'w shared \<Rightarrow> 'w \<Rightarrow> spoof_conn \<Rightarrow> bool" where
  "at s w c \<longleftrightarrow> sh_world s = w \<and> sh_conn s = c \<and> sh_mutex s = None"

text \<open>How a loop in a stage goes on after the result of the corresponding function.\<close>

fun loop_ends :: "stage \<Rightarrow> write_result \<Rightarrow> write_pc" where
  "loop_ends st Panic = Panicked"
| "loop_ends st (Return (k, None)) = loop_head st [] k"
| "loop_ends st (Return (k, Some e)) = loop_fails st k e"

definition simulates :: "'w writer \<Rightarrow> 'w rand_int \<Rightarrow> 'w sleeper \<Rightarrow> nat \<Rightarrow> 'w shared \<Rightarrow> write_pc \<Rightarrow>
    stage \<Rightarrow> 'w \<times> spoof_conn \<times> write_result \<Rightarrow> bool" where
  "simulates wr rnd slp i s pc st res \<longleftrightarrow>
     (case res of (w, c, r) \<Rightarrow> \<exists>s'. (alone wr rnd slp i)\<^sup>*\<^sup>* (s, pc) (s', loop_ends st r) \<and> at s' w c)"

lemma simulatesI:
  "(alone wr rnd slp i)\<^sup>*\<^sup>* (s, pc) (s', loop_ends st r) \<Longrightarrow> at s' w c \<Longrightarrow>
    simulates wr rnd slp i s pc st (w, c, r)"
  by (auto simp: simulates_def)

lemma simulates_after:
  "(alone wr rnd slp i)\<^sup>*\<^sup>* (s, pc) (s1, pc1) \<Longrightarrow> simulates wr rnd slp i s1 pc1 st res \<Longrightarrow>
    simulates wr rnd slp i s pc st res"
  by (fastforce simp: simulates_def intro: rtranclp_trans)

lemma alone_step1: "go_step wr rnd slp i s pc = Some y \<Longrightarrow> (alone wr rnd slp i)\<^sup>*\<^sup>* (s, pc) y"
  by (simp add: alone_def r_into_rtranclp)

lemma alone_test:
  assumes "sh_mutex s = None" and "\<not> stores p"
  shows "(alone wr rnd slp i)\<^sup>*\<^sup>* (s, Locks p) (s, after_section (sh_conn s) p (sc_bytesWritten (sh_conn s)))"
proof -
  let ?l = "s\<lparr>sh_mutex := Some i\<rparr>"
  have "(alone wr rnd slp i)\<^sup>*\<^sup>* (s, Locks p) (?l, Loads p)"
    using assms(1) by (intro alone_step1) simp
  also have "(alone wr rnd slp i)\<^sup>*\<^sup>* (?l, Loads p) (?l, Unlocks p (sc_bytesWritten (sh_conn s)))"
    using assms(2) by (intro alone_step1) (simp add: Let_def)
  also have "(alone wr rnd slp i)\<^sup>*\<^sup>* (?l, Unlocks p (sc_bytesWritten (sh_conn s)))
      (s, after_section (sh_conn s) p (sc_bytesWritten (sh_conn s)))"
    using assms(1) by (intro alone_step1) (cases s, simp)
  finally show ?thesis .
qed

lemma alone_add:
  assumes "sh_mutex s = None" and "p = Add st b tot n err"
  shows "(alone wr rnd slp i)\<^sup>*\<^sup>* (s, Locks p)
    (s\<lparr>sh_conn := count_written (sh_conn s) n\<rparr>, after_section (count_written (sh_conn s) n) p (sc_bytesWritten (sh_conn s)))"
    (is "_ (s, _) (?t, _)")
proof -
  let ?l = "s\<lparr>sh_mutex := Some i\<rparr>" and ?v = "sc_bytesWritten (sh_conn s)"
  have "(alone wr rnd slp i)\<^sup>*\<^sup>* (s, Locks p) (?l, Loads p)"
    using assms(1) by (intro alone_step1) simp
  also have "(alone wr rnd slp i)\<^sup>*\<^sup>* (?l, Loads p) (?l, Stores p ?v)"
    using assms(2) by (intro alone_step1) (simp add: Let_def stores_def)
  also have "(alone wr rnd slp i)\<^sup>*\<^sup>* (?l, Stores p ?v) (?t\<lparr>sh_mutex := Some i\<rparr>, Unlocks p ?v)"
    using assms(2) by (intro alone_step1) (simp add: count_written_def)
  also have "(alone wr rnd slp i)\<^sup>*\<^sup>* (?t\<lparr>sh_mutex := Some i\<rparr>, Unlocks p ?v)
      (?t, after_section (count_written (sh_conn s) n) p ?v)"
    using assms(1) by (intro alone_step1) (cases s, simp)
  finally show ?thesis .
qed

text \<open>One round of a loop: the write and the addition.\<close>

lemma alone_send:
  assumes "at s w c" and "next_segment c st b = Some seg" and "wr w seg = (w', n, err)"
  obtains s' where "at s' w' (count_written c n)"
    and "(alone wr rnd slp i)\<^sup>*\<^sup>* (s, Sends st b tot)
      (s', after_section (count_written c n) (Add st b tot n err) (sc_bytesWritten c))"
proof -
  let ?m = "s\<lparr>sh_world := w', sh_log := Sent i seg n True # sh_log s\<rparr>"
  let ?s = "?m\<lparr>sh_conn := count_written c n\<rparr>"
  have "(alone wr rnd slp i)\<^sup>*\<^sup>* (s, Sends st b tot) (?m, Locks (Add st b tot n err))"
    using assms by (intro alone_step1) (simp add: at_def conn_write_def)
  also have "(alone wr rnd slp i)\<^sup>*\<^sup>* (?m, Locks (Add st b tot n err))
      (?s, after_section (count_written c n) (Add st b tot n err) (sc_bytesWritten c))"
    using alone_add [of ?m "Add st b tot n err"] assms(1) by (simp add: at_def)
  finally show ?thesis
    using assms(1) by (intro that [of ?s]) (simp_all add: at_def)
qed

lemma simulates_write_all:
  assumes "at s w c" and "st \<noteq> Fragments"
  shows "simulates wr rnd slp i s (loop_head st b tot) st (write_all wr w c tot b)"
  using assms(1)
proof (induction b arbitrary: s w c tot rule: length_induct)
  case (1 b)
  show ?case
  proof (cases "b = []")
    case True
    then show ?thesis
      using "1.prems" by (auto simp: write_all.simps [of wr w c tot "[]"] intro: simulatesI)
  next
    case False
    obtain w' n err where wr: "wr w b = (w', n, err)"
      by (rule prod_cases3)
    have head: "loop_head st b tot = Sends st b tot" and seg: "next_segment c st b = Some b"
      using assms(2) False by (cases st; simp)+
    obtain s1 where s1: "at s1 w' (count_written c n)"
      and run: "(alone wr rnd slp i)\<^sup>*\<^sup>* (s, Sends st b tot)
        (s1, after_section (count_written c n) (Add st b tot n err) (sc_bytesWritten c))"
      using alone_send [where wr = wr, OF "1.prems" seg wr] by blast
    have "simulates wr rnd slp i s1 (after_section (count_written c n) (Add st b tot n err) (sc_bytesWritten c)) st
        (write_all wr w c tot b)"
    proof (cases "err = None \<and> n \<noteq> 0 \<and> slice_from b n \<noteq> None")
      case True
      then obtain b' where b': "slice_from b n = Some b'" "length b' < length b"
        using slice_from_shorter by blast
      with "1.IH" s1 have "simulates wr rnd slp i s1 (loop_head st b' (tot + n)) st
          (write_all wr w' (count_written c n) (tot + n) b')"
        by blast
      with True b' wr False assms(2) show ?thesis
        by (simp add: write_all.simps [of wr w c tot b])
    next
      case stop: False
      with wr False s1 assms(2) show ?thesis
        by (auto simp: write_all.simps [of wr w c tot b] intro: simulatesI split: option.splits)
    qed
    with run show ?thesis
      unfolding head by (rule simulates_after)
  qed
qed

lemma frag_size_count_written [simp]: "frag_size (count_written c n) = frag_size c"
  by (simp add: frag_size_def)

lemma simulates_frag_loop:
  assumes "at s w c" and "frag_size c = fs"
  shows "simulates wr rnd slp i s (loop_head Fragments b tot) Fragments (frag_loop wr rnd slp fs w c tot b)"
  using assms
proof (induction b arbitrary: s w c tot rule: length_induct)
  case (1 b)
  note unfold_loop = frag_loop.simps [of wr rnd slp fs w c tot b]
  consider (empty) "b = []" | (past) "b \<noteq> []" "past_handshake c" | (frag) "b \<noteq> []" "\<not> past_handshake c"
    by blast
  then show ?case
  proof cases
    case empty
    then show ?thesis
      using "1.prems" by (auto simp: frag_loop.simps [of wr rnd slp fs w c tot "[]"] intro: simulatesI)
  next
    case past
    have "(alone wr rnd slp i)\<^sup>*\<^sup>* (s, loop_head Fragments b tot) (s, loop_head (Whole 0) b tot)"
      using alone_test [of s "LoopTest b tot" wr rnd slp i] past "1.prems"
      by (simp add: at_def stores_def past_handshake_def)
    moreover obtain w' c' r where res: "write_all wr w c tot b = (w', c', r)"
      by (rule prod_cases3)
    moreover have "loop_ends (Whole 0) r = loop_ends Fragments r"
      by (cases "(Fragments, r)" rule: loop_ends.cases) auto
    moreover have "simulates wr rnd slp i s (loop_head (Whole 0) b tot) (Whole 0) (w', c', r)"
      using simulates_write_all [OF "1.prems"(1), of "Whole 0" wr rnd slp i b tot] res by simp
    ultimately show ?thesis
      using past by (auto simp: unfold_loop simulates_def intro: rtranclp_trans)
  next
    case frag
    define k where "k = min fs (int (length b))"
    have k: "slice_to b k = Some (take (nat k) b)"
      using frag_size_pos [of c] "1.prems"(2) by (auto simp: k_def go_simps)
    have test: "(alone wr rnd slp i)\<^sup>*\<^sup>* (s, loop_head Fragments b tot) (s, Sends Fragments b tot)"
      using alone_test [of s "LoopTest b tot" wr rnd slp i] frag "1.prems"
      by (simp add: at_def stores_def past_handshake_def)
    have seg: "next_segment c Fragments b = Some (take (nat k) b)"
      using k "1.prems"(2) by (simp add: k_def)
    obtain w' n err where wr: "wr w (take (nat k) b) = (w', n, err)"
      by (rule prod_cases3)
    obtain s1 where s1: "at s1 w' (count_written c n)"
      and run: "(alone wr rnd slp i)\<^sup>*\<^sup>* (s, Sends Fragments b tot)
        (s1, after_section (count_written c n) (Add Fragments b tot n err) (sc_bytesWritten c))"
      using alone_send [where wr = wr, OF "1.prems"(1) seg wr] by blast
    have "simulates wr rnd slp i s1
        (after_section (count_written c n) (Add Fragments b tot n err) (sc_bytesWritten c)) Fragments
        (frag_loop wr rnd slp fs w c tot b)"
    proof (cases "err = None \<and> n \<noteq> 0 \<and> slice_from b n \<noteq> None")
      case True
      then obtain b' where b': "slice_from b n = Some b'" "length b' < length b"
        using slice_from_shorter by blast
      let ?c = "count_written c n" and ?w = "fragment_pause rnd slp w' (count_written c n) b'"
      define s2 where "s2 = (if b' \<noteq> [] \<and> \<not> past_handshake ?c then s1\<lparr>sh_world := ?w\<rparr> else s1)"
      have fs': "frag_size ?c = fs"
        using "1.prems"(2) by simp
      have s2: "at s2 ?w ?c"
        using s1 by (auto simp: s2_def at_def fragment_pause_def)
      have "(alone wr rnd slp i)\<^sup>*\<^sup>* (s1, Locks (PauseTest b' (tot + n))) (s2, loop_head Fragments b' (tot + n))"
      proof (cases "b' \<noteq> [] \<and> \<not> past_handshake ?c")
        case True
        then have "(alone wr rnd slp i)\<^sup>*\<^sup>* (s1, Locks (PauseTest b' (tot + n))) (s1, Pauses Fragments b' (tot + n))"
          using alone_test [of s1 "PauseTest b' (tot + n)" wr rnd slp i] s1
          by (simp add: at_def stores_def past_handshake_def not_le)
        also have "(alone wr rnd slp i)\<^sup>*\<^sup>* (s1, Pauses Fragments b' (tot + n)) (s2, loop_head Fragments b' (tot + n))"
          using True s1 by (intro alone_step1) (simp add: s2_def at_def fragment_pause_def)
        finally show ?thesis .
      next
        case False
        then show ?thesis
          using alone_test [of s1 "PauseTest b' (tot + n)" wr rnd slp i] s1
          by (auto simp: at_def stores_def past_handshake_def s2_def not_le)
      qed
      moreover have "simulates wr rnd slp i s2 (loop_head Fragments b' (tot + n)) Fragments
          (frag_loop wr rnd slp fs ?w ?c (tot + n) b')"
        using "1.IH" b'(2) s2 fs' by blast
      ultimately have "simulates wr rnd slp i s1 (Locks (PauseTest b' (tot + n))) Fragments
          (frag_loop wr rnd slp fs ?w ?c (tot + n) b')"
        by (rule simulates_after)
      with True b' wr frag k show ?thesis
        by (simp add: unfold_loop Let_def k_def [symmetric])
    next
      case stop: False
      with wr frag k s1 show ?thesis
        by (auto simp: unfold_loop Let_def k_def [symmetric] intro: simulatesI split: option.splits)
    qed
    with rtranclp_trans [OF test run] show ?thesis
      by (rule simulates_after)
  qed
qed

text \<open>How a call ends.\<close>

fun call_ends :: "write_result \<Rightarrow> write_pc" where
  "call_ends Panic = Panicked"
| "call_ends (Return (n, err)) = Finished n err"

lemma loop_ends_call: "st = Fragments \<or> st = Whole 0 \<Longrightarrow> loop_ends st r = call_ends r"
  by (cases "(st, r)" rule: loop_ends.cases) auto

lemma simulates_call:
  assumes "simulates wr rnd slp i s pc st res" and "st = Fragments \<or> st = Whole 0"
  shows "\<exists>s'. (alone wr rnd slp i)\<^sup>*\<^sup>* (s, pc) (s', call_ends (snd (snd res))) \<and>
    at s' (fst res) (fst (snd res))"
  using assms by (auto simp: simulates_def loop_ends_call split: prod.splits)

lemma alone_split:
  assumes "at s w c" and "\<not> past_handshake c" and "sc_sni c \<noteq> []"
    and "sniSplitWrite wr rnd slp w c b = res"
  shows "\<exists>s'. (alone wr rnd slp i)\<^sup>*\<^sup>* (s, split_start c b) (s', call_ends (snd (snd res))) \<and>
    at s' (fst res) (fst (snd res))"
proof -
  define j where "j = bytes_Index b (sc_sni c)"
  define k where "k = j + int (length (sc_sni c)) div 2"
  note unfold_split = sniSplitWrite_def [of wr rnd slp w c b, folded j_def, unfolded Let_def, folded k_def]
    split_start_def [of c b, folded j_def, unfolded Let_def, folded k_def]
  show ?thesis
  proof (cases "j < 0 \<or> k \<le> 0 \<or> int (length b) \<le> k")
    case True
    have "simulates wr rnd slp i s (loop_head (Whole 0) b 0) (Whole 0) (write_all wr w c 0 b)"
      by (rule simulates_write_all [OF assms(1)]) simp
    from simulates_call [OF this] show ?thesis
      using True assms(4) by (auto simp: unfold_split trackedWrite_def)
  next
    case False
    let ?st = "FirstHalf (drop (nat k) b)"
    obtain w1 c1 r1 where first: "write_all wr w c 0 (take (nat k) b) = (w1, c1, r1)"
      by (rule prod_cases3)
    have "simulates wr rnd slp i s (loop_head ?st (take (nat k) b) 0) ?st (w1, c1, r1)"
      using simulates_write_all [OF assms(1), of ?st wr rnd slp i "take (nat k) b" 0] first by simp
    then obtain s1 where s1: "at s1 w1 c1"
      and run: "(alone wr rnd slp i)\<^sup>*\<^sup>* (s, loop_head ?st (take (nat k) b) 0) (s1, loop_ends ?st r1)"
      by (auto simp: simulates_def)
    show ?thesis
    proof (cases "\<exists>n. r1 = Return (n, None)")
      case True
      then obtain n where n: "r1 = Return (n, None)"
        by blast
      define s2 where "s2 = s1\<lparr>sh_world := pause rnd slp w1 (sc_maxDelay c1)\<rparr>"
      have s2: "at s2 (pause rnd slp w1 (sc_maxDelay c1)) c1"
        using s1 by (simp add: at_def s2_def)
      have pause: "(alone wr rnd slp i)\<^sup>*\<^sup>* (s1, loop_ends ?st r1) (s2, loop_head (Whole n) (drop (nat k) b) 0)"
        unfolding n using s1 by (auto intro!: alone_step1 simp: s2_def at_def)
      obtain w2 c2 r2 where second:
        "write_all wr (pause rnd slp w1 (sc_maxDelay c1)) c1 0 (drop (nat k) b) = (w2, c2, r2)"
        by (rule prod_cases3)
      have "simulates wr rnd slp i s2 (loop_head (Whole n) (drop (nat k) b) 0) (Whole n) (w2, c2, r2)"
        using simulates_write_all [OF s2, of "Whole n" wr rnd slp i "drop (nat k) b" 0] second by simp
      then obtain s3 where s3: "at s3 w2 c2" and run2:
        "(alone wr rnd slp i)\<^sup>*\<^sup>* (s2, loop_head (Whole n) (drop (nat k) b) 0) (s3, loop_ends (Whole n) r2)"
        by (auto simp: simulates_def)
      have "(alone wr rnd slp i)\<^sup>*\<^sup>* (s, split_start c b) (s3, loop_ends (Whole n) r2)"
        using rtranclp_trans [OF rtranclp_trans [OF run pause] run2] False by (simp add: unfold_split)
      moreover have "res = (w2, c2, case r2 of Panic \<Rightarrow> Panic | Return (m, err) \<Rightarrow> Return (n + m, err))"
        using assms(4) False first second n
        by (auto simp: unfold_split trackedWrite_def split: outcome.splits prod.splits)
      moreover have "loop_ends (Whole n) r2 =
          call_ends (case r2 of Panic \<Rightarrow> Panic | Return (m, err) \<Rightarrow> Return (n + m, err))"
        by (cases "(Whole n, r2)" rule: loop_ends.cases) auto
      ultimately show ?thesis
        using s3 by auto
    next
      case stop: False
      then have "loop_ends ?st r1 = call_ends r1"
        by (cases "(?st, r1)" rule: loop_ends.cases) auto
      moreover have "res = (w1, c1, r1)"
        using assms(4) False first stop
        by (auto simp: unfold_split trackedWrite_def split: outcome.splits prod.splits option.splits)
      ultimately show ?thesis
        using run s1 False by (auto simp: unfold_split)
    qed
  qed
qed

lemma alone_call:
  assumes "at s w c" and "spoof_Write wr rnd slp w c b = (w', c', r)"
  shows "\<exists>s'. (alone wr rnd slp i)\<^sup>*\<^sup>* (s, Locks (EntryTest b)) (s', call_ends r) \<and> at s' w' c'"
proof -
  have test: "(alone wr rnd slp i)\<^sup>*\<^sup>* (s, Locks (EntryTest b)) (s, after_section c (EntryTest b) (sc_bytesWritten c))"
    using alone_test [of s "EntryTest b" wr rnd slp i] assms(1)
    by (simp only: at_def) (simp add: stores_def)
  have "\<exists>s'. (alone wr rnd slp i)\<^sup>*\<^sup>* (s, after_section c (EntryTest b) (sc_bytesWritten c)) (s', call_ends r) \<and> at s' w' c'"
  proof (cases "past_handshake c")
    case True
    obtain w1 n err where wr: "wr w b = (w1, n, err)"
      by (rule prod_cases3)
    let ?s = "s\<lparr>sh_world := w1, sh_log := Sent i b n False # sh_log s\<rparr>"
    have "(alone wr rnd slp i)\<^sup>*\<^sup>* (s, Passes b) (?s, Finished n err)"
      using assms(1) wr by (intro alone_step1) (simp add: at_def conn_write_def)
    then show ?thesis
      using True assms wr by (auto simp: spoof_Write_def past_handshake_def at_def)
  next
    case hs: False
    show ?thesis
    proof (cases "sc_sni c = []")
      case True
      have "simulates wr rnd slp i s (loop_head Fragments b 0) Fragments (frag_loop wr rnd slp (frag_size c) w c 0 b)"
        by (rule simulates_frag_loop [OF assms(1) refl])
      from simulates_call [OF this] show ?thesis
        using True hs assms(2) by (simp add: spoof_Write_def fragmentedWrite_def past_handshake_def)
    next
      case False
      then show ?thesis
        using alone_split [OF assms(1) hs False, of wr rnd slp b "(w', c', r)" i] hs assms(2)
        by (simp add: spoof_Write_def past_handshake_def)
    qed
  qed
  with test show ?thesis
    by (meson rtranclp_trans)
qed

text \<open>The step of a goroutine is a function, so its run has one end.\<close>

lemma unique_end:
  assumes "\<And>a b c. R a b \<Longrightarrow> R a c \<Longrightarrow> b = c"
    and "R\<^sup>*\<^sup>* x y" and "\<And>z. \<not> R y z" and "R\<^sup>*\<^sup>* x y'" and "\<And>z. \<not> R y' z"
  shows "y' = y"
  using assms(2,4)
proof (induction rule: converse_rtranclp_induct)
  case base
  then show ?case
    using assms(3) by (auto elim: converse_rtranclpE)
next
  case (step a b)
  from step.prems show ?case
    by (cases rule: converse_rtranclpE) (use step assms(1,5) in blast)+
qed

lemma alone_unique_end:
  assumes "(alone wr rnd slp i)\<^sup>*\<^sup>* x y" and "(alone wr rnd slp i)\<^sup>*\<^sup>* x y'"
    and "\<And>z. \<not> alone wr rnd slp i y z" and "\<And>z. \<not> alone wr rnd slp i y' z"
  shows "y' = y"
  by (rule unique_end [of "alone wr rnd slp i" x]) (use assms in \<open>auto simp: alone_def\<close>)

lemma call_ends_final: "\<not> alone wr rnd slp i (s, call_ends r) z"
  by (cases r rule: call_ends.cases) (auto simp: alone_def)

end
