(* ===== verification/SpoofConcurrentInv.thy ===== *)
theory SpoofConcurrentInv
  imports SpoofConcurrent
begin

text \<open>
  What every interleaving of concurrent writers on one \<^verbatim>\<open>SpoofConn\<close> keeps: the mutex excludes, the
  counter loses no update, each goroutine is where its bytes on the wire say, and nothing leaves
  unsplit before the handshake length is reached. Each goroutine has a bounded number of steps.
\<close>

section \<open>Steps left\<close>

fun stage_left :: "stage \<Rightarrow> byte list \<Rightarrow> nat" where
  "stage_left Fragments b = 14 * length b + 4"
| "stage_left (Whole base) b = 5 * length b"
| "stage_left (FirstHalf rest) b = 5 * length b + 5 * length rest + 7"

text \<open>At the lock of a section; each later point of the section is one step further.\<close>

fun section_left :: "critical \<Rightarrow> nat" where
  "section_left (EntryTest b) = 14 * length b + 17"
| "section_left (LoopTest b tot) = 14 * length b + 13"
| "section_left (PauseTest b tot) = 14 * length b + 18"
| "section_left (Add st b tot n err) = stage_left st b + 4"

fun steps_left :: "write_pc \<Rightarrow> nat" where
  "steps_left Idle = 0"
| "steps_left (Locks p) = section_left p"
| "steps_left (Loads p) = section_left p - 1"
| "steps_left (Stores p v) = section_left p - 2"
| "steps_left (Unlocks p v) = section_left p - 3"
| "steps_left (Passes b) = 1"
| "steps_left (Sends st b tot) = stage_left st b + 5"
| "steps_left (Pauses Fragments b tot) = 14 * length b + 14"
| "steps_left (Pauses (Whole base) b tot) = 5 * length b + 6"
| "steps_left (Pauses (FirstHalf rest) b tot) = stage_left (FirstHalf rest) b + 6"
| "steps_left (Finished n err) = 0"
| "steps_left Panicked = 0"

lemma section_left_ge: "4 \<le> section_left p"
  by (cases p) auto

lemma loop_fails_left [simp]: "steps_left (loop_fails st tot err) = 0"
  by (cases st) auto

lemma loop_head_left:
  "steps_left (loop_head st b tot) \<le> (case st of Fragments \<Rightarrow> 14 * length b + 13 | _ \<Rightarrow> stage_left st b + 5)"
  by (cases st) auto

lemma split_start_left: "steps_left (split_start c b) \<le> 5 * length b + 12"
  by (auto simp: split_start_def Let_def min_def)

lemma after_section_left: "steps_left (after_section c p v) < section_left p - 3"
proof (cases p)
  case (EntryTest b)
  then show ?thesis
    using split_start_left [of c b] by (auto simp: stores_def)
next
  case (LoopTest b tot)
  then show ?thesis
    by (auto simp: stores_def)
next
  case (PauseTest b tot)
  then show ?thesis
    by (auto simp: stores_def)
next
  case (Add st b tot n err)
  have "steps_left (after_section c (Add st b tot n err) v) < stage_left st b + 1"
  proof (cases "err = None \<and> n \<noteq> 0 \<and> slice_from b n \<noteq> None")
    case True
    then obtain b' where "slice_from b n = Some b'" "length b' < length b"
      using slice_from_shorter by blast
    with True show ?thesis
      by (cases st) auto
  qed (auto split: option.splits)
  then show ?thesis
    using Add by (simp add: stores_def)
qed

lemma go_step_decreases:
  assumes "go_step wr rnd slp i s pc = Some (s', pc')"
  shows "steps_left pc' < steps_left pc"
proof (cases pc)
  case (Locks p)
  then show ?thesis
    using assms section_left_ge [of p] by (auto split: if_splits)
next
  case (Loads p)
  then show ?thesis
    using assms section_left_ge [of p] by (auto simp: Let_def)
next
  case (Stores p v)
  then show ?thesis
    using assms section_left_ge [of p] by auto
next
  case (Unlocks p v)
  then show ?thesis
    using assms after_section_left [of _ p v] by auto
next
  case (Pauses st b tot)
  then show ?thesis
    using assms by (cases st) auto
qed (use assms in \<open>auto split: option.splits prod.splits\<close>)

section \<open>Mutual exclusion\<close>

fun in_section :: "write_pc \<Rightarrow> bool" where
  "in_section (Loads p) = True"
| "in_section (Stores p v) = True"
| "in_section (Unlocks p v) = True"
| "in_section pc = False"

text \<open>The count a goroutine has still to add.\<close>

fun pending :: "write_pc \<Rightarrow> int" where
  "pending (Locks p) = written p"
| "pending (Loads p) = written p"
| "pending (Stores p v) = written p"
| "pending pc = 0"

text \<open>The local code between two accesses ends outside every section, with nothing pending.\<close>

definition resting :: "write_pc \<Rightarrow> bool" where
  "resting pc \<longleftrightarrow> \<not> in_section pc \<and> pending pc = 0"

lemma resting_loop: "resting (loop_head st b tot)" "resting (loop_fails st tot err)"
  by (cases st; simp add: resting_def)+

lemma resting_split: "resting (split_start c b)"
  by (simp add: split_start_def Let_def resting_loop del: loop_head.simps)

lemma resting_after: "resting (after_section c p v)"
  by (cases p)
    (auto simp: resting_loop resting_split simp del: loop_head.simps split: option.splits, simp_all add: resting_def)

lemmas after_section_rests [simp] = resting_after [unfolded resting_def, THEN conjunct1]
  resting_after [unfolded resting_def, THEN conjunct2]
  resting_loop(1) [unfolded resting_def, THEN conjunct1]
  resting_loop(1) [unfolded resting_def, THEN conjunct2]

lemma may_call_rests: "may_call pc \<Longrightarrow> resting pc"
  by (cases pc) (simp_all add: may_call_def resting_def)

lemma rests_not_Stores [simp]: "after_section c q x \<noteq> Stores p v" "loop_head st b tot \<noteq> Stores p v"
  by (metis after_section_rests in_section.simps(2))+

fun inv_mutex :: "'w system \<Rightarrow> bool" where
  "inv_mutex (s, pcs) \<longleftrightarrow>
     (\<forall>i < length pcs. in_section (pcs ! i) \<longleftrightarrow> sh_mutex s = Some i) \<and>
     (\<forall>i. sh_mutex s = Some i \<longrightarrow> i < length pcs)"

text \<open>What a step of a goroutine does to the mutex and to its own place in or outside a section.\<close>

lemma go_step_mutex:
  assumes "go_step wr rnd slp i s pc = Some (s', pc')"
  shows "sh_mutex s' = sh_mutex s \<and> in_section pc' = in_section pc \<or>
    sh_mutex s = None \<and> sh_mutex s' = Some i \<and> in_section pc' \<or>
    in_section pc \<and> sh_mutex s' = None \<and> \<not> in_section pc'"
  using assms
  by (cases pc)
    (auto simp: Let_def conn_write_def simp del: loop_head.simps after_section.simps
      split: if_splits option.splits prod.splits)

lemma inv_mutex_step:
  assumes "steps_to wr rnd slp S m T" and "inv_mutex S"
  shows "inv_mutex T"
proof -
  obtain s pcs where S: "S = (s, pcs)"
    by force
  from assms(1) [unfolded S] show ?thesis
  proof (cases rule: steps_to_cases)
    case (call i b)
    then have "\<not> in_section (pcs ! i)"
      using may_call_rests resting_def by blast
    with call assms(2) S show ?thesis
      by (auto simp: nth_list_update)
  next
    case (run i s' pc)
    show ?thesis
      using go_step_mutex [OF run(3)] run(2,4) assms(2) S
      by (auto simp: nth_list_update)
  qed
qed

interpretation mutexes: invariant_of "steps_to wr rnd slp" "shared_conn w c k" inv_mutex
  for wr :: "'w writer" and rnd slp w c k
  by unfold_locales (simp add: shared_conn_def, rule inv_mutex_step)

lemma in_section_runs: "in_section pc \<Longrightarrow> go_step wr rnd slp i s pc \<noteq> None"
  by (cases pc) (auto simp: Let_def)

lemma outside_runs:
  "\<not> in_section pc \<Longrightarrow> sh_mutex s = None \<Longrightarrow> \<not> may_call pc \<Longrightarrow> pc \<noteq> Panicked \<Longrightarrow>
    go_step wr rnd slp i s pc \<noteq> None"
  by (cases pc) (auto simp: may_call_def split: option.splits prod.splits)

lemma some_goroutine_runs:
  assumes "inv_mutex (s, pcs)" and "i < length pcs" and "\<not> may_call (pcs ! i)" and "pcs ! i \<noteq> Panicked"
  shows "\<exists>j T. steps_to wr rnd slp (s, pcs) (Run j) T"
proof (cases "sh_mutex s")
  case None
  then have "\<not> in_section (pcs ! i)"
    using assms(1,2) by simp
  then have "go_step wr rnd slp i s (pcs ! i) \<noteq> None"
    using None assms(3,4) by (rule outside_runs)
  with assms(2) show ?thesis
    by (intro exI [of _ i]) (auto simp: steps_to_def)
next
  case (Some j)
  then have "j < length pcs" "go_step wr rnd slp j s (pcs ! j) \<noteq> None"
    using assms(1) by (simp, intro in_section_runs) simp
  then show ?thesis
    by (intro exI [of _ j]) (auto simp: steps_to_def)
qed

section \<open>The counter\<close>

lemma sum_list_map_update:
  fixes f :: "'a \<Rightarrow> 'b :: ab_group_add"
  shows "i < length xs \<Longrightarrow> sum_list (map f (xs[i := x])) = sum_list (map f xs) - f (xs ! i) + f x"
  by (induction xs arbitrary: i) (auto split: nat.split)

text \<open>The counted bytes of a history.\<close>

fun counted :: "event list \<Rightarrow> int" where
  "counted [] = 0"
| "counted (Called i b # l) = counted l"
| "counted (Sent i seg n k # l) = counted l + (if k then n else 0)"

text \<open>The configuration of a wrapper, everything but its counter.\<close>

definition same_params :: "spoof_conn \<Rightarrow> spoof_conn \<Rightarrow> bool" where
  "same_params c d \<longleftrightarrow> sc_fragmentSize d = sc_fragmentSize c \<and> sc_handshakeLen d = sc_handshakeLen c \<and>
     sc_maxDelay d = sc_maxDelay c \<and> sc_sni d = sc_sni c"

lemma same_params_simps [simp]:
  "same_params c c" "same_params c (d\<lparr>sc_bytesWritten := v\<rparr>) = same_params c d"
  by (simp_all add: same_params_def)

fun inv_count :: "spoof_conn \<Rightarrow> nat \<Rightarrow> 'w system \<Rightarrow> bool" where
  "inv_count c k (s, pcs) \<longleftrightarrow>
     length pcs = k \<and> same_params c (sh_conn s) \<and>
     sc_bytesWritten (sh_conn s) + sum_list (map pending pcs) = sc_bytesWritten c + counted (sh_log s) \<and>
     (\<forall>i < k. \<forall>p v. pcs ! i = Stores p v \<longrightarrow> stores p \<and> v = sc_bytesWritten (sh_conn s))"

lemma written_test [simp]: "\<not> stores p \<Longrightarrow> written p = 0"
  by (cases p) (auto simp: stores_def)

text \<open>
  A step either leaves the counter alone, and accounts for what it sent as pending, or adds the
  pending count to the value it loaded.
\<close>

lemma go_step_count:
  assumes "go_step wr rnd slp i s pc = Some (s', pc')"
  shows "(\<forall>p v. pc \<noteq> Stores p v) \<and> sh_conn s' = sh_conn s \<and>
      pending pc' - pending pc = counted (sh_log s') - counted (sh_log s) \<and>
      (\<forall>p v. pc' = Stores p v \<longrightarrow> stores p \<and> v = sc_bytesWritten (sh_conn s)) \<or>
    (\<exists>p v. pc = Stores p v \<and> pending pc' = 0 \<and> counted (sh_log s') = counted (sh_log s) \<and>
      (\<forall>p v. pc' \<noteq> Stores p v) \<and>
      sh_conn s' = (sh_conn s)\<lparr>sc_bytesWritten := v + pending pc\<rparr>)"
  using assms
  by (cases pc)
    (auto simp: Let_def conn_write_def simp del: loop_head.simps after_section.simps
      split: if_splits option.splits prod.splits)

lemma inv_count_step:
  assumes "steps_to wr rnd slp S m T" and "inv_mutex S" and "inv_count c k S"
  shows "inv_count c k T"
proof -
  obtain s pcs where S: "S = (s, pcs)"
    by force
  note inv = assms(3) [unfolded S inv_count.simps]
  from assms(1) [unfolded S] show ?thesis
  proof (cases rule: steps_to_cases)
    case (call i b)
    then have "pending (pcs ! i) = 0"
      using may_call_rests resting_def by blast
    with call inv show ?thesis
      by (auto simp: nth_list_update sum_list_map_update)
  next
    case (run i s' pc)
    note sum = sum_list_map_update [OF run(2), of pending pc]
    from go_step_count [OF run(3)] show ?thesis
    proof (elim disjE conjE exE)
      assume "\<forall>p x. pc = Stores p x \<longrightarrow> stores p \<and> x = sc_bytesWritten (sh_conn s)"
        and "sh_conn s' = sh_conn s"
        and "pending pc - pending (pcs ! i) = counted (sh_log s') - counted (sh_log s)"
      with inv sum run(2,4) show ?thesis
        by (auto simp: nth_list_update)
    next
      fix p x
      assume p: "pcs ! i = Stores p x" and "pending pc = 0" "counted (sh_log s') = counted (sh_log s)"
        and none: "\<forall>p v. pc \<noteq> Stores p v"
        and conn: "sh_conn s' = (sh_conn s)\<lparr>sc_bytesWritten := x + pending (pcs ! i)\<rparr>"
      have others: "pcs ! j \<noteq> Stores q y" if "j < length pcs" "j \<noteq> i" for j q y
        using that p assms(2) run(2) by (metis S in_section.simps(2) inv_mutex.simps option.inject)
      have "\<forall>j < k. \<forall>q y. pcs[i := pc] ! j \<noteq> Stores q y"
      proof (intro allI impI)
        fix j q y
        assume "j < k"
        then show "pcs[i := pc] ! j \<noteq> Stores q y"
          using inv others [of j q y] none by (cases "j = i") simp_all
      qed
      moreover have "x = sc_bytesWritten (sh_conn s)"
        using inv p run(2) by blast
      ultimately show ?thesis
        using inv sum \<open>pending pc = 0\<close> \<open>counted (sh_log s') = counted (sh_log s)\<close> conn run(4) by simp
    qed
  qed
qed

lemma inv_count_start: "inv_count c k (shared_conn w c k)"
  by (auto simp: shared_conn_def sum_list_replicate)

interpretation counter: invariant_of "steps_to wr rnd slp" "shared_conn w c k" "\<lambda>S. inv_mutex S \<and> inv_count c k S"
  for wr :: "'w writer" and rnd slp w c k
proof unfold_locales
  show "inv_mutex (shared_conn w c k) \<and> inv_count c k (shared_conn w c k)"
    by (rule conjI [OF mutexes.inv_start inv_count_start])
  show "steps_to wr rnd slp S m T \<Longrightarrow> inv_mutex S \<and> inv_count c k S \<Longrightarrow> inv_mutex T \<and> inv_count c k T" for S m T
    using inv_mutex_step inv_count_step by blast
qed

section \<open>The bytes on the wire\<close>

text \<open>
  All bytes the connection accepted, in order; then, for goroutine \<open>i\<close>, the buffer of its latest call,
  the bytes of it that were accepted, and whether one of its writes was not counted.
\<close>

fun wire :: "event list \<Rightarrow> byte list" where
  "wire [] = []"
| "wire (Called i b # l) = wire l"
| "wire (Sent i seg n k # l) = wire l @ take (nat n) seg"

fun call_buf :: "nat \<Rightarrow> event list \<Rightarrow> byte list" where
  "call_buf i [] = []"
| "call_buf i (Called j b # l) = (if j = i then b else call_buf i l)"
| "call_buf i (Sent j seg n k # l) = call_buf i l"

fun call_sent :: "nat \<Rightarrow> event list \<Rightarrow> byte list" where
  "call_sent i [] = []"
| "call_sent i (Called j b # l) = (if j = i then [] else call_sent i l)"
| "call_sent i (Sent j seg n k # l) = call_sent i l @ (if j = i then take (nat n) seg else [])"

fun call_passed :: "nat \<Rightarrow> event list \<Rightarrow> bool" where
  "call_passed i [] = False"
| "call_passed i (Called j b # l) = (j \<noteq> i \<and> call_passed i l)"
| "call_passed i (Sent j seg n k # l) = (call_passed i l \<or> j = i \<and> \<not> k)"

text \<open>What a stage sent before it, and what it leaves to a later one.\<close>

fun stage_base :: "stage \<Rightarrow> int" where
  "stage_base (Whole base) = base"
| "stage_base st = 0"

fun stage_rest :: "stage \<Rightarrow> byte list" where
  "stage_rest (FirstHalf rest) = rest"
| "stage_rest st = []"

text \<open>\<open>i\<close> is in stage \<open>st\<close> with \<open>b\<close> left and \<open>tot\<close> sent, as the history tells.\<close>

definition at_point :: "nat \<Rightarrow> event list \<Rightarrow> stage \<Rightarrow> byte list \<Rightarrow> int \<Rightarrow> bool" where
  "at_point i l st b tot \<longleftrightarrow> call_buf i l = call_sent i l @ b @ stage_rest st \<and>
     stage_base st + tot = int (length (call_sent i l))"

definition ended_at :: "nat \<Rightarrow> event list \<Rightarrow> int \<Rightarrow> goerror option \<Rightarrow> bool" where
  "ended_at i l n err \<longleftrightarrow> 0 \<le> n \<and> n \<le> int (length (call_buf i l)) \<and>
     call_sent i l = take (nat n) (call_buf i l) \<and>
     (err = None \<and> \<not> call_passed i l \<longrightarrow> n = int (length (call_buf i l)))"

fun section_point :: "nat \<Rightarrow> event list \<Rightarrow> critical \<Rightarrow> bool" where
  "section_point i l (EntryTest b) = (call_sent i l = [] \<and> call_buf i l = b)"
| "section_point i l (LoopTest b tot) = at_point i l Fragments b tot"
| "section_point i l (PauseTest b tot) = at_point i l Fragments b tot"
| "section_point i l (Add st b tot n err) =
     (0 \<le> n \<and> n \<le> int (length b) \<and> 0 \<le> stage_base st + tot \<and> at_point i l st (drop (nat n) b) (tot + n))"

fun point :: "nat \<Rightarrow> event list \<Rightarrow> write_pc \<Rightarrow> bool" where
  "point i l Idle = (call_sent i l = [])"
| "point i l (Locks p) = section_point i l p"
| "point i l (Loads p) = section_point i l p"
| "point i l (Stores p v) = section_point i l p"
| "point i l (Unlocks p v) = section_point i l p"
| "point i l (Passes b) = (call_sent i l = [] \<and> call_buf i l = b)"
| "point i l (Sends st b tot) = at_point i l st b tot"
| "point i l (Pauses st b tot) = at_point i l st b tot"
| "point i l (Finished n err) = ended_at i l n err"
| "point i l Panicked = False"

lemma at_point_ends:
  assumes "at_point i l st b tot" and "stage_rest st = []" and "b = []"
  shows "ended_at i l (stage_base st + tot) err"
  using assms by (auto simp: at_point_def ended_at_def)

lemma point_loop_head: "at_point i l st b tot \<Longrightarrow> point i l (loop_head st b tot)"
proof (cases st)
  case (FirstHalf rest)
  then show "at_point i l st b tot \<Longrightarrow> ?thesis"
    by (auto simp: at_point_def)
qed (auto dest: at_point_ends)

lemma point_loop_fails: "at_point i l st b tot \<Longrightarrow> point i l (loop_fails st tot err)"
  by (cases st) (auto simp: at_point_def ended_at_def)

lemma point_split_start:
  assumes "call_sent i l = []" and "call_buf i l = b"
  shows "point i l (split_start c b)"
  using assms by (auto simp: split_start_def Let_def at_point_def intro!: point_loop_head simp del: loop_head.simps)

lemma point_after_section:
  assumes "section_point i l p"
  shows "point i l (after_section c p v)"
proof (cases p)
  case (EntryTest b)
  then show ?thesis
    using assms point_split_start [of i l b c] point_loop_head [of i l Fragments b 0]
    by (auto simp: at_point_def simp del: loop_head.simps)
next
  case (LoopTest b tot)
  then show ?thesis
    using assms point_loop_head [of i l "Whole 0" b tot] by (auto simp: at_point_def simp del: loop_head.simps)
next
  case (PauseTest b tot)
  then show ?thesis
    using assms point_loop_head [of i l Fragments b tot] by (auto simp del: loop_head.simps)
next
  case (Add st b tot n err)
  then have at: "at_point i l st (drop (nat n) b) (tot + n)" and cut: "slice_from b n = Some (drop (nat n) b)"
    using assms by (auto simp: go_simps)
  show ?thesis
    unfolding Add after_section.simps cut
    using at point_loop_head [OF at] point_loop_fails [OF at]
    by (auto simp del: loop_head.simps split: option.splits)
qed

text \<open>Wherever a goroutine is, it has sent a prefix of its buffer, and the buffer bounds its steps.\<close>

lemma at_point_prefix: "at_point i l st b tot \<Longrightarrow> call_sent i l = take (length (call_sent i l)) (call_buf i l)"
  by (simp add: at_point_def)

lemma point_prefix: "point i l pc \<Longrightarrow> call_sent i l = take (length (call_sent i l)) (call_buf i l)"
proof -
  have "section_point i l p \<Longrightarrow> ?thesis" for p
    by (cases p) (auto dest: at_point_prefix)
  moreover have "ended_at i l n err \<Longrightarrow> ?thesis" for n err
    by (auto simp: ended_at_def)
  ultimately show "point i l pc \<Longrightarrow> ?thesis"
    by (cases pc) (auto dest: at_point_prefix)
qed

lemma stage_left_le:
  "length b + length (stage_rest st) \<le> m \<Longrightarrow> stage_left st b \<le> 14 * m + 7"
  by (cases st) auto

lemma at_point_length: "at_point i l st b tot \<Longrightarrow> length b + length (stage_rest st) \<le> length (call_buf i l)"
  by (simp add: at_point_def)

lemma section_point_left:
  assumes "section_point i l p"
  shows "section_left p \<le> 14 * length (call_buf i l) + 18"
proof (cases p)
  case (Add st b tot n err)
  then have at: "at_point i l st (drop (nat n) b) (tot + n)" and n: "0 \<le> n" "n \<le> int (length b)" "0 \<le> stage_base st + tot"
    using assms by simp_all
  have "int (length b) + int (length (stage_rest st)) \<le> int (length (call_buf i l))"
    using at n by (simp add: at_point_def)
  then show ?thesis
    using Add stage_left_le [of b st "length (call_buf i l)"] by simp
qed (use assms in \<open>auto dest: at_point_length\<close>)

lemma point_left:
  assumes "point i l pc"
  shows "steps_left pc \<le> 14 * length (call_buf i l) + 18"
proof (cases pc)
  case (Sends st b tot)
  then show ?thesis
    using assms stage_left_le [OF at_point_length, of i l st b tot] by simp
next
  case (Pauses st b tot)
  then show ?thesis
    using assms at_point_length [of i l st b tot] by (cases st) auto
qed (use assms in \<open>auto dest!: section_point_left\<close>)

text \<open>The events of one goroutine do not move another.\<close>

fun event_of :: "event \<Rightarrow> nat" where
  "event_of (Called i b) = i"
| "event_of (Sent i seg n k) = i"

lemma call_frame:
  assumes "event_of e \<noteq> i"
  shows "call_buf i (e # l) = call_buf i l" and "call_sent i (e # l) = call_sent i l"
    and "call_passed i (e # l) = call_passed i l"
  using assms by (cases e; simp)+

lemma at_point_frame: "event_of e \<noteq> i \<Longrightarrow> at_point i (e # l) st b tot = at_point i l st b tot"
  by (simp add: at_point_def call_frame)

lemma point_frame: "event_of e \<noteq> i \<Longrightarrow> point i (e # l) pc = point i l pc"
proof -
  assume e: "event_of e \<noteq> i"
  have "section_point i (e # l) p = section_point i l p" for p
    using e by (cases p) (simp_all add: call_frame at_point_frame)
  with e show ?thesis
    by (cases pc) (simp_all add: call_frame at_point_frame ended_at_def)
qed

text \<open>The bounds the connection keeps, and the whole invariant.\<close>

fun accepted_event :: "event \<Rightarrow> bool" where
  "accepted_event (Called i b) = True"
| "accepted_event (Sent i seg n k) = (0 \<le> n \<and> n \<le> int (length seg))"

fun inv_stream :: "('w \<Rightarrow> byte list) \<Rightarrow> 'w \<Rightarrow> spoof_conn \<Rightarrow> 'w system \<Rightarrow> bool" where
  "inv_stream sent w c (s, pcs) \<longleftrightarrow>
     sent (sh_world s) = sent w @ wire (sh_log s) \<and> list_all accepted_event (sh_log s) \<and>
     (\<forall>i < length pcs. point i (sh_log s) (pcs ! i))"

context spoof_env begin

lemma next_segment_prefix:
  assumes "next_segment c st b = Some seg"
  shows "\<exists>k. seg = take k b"
  using assms by (cases st) (auto simp: slice_to_def split: if_splits intro: exI [of _ "length b"])

lemma next_segment_found: "next_segment c st b \<noteq> None"
  using frag_size_pos [of c] by (cases st) (auto simp: slice_to_def)

text \<open>A step of goroutine \<open>i\<close> adds at most one event, its own, and keeps the account.\<close>

lemma go_step_stream:
  assumes step: "go_step wr rnd slp i s pc = Some (s', pc')" and here: "point i (sh_log s) pc"
  obtains "sh_log s' = sh_log s" "sent (sh_world s') = sent (sh_world s)" "point i (sh_log s) pc'"
  | e where "sh_log s' = e # sh_log s" "event_of e = i" "accepted_event e" "point i (e # sh_log s) pc'"
    "\<And>w0. sent (sh_world s) = w0 @ wire (sh_log s) \<Longrightarrow> sent (sh_world s') = w0 @ wire (e # sh_log s)"
proof (cases "\<exists>seg k. pc = Passes seg \<or> (\<exists>st b tot. pc = Sends st b tot)")
  case False
  then have "sh_log s' = sh_log s \<and> sent (sh_world s') = sent (sh_world s) \<and> point i (sh_log s) pc'"
    using step here
    by (cases pc)
      (auto simp: Let_def pause_sent point_after_section point_loop_head
        simp del: loop_head.simps after_section.simps split: if_splits)
  with that(1) show ?thesis
    by blast
next
  case True
  then consider (passes) b where "pc = Passes b" | (sends) st b tot where "pc = Sends st b tot"
    by blast
  then show ?thesis
  proof cases
    case passes
    obtain w' n err where wr: "wr (sh_world s) b = (w', n, err)"
      by (rule prod_cases3)
    have acc: "0 \<le> n" "n \<le> int (length b)" "sent w' = sent (sh_world s) @ take (nat n) b"
      using wr_accepted [OF wr] by (simp_all add: accepted_def)
    show ?thesis
      by (rule that(2) [of "Sent i b n False"])
        (use step here passes wr acc in \<open>auto simp: conn_write_def ended_at_def\<close>)
  next
    case sends
    then obtain seg where seg: "next_segment (sh_conn s) st b = Some seg"
      using next_segment_found by blast
    obtain w' n err where wr: "wr (sh_world s) seg = (w', n, err)"
      by (rule prod_cases3)
    obtain k where k: "seg = take k b"
      using next_segment_prefix [OF seg] by blast
    have acc: "0 \<le> n" "n \<le> int (length seg)" "sent w' = sent (sh_world s) @ take (nat n) seg"
      using wr_accepted [OF wr] by (simp_all add: accepted_def)
    have prefix: "take (nat n) seg = take (nat n) b" "n \<le> int (length b)"
      using acc(3) accepted_prefix [of sent "sh_world s" k b w' n] wr_accepted [OF wr]
      unfolding k by (simp_all add: accepted_def)
    have "point i (Sent i seg n True # sh_log s) (Locks (Add st b tot n err))"
      using here sends acc(1) prefix append_take_drop_id [of "nat n" b]
      by (auto simp: at_point_def)
    with acc show ?thesis
      by (intro that(2) [of "Sent i seg n True"])
        (use step sends seg wr in \<open>auto simp: conn_write_def\<close>)
  qed
qed

lemma inv_stream_step:
  assumes "steps_to wr rnd slp S m T" and "inv_stream sent w c S"
  shows "inv_stream sent w c T"
proof -
  obtain s pcs where S: "S = (s, pcs)"
    by force
  note inv = assms(2) [unfolded S inv_stream.simps]
  from assms(1) [unfolded S] show ?thesis
  proof (cases rule: steps_to_cases)
    case (call i b)
    with inv show ?thesis
      using point_frame [of "Called i b"] by (auto simp: nth_list_update)
  next
    case (run i s' pc)
    have here: "point i (sh_log s) (pcs ! i)"
      using inv run(2) by blast
    from run(3) here show ?thesis
    proof (cases rule: go_step_stream)
      case 1
      with inv run(2,4) show ?thesis
        by (auto simp: nth_list_update)
    next
      case (2 e)
      have "point j (e # sh_log s) (pcs ! j)" if "j < length pcs" "j \<noteq> i" for j
        using inv that 2(2) point_frame [of e j] by simp
      with inv 2 run(2,4) show ?thesis
        by (auto simp: nth_list_update)
    qed
  qed
qed

end

sublocale spoof_env \<subseteq> stream: invariant_of "steps_to wr rnd slp" "shared_conn w c k" "inv_stream sent w c"
  for w c k
  by unfold_locales (simp add: shared_conn_def, rule inv_stream_step)

context spoof_env begin

lemma stream_reach: "reach (steps_to wr rnd slp) (shared_conn w c k) S \<Longrightarrow> inv_stream sent w c S"
  by (rule stream.reach_inv)

end

end
