(* ===== verification/SpoofConcurrentGuard.thy ===== *)
theory SpoofConcurrentGuard
  imports SpoofConcurrentInv
begin

text \<open>
  What the splitting promises when writers race: which loop a goroutine is in, which test let it in,
  and so which segments can be on the wire before the handshake length is reached.
\<close>

section \<open>The loop of a goroutine\<close>

fun section_loop :: "critical \<Rightarrow> (stage \<times> byte list) option" where
  "section_loop (EntryTest b) = None"
| "section_loop (LoopTest b tot) = Some (Fragments, b)"
| "section_loop (PauseTest b tot) = Some (Fragments, b)"
| "section_loop (Add st b tot n err) = Some (st, b)"

fun loop_of :: "write_pc \<Rightarrow> (stage \<times> byte list) option" where
  "loop_of (Locks p) = section_loop p"
| "loop_of (Loads p) = section_loop p"
| "loop_of (Stores p v) = section_loop p"
| "loop_of (Unlocks p v) = section_loop p"
| "loop_of (Sends st b tot) = Some (st, b)"
| "loop_of (Pauses st b tot) = Some (st, b)"
| "loop_of pc = None"

text \<open>A loop goes on with what is left, and the first half is followed by the second.\<close>

definition continues :: "stage \<Rightarrow> byte list \<Rightarrow> stage \<Rightarrow> byte list \<Rightarrow> bool" where
  "continues st b st' b' \<longleftrightarrow> st' = st \<and> (\<exists>n. b' = drop n b) \<or>
     (\<exists>rest k. st = FirstHalf rest \<and> st' = Whole k \<and> b' = rest)"

lemma continues_refl: "continues st b st b"
  unfolding continues_def by (rule disjI1) (auto intro: exI [of _ 0])



lemma loop_of_fails [simp]: "loop_of (loop_fails st tot err) = None"
  by (cases st) auto

lemma loop_of_head: "loop_of (loop_head st b tot) = Some (st', b') \<Longrightarrow> continues st b st' b'"
  by (cases st) (auto simp: continues_refl split: if_splits, simp add: continues_def)

lemma continues_trans_drop: "continues st (drop n b) st' b' \<Longrightarrow> continues st b st' b'"
  by (auto simp: continues_def)

text \<open>How a step changes the loop: it goes on, or a test lets the goroutine into another.\<close>

lemma loop_of_after:
  assumes "loop_of (after_section c p v) = Some (st', b')"
  shows "(\<exists>st b. section_loop p = Some (st, b) \<and> continues st b st' b') \<or>
    (\<exists>b tot. p = LoopTest b tot \<and> sc_handshakeLen c \<le> v \<and> st' = Whole 0 \<and> b' = b) \<or>
    (\<exists>b. p = EntryTest b \<and> (if sc_sni c = [] then st' = Fragments else loop_of (split_start c b) = Some (st', b')))"
proof (cases p)
  case (EntryTest b)
  then show ?thesis
    using assms by (auto split: if_splits)
next
  case (LoopTest b tot)
  then show ?thesis
    using assms continues_refl by (auto split: if_splits)
next
  case (PauseTest b tot)
  then show ?thesis
    using assms continues_refl loop_of_head [of Fragments b tot] by (auto split: if_splits)
next
  case (Add st b tot n err)
  obtain b1 where b1: "slice_from b n = Some b1"
    and next_pc: "loop_of (if st = Fragments then Locks (PauseTest b1 (tot + n)) else loop_head st b1 (tot + n)) = Some (st', b')"
    using assms unfolding Add by (auto simp del: loop_head.simps split: if_splits option.splits)
  have drop: "b1 = drop (nat n) b"
    using b1 by (simp add: slice_from_Some_iff)
  have "continues st b1 st' b'"
  proof (cases "st = Fragments")
    case True
    then show ?thesis
      using next_pc continues_refl by simp
  next
    case False
    then show ?thesis
      using next_pc loop_of_head by simp
  qed
  then have "continues st b st' b'"
    unfolding drop by (rule continues_trans_drop)
  then show ?thesis
    by (simp add: Add)
qed

lemma go_step_loop:
  assumes "go_step wr rnd slp i s pc = Some (s', pc')" and "loop_of pc' = Some (st', b')"
  shows "(\<exists>st b. loop_of pc = Some (st, b) \<and> continues st b st' b') \<or>
    (\<exists>b tot v. pc = Unlocks (LoopTest b tot) v \<and> sc_handshakeLen (sh_conn s) \<le> v \<and> st' = Whole 0 \<and> b' = b) \<or>
    (\<exists>b v. pc = Unlocks (EntryTest b) v \<and>
      (if sc_sni (sh_conn s) = [] then st' = Fragments
       else loop_of (split_start (sh_conn s) b) = Some (st', b')))"
proof (cases pc)
  case (Unlocks p v)
  then show ?thesis
    using assms loop_of_after [of "sh_conn s" p v st' b'] by auto
next
  case (Pauses st b tot)
  then show ?thesis
    using assms loop_of_head [of st b tot] by auto
qed (use assms in \<open>auto simp: Let_def continues_refl conn_write_def split: if_splits option.splits prod.splits\<close>)

section \<open>The history of guarded events\<close>

text \<open>A property of each event and the history before it.\<close>

fun all_events :: "(event \<Rightarrow> event list \<Rightarrow> bool) \<Rightarrow> event list \<Rightarrow> bool" where
  "all_events P [] = True"
| "all_events P (e # l) = (P e l \<and> all_events P l)"

lemma all_events_split: "all_events P l \<Longrightarrow> l = l1 @ e # l0 \<Longrightarrow> P e l0"
  by (induction l arbitrary: l1) (auto simp: Cons_eq_append_conv)

text \<open>
  A write that is not counted, and in fragment mode a segment longer than a fragment, is made only
  when \<^verbatim>\<open>handshakeLen\<close> bytes have been counted.
\<close>

fun guarded :: "spoof_conn \<Rightarrow> event \<Rightarrow> event list \<Rightarrow> bool" where
  "guarded c (Called i b) l = True"
| "guarded c (Sent i seg n k) l =
     ((k \<longrightarrow> sc_sni c = [] \<and> frag_size c < int (length seg)) \<longrightarrow>
      sc_handshakeLen c \<le> sc_bytesWritten c + counted l)"

definition guard_pc :: "spoof_conn \<Rightarrow> int \<Rightarrow> write_pc \<Rightarrow> bool" where
  "guard_pc c v pc \<longleftrightarrow>
     (\<forall>b. pc = Passes b \<longrightarrow> sc_handshakeLen c \<le> v) \<and> (\<forall>p x. pc = Unlocks p x \<longrightarrow> x \<le> v) \<and>
     (\<forall>st b. loop_of pc = Some (st, b) \<and> st \<noteq> Fragments \<and> sc_sni c = [] \<longrightarrow> sc_handshakeLen c \<le> v)"

fun inv_guard :: "spoof_conn \<Rightarrow> 'w system \<Rightarrow> bool" where
  "inv_guard c (s, pcs) \<longleftrightarrow> all_events (guarded c) (sh_log s) \<and>
     (\<forall>i < length pcs. guard_pc c (sc_bytesWritten (sh_conn s)) (pcs ! i))"

lemma guard_pc_mono: "guard_pc c v pc \<Longrightarrow> v \<le> v' \<Longrightarrow> guard_pc c v' pc"
  unfolding guard_pc_def by (blast intro: order_trans)

lemma point_pending: "point i l pc \<Longrightarrow> 0 \<le> pending pc"
proof -
  have "section_point i l p \<Longrightarrow> 0 \<le> written p" for p
    by (cases p) auto
  then show "point i l pc \<Longrightarrow> ?thesis"
    by (cases pc) auto
qed

lemma counted_bound:
  assumes "inv_count c k (s, pcs)" and "inv_stream sent w c (s, pcs)"
  shows "sc_bytesWritten (sh_conn s) \<le> sc_bytesWritten c + counted (sh_log s)"
proof -
  have "\<And>pc. pc \<in> set pcs \<Longrightarrow> 0 \<le> pending pc"
    using assms(2) point_pending by (metis in_set_conv_nth inv_stream.simps)
  then have "0 \<le> sum_list (map pending pcs)"
    by (intro sum_list_nonneg) auto
  then show ?thesis
    using assms(1) by simp
qed

lemma same_params_frag_size: "same_params c d \<Longrightarrow> frag_size d = frag_size c"
  by (simp add: same_params_def frag_size_def)

lemma go_step_counter_mono:
  assumes "go_step wr rnd slp i s pc = Some (s', pc')"
    and "\<And>p v. pc = Stores p v \<Longrightarrow> v = sc_bytesWritten (sh_conn s)" and "0 \<le> pending pc"
  shows "sc_bytesWritten (sh_conn s) \<le> sc_bytesWritten (sh_conn s')"
  using go_step_count [OF assms(1)] assms(2,3) by auto

lemma split_start_late: "loop_of (split_start c b) = Some (st, b') \<Longrightarrow> st \<noteq> Fragments"
  by (auto simp: split_start_def Let_def split: if_splits)

lemma loops_not_Passes [simp]:
  "loop_head st b tot \<noteq> Passes b'" "loop_fails st tot err \<noteq> Passes b'" "split_start c b \<noteq> Passes b'"
proof -
  show head: "loop_head st b tot \<noteq> Passes b'" for st b tot
    by (cases st) auto
  show "loop_fails st tot err \<noteq> Passes b'"
    by (cases st) auto
  show "split_start c b \<noteq> Passes b'"
    by (simp add: split_start_def Let_def head del: loop_head.simps)
qed

lemma after_section_Passes:
  "after_section c p v = Passes b \<longleftrightarrow> p = EntryTest b \<and> sc_handshakeLen c \<le> v"
  by (cases p) (auto simp del: loop_head.simps split: option.splits)

lemma go_step_Passes:
  assumes "go_step wr rnd slp i s pc = Some (s', Passes b)"
  shows "\<exists>v. pc = Unlocks (EntryTest b) v \<and> sc_handshakeLen (sh_conn s) \<le> v"
  using assms
  by (cases pc) (auto simp: Let_def after_section_Passes conn_write_def
      simp del: loop_head.simps after_section.simps split: if_splits option.splits prod.splits)

lemma go_step_Unlocks:
  assumes "go_step wr rnd slp i s pc = Some (s', Unlocks p v)"
  shows "pc = Loads p \<and> v = sc_bytesWritten (sh_conn s) \<or> pc = Stores p v"
proof -
  have no: "loop_head st b tot \<noteq> Unlocks p v" "after_section c q x \<noteq> Unlocks p v" for st b tot c q x
    by (metis after_section_rests in_section.simps(3))+
  show ?thesis
    using assms
    by (cases pc) (auto simp: Let_def no conn_write_def
        simp del: loop_head.simps after_section.simps split: if_splits option.splits prod.splits)
qed

lemma go_step_guard:
  assumes step: "go_step wr rnd slp i s pc = Some (s', pc')" and same: "same_params c (sh_conn s)"
    and loaded: "\<And>p v. pc = Stores p v \<Longrightarrow> v = sc_bytesWritten (sh_conn s)" and nn: "0 \<le> pending pc"
    and guard: "guard_pc c (sc_bytesWritten (sh_conn s)) pc"
  shows "guard_pc c (sc_bytesWritten (sh_conn s')) pc'"
proof -
  let ?v = "sc_bytesWritten (sh_conn s)"
  have mono: "?v \<le> sc_bytesWritten (sh_conn s')"
    using go_step_counter_mono [OF step] loaded nn by blast
  have params: "sc_handshakeLen (sh_conn s) = sc_handshakeLen c" "sc_sni (sh_conn s) = sc_sni c"
    using same by (simp_all add: same_params_def)
  have "guard_pc c ?v pc'"
    unfolding guard_pc_def
  proof (intro conjI allI impI)
    fix b
    assume "pc' = Passes b"
    then show "sc_handshakeLen c \<le> ?v"
      using go_step_Passes [of wr rnd slp i s pc s' b] step guard params
      unfolding guard_pc_def by force
  next
    fix p x
    assume "pc' = Unlocks p x"
    then show "x \<le> ?v"
      using go_step_Unlocks [of wr rnd slp i s pc s' p x] step loaded by blast
  next
    fix st b
    assume a: "loop_of pc' = Some (st, b) \<and> st \<noteq> Fragments \<and> sc_sni c = []"
    then have "loop_of pc' = Some (st, b)"
      by simp
    from go_step_loop [OF step this] a guard params show "sc_handshakeLen c \<le> ?v"
      unfolding guard_pc_def continues_def by fastforce
  qed
  then show ?thesis
    using mono by (rule guard_pc_mono)
qed

lemma go_step_event:
  assumes "go_step wr rnd slp i s pc = Some (s', pc')"
  obtains "sh_log s' = sh_log s"
  | b n where "pc = Passes b" "sh_log s' = Sent i b n False # sh_log s"
  | st b tot seg n where "pc = Sends st b tot" "next_segment (sh_conn s) st b = Some seg"
      "sh_log s' = Sent i seg n True # sh_log s"
  using assms
  by (cases pc) (auto simp: Let_def conn_write_def simp del: loop_head.simps after_section.simps
      split: if_splits option.splits prod.splits)

lemma next_segment_fragment:
  "next_segment c Fragments b = Some seg \<Longrightarrow> int (length seg) \<le> frag_size c"
  using frag_size_pos [of c] by (auto simp: slice_to_def split: if_splits)

lemma guarded_event:
  assumes step: "go_step wr rnd slp i s pc = Some (s', pc')" and "same_params c (sh_conn s)"
    and "guard_pc c (sc_bytesWritten (sh_conn s)) pc"
    and "sc_bytesWritten (sh_conn s) \<le> sc_bytesWritten c + counted (sh_log s)"
    and "all_events (guarded c) (sh_log s)"
  shows "all_events (guarded c) (sh_log s')"
  using step
proof (cases rule: go_step_event)
  case (2 b n)
  then show ?thesis
    using assms(3-5) by (auto simp: guard_pc_def)
next
  case (3 st b tot seg n)
  have "sc_handshakeLen c \<le> sc_bytesWritten (sh_conn s)" if "sc_sni c = []" "frag_size c < int (length seg)"
  proof -
    have "st \<noteq> Fragments"
      using that(2) 3(2) next_segment_fragment same_params_frag_size [OF assms(2)] by force
    with that(1) 3(1) assms(3) show ?thesis
      by (simp add: guard_pc_def)
  qed
  with 3 assms(4,5) show ?thesis
    by auto
qed (use assms(5) in simp)

context spoof_env begin

lemma inv_guard_step:
  assumes "steps_to wr rnd slp S m T" and "inv_count c k S" and "inv_stream sent w c S" and "inv_guard c S"
  shows "inv_guard c T"
proof -
  obtain s pcs where S: "S = (s, pcs)"
    by force
  note inv = assms(2-4) [unfolded S]
  from assms(1) [unfolded S] show ?thesis
  proof (cases rule: steps_to_cases)
    case (call i b)
    with inv show ?thesis
      by (auto simp: nth_list_update guard_pc_def)
  next
    case (run i s' pc)
    have same: "same_params c (sh_conn s)"
      and loaded: "\<And>p v. pcs ! i = Stores p v \<Longrightarrow> v = sc_bytesWritten (sh_conn s)"
      using inv(1) run(2) by auto
    have nn: "0 \<le> pending (pcs ! i)"
      using inv(2) run(2) by (auto intro: point_pending)
    have here: "guard_pc c (sc_bytesWritten (sh_conn s)) (pcs ! i)"
      using inv(3) run(2) by simp
    have "sc_bytesWritten (sh_conn s) \<le> sc_bytesWritten (sh_conn s')"
      using go_step_counter_mono [OF run(3)] loaded nn by blast
    then have others: "guard_pc c (sc_bytesWritten (sh_conn s')) (pcs ! j)" if "j < length pcs" for j
      using inv(3) that guard_pc_mono by auto
    moreover have "all_events (guarded c) (sh_log s')"
      using guarded_event [OF run(3) same here counted_bound [OF inv(1,2)]] inv(3) by simp
    moreover have "guard_pc c (sc_bytesWritten (sh_conn s')) pc"
      using go_step_guard [OF run(3) same loaded nn here] .
    ultimately show ?thesis
      using run(2,4) by (auto simp: nth_list_update)
  qed
qed

lemma guard_reach:
  assumes "reach (steps_to wr rnd slp) (shared_conn w c k) S"
  shows "inv_guard c S"
  using assms
proof (induction rule: reach.induct)
  case reach_init
  show ?case
    by (auto simp: shared_conn_def guard_pc_def)
next
  case (reach_step S m T)
  show ?case
    using reach_step.hyps(2) _ _ reach_step.IH
  proof (rule inv_guard_step)
    show "inv_count c k S"
      using counter.reach_inv [OF reach_step.hyps(1)] by blast
    show "inv_stream sent w c S"
      using stream_reach [OF reach_step.hyps(1)] .
  qed
qed

end

section \<open>The name\<close>

text \<open>The name occurs at most once in a buffer.\<close>

definition names_once :: "spoof_conn \<Rightarrow> byte list \<Rightarrow> bool" where
  "names_once c b \<longleftrightarrow> (\<forall>i \<le> length b. \<forall>j \<le> length b.
     occurs_at (sc_sni c) b i \<and> occurs_at (sc_sni c) b j \<longrightarrow> i = j)"

text \<open>A loop that shows no name: neither in what it has left nor in what it leaves to a later one.\<close>

definition nameless :: "spoof_conn \<Rightarrow> stage \<Rightarrow> byte list \<Rightarrow> bool" where
  "nameless c st b \<longleftrightarrow> st \<noteq> Fragments \<and> \<not> contains b (sc_sni c) \<and> \<not> contains (stage_rest st) (sc_sni c)"

lemma contains_Nil: "contains [] sep \<longleftrightarrow> sep = []"
  by (auto simp: contains_iff occurs_at_def)

lemma contains_drop_mono: "contains (drop n b) sep \<Longrightarrow> contains b sep"
proof (cases "n \<le> length b")
  case True
  then show "contains (drop n b) sep \<Longrightarrow> ?thesis"
    by (auto simp: contains_iff occurs_at_drop)
next
  case False
  then show "contains (drop n b) sep \<Longrightarrow> ?thesis"
    by (auto simp: contains_iff occurs_at_def intro: exI [of _ 0])
qed

lemma contains_self_Nil: "\<not> contains b sep \<Longrightarrow> sep \<noteq> []"
  by (auto simp: contains_iff occurs_at_def intro: exI [of _ 0])

lemma nameless_continues: "nameless c st b \<Longrightarrow> continues st b st' b' \<Longrightarrow> nameless c st' b'"
  using contains_drop_mono [of _ b "sc_sni c"] contains_self_Nil [of b "sc_sni c"]
  by (auto simp: nameless_def continues_def contains_Nil)

lemma split_start_nameless:
  assumes "2 \<le> length (sc_sni c)" and "names_once c b" and "loop_of (split_start c b) = Some (st, b')"
  shows "nameless c st b'"
proof (cases "bytes_Index b (sc_sni c) < 0")
  case True
  then have "st = Whole 0 \<and> b' = b \<and> \<not> contains b (sc_sni c)"
    using assms(3) by (auto simp: split_start_def bytes_Index_neg contains_iff split: if_splits)
  then show ?thesis
    using assms(1) by (auto simp: nameless_def contains_Nil)
next
  case False
  then obtain i where i: "bytes_Index b (sc_sni c) = int i"
    by (metis int_ops(1) not_le_imp_less zero_le_imp_eq_int)
  have here: "occurs_at (sc_sni c) b i"
    using bytes_Index_first [of b "sc_sni c"] i by simp
  define k where "k = i + length (sc_sni c) div 2"
  have k: "0 < k" "k < i + length (sc_sni c)" "k < length b" "i < k"
    using assms(1) occurs_at_bound [OF here] by (auto simp: k_def)
  have at: "int i + int (length (sc_sni c)) div 2 = int k"
    by (simp add: k_def zdiv_int)
  have "st = FirstHalf (drop k b) \<and> b' = take k b"
    using assms(3) k(1,3) by (auto simp: split_start_def Let_def i at split: if_splits)
  moreover have "\<not> contains (take k b) (sc_sni c)"
    using i k(2) by (rule contains_take_first)
  moreover have "\<not> contains (drop k b) (sc_sni c)"
  proof
    assume "contains (drop k b) (sc_sni c)"
    then obtain j where j: "k \<le> j" "occurs_at (sc_sni c) b j"
      using k(3) by (auto simp: contains_drop)
    then have "i = j"
      using assms(2) here occurs_at_bound [OF here] occurs_at_bound [OF j(2)]
      unfolding names_once_def by (metis add_leD1)
    with j(1) k(4) show False
      by simp
  qed
  ultimately show ?thesis
    by (simp add: nameless_def)
qed

text \<open>
  In split mode a goroutine whose buffer names the server at most once shows the name in no counted
  write, and is in no loop that could.
\<close>

fun nameless_event :: "spoof_conn \<Rightarrow> event \<Rightarrow> event list \<Rightarrow> bool" where
  "nameless_event c (Called i b) l = True"
| "nameless_event c (Sent i seg n k) l =
     (k \<and> names_once c (call_buf i l) \<longrightarrow> \<not> contains seg (sc_sni c))"

definition nameless_pc :: "spoof_conn \<Rightarrow> nat \<Rightarrow> event list \<Rightarrow> write_pc \<Rightarrow> bool" where
  "nameless_pc c i l pc \<longleftrightarrow> (\<forall>st b. names_once c (call_buf i l) \<and> loop_of pc = Some (st, b) \<longrightarrow> nameless c st b)"

fun inv_name :: "spoof_conn \<Rightarrow> 'w system \<Rightarrow> bool" where
  "inv_name c (s, pcs) \<longleftrightarrow> all_events (nameless_event c) (sh_log s) \<and>
     (\<forall>i < length pcs. nameless_pc c i (sh_log s) (pcs ! i))"

lemma names_once_params: "same_params c d \<Longrightarrow> names_once d b = names_once c b"
  by (simp add: same_params_def names_once_def)

lemma nameless_params: "same_params c d \<Longrightarrow> nameless d st b = nameless c st b"
  by (simp add: same_params_def nameless_def)

lemma go_step_nameless:
  assumes step: "go_step wr rnd slp i s pc = Some (s', pc')" and same: "same_params c (sh_conn s)"
    and sni: "2 \<le> length (sc_sni c)" and here: "point i (sh_log s) pc" and hid: "nameless_pc c i (sh_log s) pc"
  shows "nameless_pc c i (sh_log s) pc'"
  unfolding nameless_pc_def
proof (intro allI impI, elim conjE)
  fix st b
  assume once: "names_once c (call_buf i (sh_log s))" and loop: "loop_of pc' = Some (st, b)"
  have params: "sc_sni (sh_conn s) = sc_sni c" "2 \<le> length (sc_sni (sh_conn s))"
    using same sni by (simp_all add: same_params_def)
  from go_step_loop [OF step loop] show "nameless c st b"
  proof (elim disjE exE conjE)
    fix st0 b0
    assume "loop_of pc = Some (st0, b0)" "continues st0 b0 st b"
    with hid once show ?thesis
      using nameless_continues unfolding nameless_pc_def by blast
  next
    fix b0 tot v
    assume "pc = Unlocks (LoopTest b0 tot) v"
    then have "loop_of pc = Some (Fragments, b0)"
      by simp
    with hid once show ?thesis
      unfolding nameless_pc_def nameless_def by blast
  next
    fix b0 v
    assume pc: "pc = Unlocks (EntryTest b0) v"
      and start: "if sc_sni (sh_conn s) = [] then st = Fragments else loop_of (split_start (sh_conn s) b0) = Some (st, b)"
    have "loop_of (split_start (sh_conn s) b0) = Some (st, b)"
      using start params by (auto split: if_splits)
    moreover have "names_once (sh_conn s) b0"
      using pc here once names_once_params [OF same] by simp
    ultimately have "nameless (sh_conn s) st b"
      using split_start_nameless params(2) by blast
    then show ?thesis
      using nameless_params [OF same] by simp
  qed
qed

lemma nameless_event_step:
  assumes step: "go_step wr rnd slp i s pc = Some (s', pc')" and "same_params c (sh_conn s)"
    and "nameless_pc c i (sh_log s) pc" and "all_events (nameless_event c) (sh_log s)"
  shows "all_events (nameless_event c) (sh_log s')"
  using step
proof (cases rule: go_step_event)
  case (3 st b tot seg n)
  have "\<not> contains seg (sc_sni c)" if "names_once c (call_buf i (sh_log s))"
  proof -
    have "nameless c st b"
      using that assms(3) 3(1) unfolding nameless_pc_def by simp
    moreover from this have "seg = b"
      using 3(2) by (cases st) (auto simp: nameless_def)
    ultimately show ?thesis
      by (simp add: nameless_def)
  qed
  with 3 assms(4) show ?thesis
    by simp
qed (use assms(4) in simp_all)

lemma call_buf_step:
  assumes "go_step wr rnd slp i s pc = Some (s', pc')"
  shows "call_buf j (sh_log s') = call_buf j (sh_log s)"
  using assms by (cases rule: go_step_event) simp_all

lemma nameless_pc_cong:
  "call_buf i l = call_buf i l' \<Longrightarrow> nameless_pc c i l pc = nameless_pc c i l' pc"
  by (simp add: nameless_pc_def)

context spoof_env begin

lemma inv_name_step:
  assumes "steps_to wr rnd slp S m T" and "inv_count c k S" and "inv_stream sent w c S" and "inv_name c S"
    and sni: "2 \<le> length (sc_sni c)"
  shows "inv_name c T"
proof -
  obtain s pcs where S: "S = (s, pcs)"
    by force
  note inv = assms(2-4) [unfolded S]
  from assms(1) [unfolded S] show ?thesis
  proof (cases rule: steps_to_cases)
    case (call i b)
    have "nameless_pc c j (Called i b # sh_log s) (pcs ! j)" if "j < length pcs" "j \<noteq> i" for j
      using inv(3) that nameless_pc_cong [of j "Called i b # sh_log s" "sh_log s"] by simp
    with inv call show ?thesis
      by (auto simp: nth_list_update nameless_pc_def)
  next
    case (run i s' pc)
    have same: "same_params c (sh_conn s)"
      using inv(1) by simp
    have here: "point i (sh_log s) (pcs ! i)" "nameless_pc c i (sh_log s) (pcs ! i)"
      using inv(2,3) run(2) by simp_all
    note keep = nameless_pc_cong [OF call_buf_step [OF run(3)]]
    have "nameless_pc c j (sh_log s') (pcs ! j)" if "j < length pcs" for j
      using inv(3) that keep by simp
    moreover have "nameless_pc c i (sh_log s') pc"
      using go_step_nameless [OF run(3) same sni here] keep by simp
    moreover have "all_events (nameless_event c) (sh_log s')"
      using nameless_event_step [OF run(3) same here(2)] inv(3) by simp
    ultimately show ?thesis
      using run(2,4) by (auto simp: nth_list_update)
  qed
qed

lemma name_reach:
  assumes "reach (steps_to wr rnd slp) (shared_conn w c k) S" and sni: "2 \<le> length (sc_sni c)"
  shows "inv_name c S"
  using assms(1)
proof (induction rule: reach.induct)
  case reach_init
  show ?case
    by (auto simp: shared_conn_def nameless_pc_def)
next
  case (reach_step S m T)
  show ?case
    using reach_step.hyps(2) _ _ reach_step.IH sni
  proof (rule inv_name_step)
    show "inv_count c k S"
      using counter.reach_inv [OF reach_step.hyps(1)] by blast
    show "inv_stream sent w c S"
      using stream_reach [OF reach_step.hyps(1)] .
  qed
qed

end

end
