(* ===== verification/SpoofConcurrentClaims.thy ===== *)
theory SpoofConcurrentClaims
  imports SpoofConcurrentGuard
begin

text \<open>
  The properties of concurrent writers on one \<^verbatim>\<open>SpoofConn\<close>, over every interleaving of their steps.
  The witnesses let two goroutines write on the connection of the tests.
\<close>

lemma counted_le_wire: "list_all accepted_event l \<Longrightarrow> counted l \<le> int (length (wire l))"
  by (induction l rule: counted.induct) (auto simp: min_def)

lemma steps_left_trace:
  assumes "trace (steps_to wr rnd slp) S ms T" and "list_all (\<lambda>m. \<exists>i. m = Run i) ms"
  shows "length ms + sum_list (map steps_left (snd T)) \<le> sum_list (map steps_left (snd S))"
proof (rule trace_length_le [OF _ assms])
  fix S m T
  assume step: "steps_to wr rnd slp S m T" and "\<exists>i. m = Run i"
  obtain s pcs where S: "S = (s, pcs)"
    by force
  from step [unfolded S] \<open>\<exists>i. m = Run i\<close>
  show "sum_list (map steps_left (snd T)) < sum_list (map steps_left (snd S))"
  proof (cases rule: steps_to_cases)
    case (run i s' pc)
    then show ?thesis
      using go_step_decreases [OF run(3)] member_le_sum_list [of "steps_left (pcs ! i)" "map steps_left pcs"]
      by (simp add: S map_update sum_list_update)
  qed auto
qed

text \<open>Two goroutines on a fresh connection of the tests, in the schedule \<open>ms\<close>.\<close>

definition demo_race :: "move list \<Rightarrow> fake_world system option" where
  "demo_race ms =
     sys_run fake_Write fake_rand fake_sleep (shared_conn (fresh_fake []) (NewSpoofConn 2 4 0 '''') 2) ms"

definition demo_split_race :: "move list \<Rightarrow> fake_world system option" where
  "demo_split_race ms =
     sys_run fake_Write fake_rand fake_sleep (shared_conn (fresh_fake []) (NewSpoofConn 2 4 0 ''ab'') 2) ms"

lemma two_goroutines: "replicate 2 x = [x, x]"
  by (simp add: numeral_2_eq_2)

lemmas demo_race_simps = two_goroutines demo_race_def demo_split_race_def shared_conn_def fresh_fake_def NewSpoofConn_def
  may_call_def stores_def conn_write_def fake_Write_def frag_size_def slice_to_def slice_from_def
  bytes_of_def split_start_def Let_def pause_def randDuration_def

definition race_start :: "move list" where
  "race_start = [Call 0 [1, 2, 3], Call 1 [7, 8, 9]] @ replicate 7 (Run 0) @ replicate 7 (Run 1)"

definition race_rest :: "move list" where
  "race_rest = replicate 4 (Run 0) @ replicate 4 (Run 1) @ replicate 11 (Run 0) @ replicate 11 (Run 1)"

definition split_race :: "move list" where
  "split_race = [Call 0 (bytes_of ''xxabyy''), Call 1 (bytes_of ''qq'')] @ replicate 9 (Run 0) @ replicate 8 (Run 1) @
     replicate 5 (Run 0)"

lemmas race_schedules = race_start_def [unfolded numeral_nat, simplified]
  race_rest_def [unfolded numeral_nat, simplified]
  split_race_def [unfolded numeral_nat, simplified]

text \<open>Both have sent a fragment and counted nothing yet; one of them holds the mutex.\<close>

lemma demo_race_mid:
  obtains s where "demo_race (race_start @ [Run 0, Run 0]) =
      Some (s, [Stores (Add Fragments [1, 2, 3] 0 2 None) 0, Locks (Add Fragments [7, 8, 9] 0 2 None)])"
    and "sc_bytesWritten (sh_conn s) = 0" and "sh_mutex s = Some 0" and "fc_writes (sh_world s) = [[1, 2], [7, 8]]"
    and "sh_log s = [Sent 1 [7, 8] 2 True, Sent 0 [1, 2] 2 True, Called 1 [7, 8, 9], Called 0 [1, 2, 3]]"
  by (simp add: race_schedules demo_race_simps)

text \<open>Both have returned: the two buffers are on the wire in alternating pieces.\<close>

lemma demo_race_end:
  obtains s where "demo_race (race_start @ race_rest) = Some (s, [Finished 3 None, Finished 3 None])"
    and "sc_bytesWritten (sh_conn s) = 6" and "fc_writes (sh_world s) = [[1, 2], [7, 8], [3], [9]]"
    and "sh_log s = [Sent 1 [9] 1 True, Sent 0 [3] 1 True, Sent 1 [7, 8] 2 True, Sent 0 [1, 2] 2 True,
      Called 1 [7, 8, 9], Called 0 [1, 2, 3]]"
  by (simp add: race_schedules demo_race_simps)

lemma demo_split_race_end:
  obtains s where "demo_split_race split_race = Some (s, [Finished 6 None, Finished 2 None])"
    and "fc_writes (sh_world s) = [bytes_of ''xxa'', bytes_of ''qq'', bytes_of ''byy'']"
    and "sh_log s = [Sent 0 (bytes_of ''byy'') 3 True, Sent 1 (bytes_of ''qq'') 2 True,
      Sent 0 (bytes_of ''xxa'') 3 True, Called 1 (bytes_of ''qq''), Called 0 (bytes_of ''xxabyy'')]"
  by (simp add: race_schedules demo_race_simps)

lemma demo_race_reach:
  "demo_race ms = Some S \<Longrightarrow>
    reach (steps_to fake_Write fake_rand fake_sleep) (shared_conn (fresh_fake []) (NewSpoofConn 2 4 0 '''') 2) S"
  "demo_split_race ms = Some S \<Longrightarrow>
    reach (steps_to fake_Write fake_rand fake_sleep) (shared_conn (fresh_fake []) (NewSpoofConn 2 4 0 ''ab'') 2) S"
  unfolding demo_race_def demo_split_race_def by (rule sys_run_reach; assumption)+

section \<open>The counter\<close>

text \<open>C24 Concurrent writers lose no update of \<^verbatim>\<open>bytesWritten\<close>, whatever the connection does: at most one
  goroutine is between \<^verbatim>\<open>mu.Lock\<close> and \<^verbatim>\<open>mu.Unlock\<close>, the counter and the counts still to be added
  always make up what the counted writes returned, and when no call is under way the counter is
  exactly their sum.\<close>

theorem concurrent_no_lost_update:
  assumes "reach (steps_to wr rnd slp) (shared_conn w c k) (s, pcs)"
  shows "(\<forall>i < k. \<forall>j < k. in_section (pcs ! i) \<and> in_section (pcs ! j) \<longrightarrow> i = j) \<and>
    sc_bytesWritten (sh_conn s) + sum_list (map pending pcs) = sc_bytesWritten c + counted (sh_log s) \<and>
    ((\<forall>pc \<in> set pcs. may_call pc) \<longrightarrow>
      sc_bytesWritten (sh_conn s) = sc_bytesWritten c + counted (sh_log s))"
proof -
  have inv: "inv_mutex (s, pcs)" "inv_count c k (s, pcs)"
    using counter.reach_inv [OF assms] by blast+
  have "sum_list (map pending pcs) = 0" if "\<forall>pc \<in> set pcs. may_call pc"
  proof -
    have "map pending pcs = map (\<lambda>_. 0) pcs"
      using that may_call_rests resting_def by (intro map_cong) blast+
    then show ?thesis
      by (metis sum_list_0)
  qed
  with inv show ?thesis
    by auto
qed

theorem concurrent_no_lost_update_witness:
  "(\<exists>s pcs. demo_race (race_start @ [Run 0, Run 0]) = Some (s, pcs) \<and> sc_bytesWritten (sh_conn s) = 0 \<and>
      sum_list (map pending pcs) = 4 \<and> counted (sh_log s) = 4)"
proof (rule demo_race_mid)
  fix s
  assume run: "demo_race (race_start @ [Run 0, Run 0]) =
      Some (s, [Stores (Add Fragments [1, 2, 3] 0 2 None) 0, Locks (Add Fragments [7, 8, 9] 0 2 None)])"
    and "sc_bytesWritten (sh_conn s) = 0"
  with concurrent_no_lost_update [OF demo_race_reach(1) [OF run]] show ?thesis
    by (auto simp: NewSpoofConn_def)
qed

section \<open>The bytes\<close>

text \<open>C25 Racing writers on a connection that keeps the \<^verbatim>\<open>io.Writer\<close> contract never panic and never mix up
  their own bytes: the connection has accepted exactly the pieces of the history in order, each
  goroutine has sent a prefix of the buffer of its call, a returned count is the length of that
  prefix, and a call without error that stayed in the handshake phase has sent its whole buffer.\<close>

theorem concurrent_stream:
  assumes "spoof_env wr sent rnd slp" and "reach (steps_to wr rnd slp) (shared_conn w c k) (s, pcs)"
  shows "sent (sh_world s) = sent w @ wire (sh_log s) \<and>
    (\<forall>i < k. pcs ! i \<noteq> Panicked \<and>
      call_sent i (sh_log s) = take (length (call_sent i (sh_log s))) (call_buf i (sh_log s)) \<and>
      (\<forall>n err. pcs ! i = Finished n err \<longrightarrow>
        n = int (length (call_sent i (sh_log s))) \<and>
        (err = None \<and> \<not> call_passed i (sh_log s) \<longrightarrow> call_sent i (sh_log s) = call_buf i (sh_log s))))"
proof -
  have len: "length pcs = k"
    using counter.reach_inv [OF assms(2)] by simp
  have inv: "inv_stream sent w c (s, pcs)"
    using assms by (rule spoof_env.stream_reach)
  have "pcs ! i \<noteq> Panicked \<and>
      call_sent i (sh_log s) = take (length (call_sent i (sh_log s))) (call_buf i (sh_log s)) \<and>
      (\<forall>n err. pcs ! i = Finished n err \<longrightarrow>
        n = int (length (call_sent i (sh_log s))) \<and>
        (err = None \<and> \<not> call_passed i (sh_log s) \<longrightarrow> call_sent i (sh_log s) = call_buf i (sh_log s)))"
    if "i < k" for i
  proof -
    have "point i (sh_log s) (pcs ! i)"
      using inv that len by simp
    then show ?thesis
      using point_prefix [of i "sh_log s" "pcs ! i"] by (auto simp: ended_at_def)
  qed
  with inv show ?thesis
    by auto
qed

theorem concurrent_stream_witness:
  "\<exists>s pcs. demo_race (race_start @ race_rest) = Some (s, pcs) \<and>
    concat (fc_writes (sh_world s)) = [1, 2, 7, 8, 3, 9] \<and>
    call_sent 0 (sh_log s) = [1, 2, 3] \<and> call_sent 1 (sh_log s) = [7, 8, 9]"
proof (rule demo_race_end)
  fix s
  assume run: "demo_race (race_start @ race_rest) = Some (s, [Finished 3 None, Finished 3 None])"
    and l: "sh_log s = [Sent 1 [9] 1 True, Sent 0 [3] 1 True, Sent 1 [7, 8] 2 True, Sent 0 [1, 2] 2 True,
      Called 1 [7, 8, 9], Called 0 [1, 2, 3]]"
  note all = concurrent_stream [OF fake.spoof_env_axioms demo_race_reach(1) [OF run]]
  have "concat (fc_writes (sh_world s)) = [1, 2, 7, 8, 3, 9]"
    using all by (simp add: l fresh_fake_def)
  moreover have "call_sent i (sh_log s) = call_buf i (sh_log s)" if "i = 0 \<or> i = 1" for i
    using all that by (auto simp: l)
  ultimately show ?thesis
    using run by (auto simp: l)
qed

section \<open>The handshake phase\<close>

text \<open>C17 However writers race, no byte of the handshake phase leaves unsplit: a write that is not counted,
  and without a server name a segment longer than a fragment, is made only when the connection has
  already accepted \<^verbatim>\<open>handshakeLen\<close> bytes.\<close>

theorem concurrent_handshake_guard:
  assumes "spoof_env wr sent rnd slp"
    and "reach (steps_to wr rnd slp) (shared_conn w (NewSpoofConn fs hl md sni) k) (s, pcs)"
    and "sh_log s = newer @ Sent i seg n is_counted # older"
    and "is_counted \<longrightarrow> sni = [] \<and> (if 0 < fs then fs else 2) < int (length seg)"
  shows "hl \<le> int (length (wire older))"
proof -
  let ?c = "NewSpoofConn fs hl md sni"
  have "inv_guard ?c (s, pcs)" "inv_stream sent w ?c (s, pcs)"
    using spoof_env.guard_reach [OF assms(1,2)] spoof_env.stream_reach [OF assms(1,2)] .
  then have "all_events (guarded ?c) (sh_log s)" "list_all accepted_event older"
    using assms(3) by auto
  then have "guarded ?c (Sent i seg n is_counted) older" "list_all accepted_event older"
    using all_events_split assms(3) by blast+
  then show ?thesis
    using assms(4) counted_le_wire [of older]
    by (auto simp: NewSpoofConn_def frag_size_def defaultFragmentSize_def split: if_splits)
qed

theorem concurrent_handshake_guard_witness:
  "\<exists>s pcs older. demo_race (race_start @ race_rest @ [Call 0 [5, 6, 7]] @ replicate 4 (Run 0)) = Some (s, pcs) \<and>
    sh_log s = Sent 0 [5, 6, 7] 3 False # older \<and> 4 \<le> int (length (wire older))"
proof -
  obtain s pcs older where run:
      "demo_race (race_start @ race_rest @ [Call 0 [5, 6, 7]] @ replicate 4 (Run 0)) = Some (s, pcs)"
    and l: "sh_log s = [] @ Sent 0 [5, 6, 7] 3 False # older"
    by (simp add: race_schedules demo_race_simps numeral_nat)
  from concurrent_handshake_guard [OF fake.spoof_env_axioms demo_race_reach(1) [OF run] l] run l show ?thesis
    by simp
qed

text \<open>C8 In split mode, racing writers never show the server name in a handshake-phase write: if the name
  (of at least two bytes) occurs at most once in the buffer of a call, no counted write of that call
  contains it, whatever the connection accepts and however the other goroutines interleave.\<close>

theorem concurrent_name_hidden:
  assumes "spoof_env wr sent rnd slp" and "reach (steps_to wr rnd slp) (shared_conn w c k) (s, pcs)"
    and "2 \<le> length (sc_sni c)" and "sh_log s = newer @ Sent i seg n True # older"
    and "names_once c (call_buf i older)"
  shows "\<not> contains seg (sc_sni c)"
proof -
  have "inv_name c (s, pcs)"
    using assms(1-3) by (rule spoof_env.name_reach)
  then have "all_events (nameless_event c) (sh_log s)"
    by simp
  then have "nameless_event c (Sent i seg n True) older"
    using assms(4) by (rule all_events_split)
  with assms(5) show ?thesis
    by simp
qed

lemma demo_named_once: "names_once (NewSpoofConn 2 4 0 ''ab'') (bytes_of ''xxabyy'')"
proof -
  have "j = 2" if "occurs_at (bytes_of ''ab'') (bytes_of ''xxabyy'') j" for j
  proof -
    have "j \<le> 4"
      using occurs_at_bound [OF that] by simp
    then have "j = 0 \<or> j = 1 \<or> j = 2 \<or> j = 3 \<or> j = 4"
      by linarith
    then show ?thesis
      using that by (auto simp: occurs_at_def bytes_of_def)
  qed
  then show ?thesis
    unfolding names_once_def NewSpoofConn_def by (metis spoof_conn.select_convs(5))
qed

theorem concurrent_name_hidden_witness:
  "\<exists>s pcs. demo_split_race split_race = Some (s, pcs) \<and> length (fc_writes (sh_world s)) = 3 \<and>
    \<not> contains (bytes_of ''byy'') (bytes_of ''ab'')"
proof (rule demo_split_race_end)
  let ?c = "NewSpoofConn 2 4 0 ''ab''"
  fix s
  assume run: "demo_split_race split_race = Some (s, [Finished 6 None, Finished 2 None])"
    and w: "fc_writes (sh_world s) = [bytes_of ''xxa'', bytes_of ''qq'', bytes_of ''byy'']"
    and l: "sh_log s = [Sent 0 (bytes_of ''byy'') 3 True, Sent 1 (bytes_of ''qq'') 2 True,
      Sent 0 (bytes_of ''xxa'') 3 True, Called 1 (bytes_of ''qq''), Called 0 (bytes_of ''xxabyy'')]"
  have sni: "sc_sni ?c = bytes_of ''ab''"
    by (simp add: NewSpoofConn_def)
  have once: "names_once ?c (call_buf 0 (tl (sh_log s)))"
    using demo_named_once by (simp add: l)
  have "2 \<le> length (sc_sni ?c)" "sh_log s = [] @ Sent 0 (bytes_of ''byy'') 3 True # tl (sh_log s)"
    by (simp_all add: sni l)
  from concurrent_name_hidden [OF fake.spoof_env_axioms demo_race_reach(2) [OF run] this once]
  have "\<not> contains (bytes_of ''byy'') (bytes_of ''ab'')"
    by (simp add: sni)
  with run w show ?thesis
    by simp
qed

section \<open>Returning\<close>

text \<open>C26 Racing writers all return: without new calls, the goroutines have at most \<open>14 * n + 18\<close> steps
  left for each buffer of \<open>n\<close> bytes, under any schedule, and as long as a call is under way some
  goroutine can take a step. The mutex never deadlocks, and the connection may be as slow as it
  likes in accepting bytes.\<close>

theorem concurrent_writes_return:
  assumes "spoof_env wr sent rnd slp" and "reach (steps_to wr rnd slp) (shared_conn w c k) (s, pcs)"
    and "trace (steps_to wr rnd slp) (s, pcs) ms (t, qcs)" and "list_all (\<lambda>m. \<exists>i. m = Run i) ms"
  shows "length ms \<le> (\<Sum>i\<leftarrow>[0..<k]. 14 * length (call_buf i (sh_log s)) + 18) \<and>
    ((\<forall>pc \<in> set qcs. may_call pc) \<or> (\<exists>j T. steps_to wr rnd slp (t, qcs) (Run j) T))"
proof -
  have reach_t: "reach (steps_to wr rnd slp) (shared_conn w c k) (t, qcs)"
    using trace_reach [OF assms(3,2)] .
  have len: "length pcs = k"
    using counter.reach_inv [OF assms(2)] by simp
  have points: "\<And>i. i < k \<Longrightarrow> point i (sh_log s) (pcs ! i)" "\<And>i. i < length qcs \<Longrightarrow> point i (sh_log t) (qcs ! i)"
    using spoof_env.stream_reach [OF assms(1,2)] spoof_env.stream_reach [OF assms(1) reach_t] len by simp_all
  have "length ms \<le> sum_list (map steps_left pcs)"
    using steps_left_trace [OF assms(3,4)] by simp
  also have "map steps_left pcs = map (\<lambda>i. steps_left (pcs ! i)) [0..<k]"
    by (rule nth_equalityI) (simp_all add: len)
  also have "sum_list \<dots> \<le> (\<Sum>i\<leftarrow>[0..<k]. 14 * length (call_buf i (sh_log s)) + 18)"
    using points(1) by (intro sum_list_mono point_left) simp
  finally have bound: "length ms \<le> (\<Sum>i\<leftarrow>[0..<k]. 14 * length (call_buf i (sh_log s)) + 18)" .
  have "\<exists>j T. steps_to wr rnd slp (t, qcs) (Run j) T" if mem: "pc \<in> set qcs" and busy: "\<not> may_call pc" for pc
  proof -
    obtain i where i: "i < length qcs" "qcs ! i = pc"
      using mem unfolding in_set_conv_nth by blast
    then have "qcs ! i \<noteq> Panicked"
      using points(2) [of i] by auto
    then show ?thesis
      using some_goroutine_runs [OF mutexes.reach_inv [OF reach_t] i(1)] busy i(2) by blast
  qed
  with bound show ?thesis
    by blast
qed

theorem concurrent_writes_return_witness:
  "\<exists>S j T. demo_race race_start = Some S \<and> steps_to fake_Write fake_rand fake_sleep S (Run j) T"
proof -
  obtain s pcs where run: "demo_race race_start = Some (s, pcs)" and busy: "\<not> may_call (hd pcs)" "pcs \<noteq> []"
    by (simp add: race_schedules demo_race_simps)
  from concurrent_writes_return [OF fake.spoof_env_axioms demo_race_reach(1) [OF run] trace_Nil] busy run
  show ?thesis
    by (metis list.pred_inject(1) list.set_sel(1))
qed

section \<open>One writer\<close>

text \<open>C11 The step model refines nothing away: a goroutine that runs alone from a free mutex reaches an end,
  with the connection, the counter and the result of the function \<open>spoof_Write\<close>, and it can reach no
  other. What is proved of the function holds of the code with its locks.\<close>

theorem write_alone:
  assumes "sh_mutex s = None"
    and "spoof_Write wr rnd slp (sh_world s) (sh_conn s) b = (w', c', r)"
  shows "(\<exists>t. (alone wr rnd slp i)\<^sup>*\<^sup>* (s, Locks (EntryTest b)) (t, call_ends r) \<and>
      sh_world t = w' \<and> sh_conn t = c' \<and> sh_mutex t = None) \<and>
    (\<forall>t pc. (alone wr rnd slp i)\<^sup>*\<^sup>* (s, Locks (EntryTest b)) (t, pc) \<and> (\<forall>y. \<not> alone wr rnd slp i (t, pc) y) \<longrightarrow>
      pc = call_ends r \<and> sh_world t = w' \<and> sh_conn t = c' \<and> sh_mutex t = None)"
proof -
  have "at s (sh_world s) (sh_conn s)"
    using assms(1) by (simp add: at_def)
  from alone_call [OF this assms(2)] obtain t where
    run: "(alone wr rnd slp i)\<^sup>*\<^sup>* (s, Locks (EntryTest b)) (t, call_ends r)" and t: "at t w' c'"
    by blast
  have "pc = call_ends r \<and> t' = t"
    if "(alone wr rnd slp i)\<^sup>*\<^sup>* (s, Locks (EntryTest b)) (t', pc)" "\<forall>y. \<not> alone wr rnd slp i (t', pc) y" for t' pc
  proof -
    have "(t', pc) = (t, call_ends r)"
      using alone_unique_end [OF run that(1)] call_ends_final that(2) by blast
    then show ?thesis
      by simp
  qed
  moreover have "sh_world t = w' \<and> sh_conn t = c' \<and> sh_mutex t = None"
    using t by (simp add: at_def)
  ultimately show ?thesis
    using run by blast
qed

theorem write_alone_witness:
  "\<exists>t. (alone fake_Write fake_rand fake_sleep 3)\<^sup>*\<^sup>*
      (fst (shared_conn (fresh_fake []) (NewSpoofConn 2 4 0 '''') 1), Locks (EntryTest [1, 2, 3, 4, 5, 6]))
      (t, Finished 6 None) \<and>
    fc_writes (sh_world t) = [[1, 2], [3, 4], [5, 6]]"
proof -
  let ?s = "fst (shared_conn (fresh_fake []) (NewSpoofConn 2 4 0 '''') 1)"
  have free: "sh_mutex ?s = None"
    by (simp add: shared_conn_def)
  have "spoof_Write fake_Write fake_rand fake_sleep (sh_world ?s) (sh_conn ?s) [1, 2, 3, 4, 5, 6] =
      (\<lparr>fc_writes = [[1, 2], [3, 4], [5, 6]], fc_closed = False, fw_rands = [], fw_sleeps = []\<rparr>,
       (NewSpoofConn 2 4 0 '''')\<lparr>sc_bytesWritten := 6\<rparr>, Return (6, None))"
    by (simp add: shared_conn_def NewSpoofConn_def fresh_fake_def spoof_Write_def past_handshake_def
        fragmentedWrite_def frag_size_def frag_loop.simps write_all.simps Let_def slice_to_def slice_from_def
        fake_Write_def count_written_def fragment_pause_def pause_disabled)
  from write_alone [OF free this, of 3, THEN conjunct1] obtain t where
    "(alone fake_Write fake_rand fake_sleep 3)\<^sup>*\<^sup>* (?s, Locks (EntryTest [1, 2, 3, 4, 5, 6]))
      (t, call_ends (Return (6, None)))" "fc_writes (sh_world t) = [[1, 2], [3, 4], [5, 6]]"
    by auto
  then show ?thesis
    unfolding call_ends.simps by blast
qed

end
