(* ===== verification/CertChain.thy ===== *)
theory CertChain
  imports Prelude
begin

text \<open>
  \<^verbatim>\<open>src/tls-camouflage.go\<close>, the server certificate: the generated two-certificate chain, the random
  serial numbers, the cache that generates once per server name, and the server's TLS
  configuration. The cryptographic library (\<^verbatim>\<open>crypto/ecdsa\<close>, \<^verbatim>\<open>crypto/rand\<close>, \<^verbatim>\<open>crypto/x509\<close>) and
  the clock are the fields of the parameter record \<open>crypto\<close>; what it documents of its
  functions is the hypothesis \<open>x509_documented\<close>.
\<close>

section \<open>Certificates\<close>

datatype key_usage = KeyUsageDigitalSignature | KeyUsageCertSign | KeyUsageCRLSign

datatype ext_key_usage = ExtKeyUsageServerAuth

record pkix_name =
  pn_CommonName :: string
  pn_Organization :: "string list"
  pn_Country :: "string list"
  pn_Province :: "string list"
  pn_Locality :: "string list"

text \<open>The fields of \<^verbatim>\<open>x509.Certificate\<close> the code sets; times are in nanoseconds.\<close>

record x509_cert =
  xc_SerialNumber :: int
  xc_Subject :: pkix_name
  xc_DNSNames :: "string list"
  xc_NotBefore :: int
  xc_NotAfter :: int
  xc_IsCA :: bool
  xc_KeyUsage :: "key_usage set"
  xc_ExtKeyUsage :: "ext_key_usage list"
  xc_BasicConstraintsValid :: bool
  xc_MaxPathLen :: int
  xc_MaxPathLenZero :: bool

record ('key, 'der) tls_certificate =
  tc_Certificate :: "'der list"
  tc_PrivateKey :: 'key

record ('w, 'key, 'pub, 'der) crypto =
  cr_GenerateKey :: "('w, 'key) act"
  cr_PublicKey :: "'key \<Rightarrow> 'pub"
  cr_Int :: "int \<Rightarrow> ('w, int) act"
  cr_Now :: "'w \<Rightarrow> 'w \<times> int"
  cr_CreateCertificate :: "x509_cert \<Rightarrow> x509_cert \<Rightarrow> 'pub \<Rightarrow> 'key \<Rightarrow> ('w, 'der) act"
  cr_ParseCertificate :: "'der \<Rightarrow> goerror + x509_cert"

definition time_Second :: int where
  "time_Second = 1000000000"

definition time_Hour :: int where
  "time_Hour = 3600 * time_Second"

section \<open>The chain\<close>

definition randomSerial :: "('w, 'key, 'pub, 'der) crypto \<Rightarrow> ('w, int) act" where
  "randomSerial K = wrapE ''generate serial number: '' (cr_Int K (2 ^ 128))"

definition ca_template :: "int \<Rightarrow> int \<Rightarrow> int \<Rightarrow> x509_cert" where
  "ca_template serial t1 t2 =
     \<lparr>xc_SerialNumber = serial,
      xc_Subject =
        \<lparr>pn_CommonName = ''Cloudflare Inc ECC CA-3'',
         pn_Organization = [''Cloudflare, Inc.''],
         pn_Country = [''US''],
         pn_Province = [],
         pn_Locality = []\<rparr>,
      xc_DNSNames = [],
      xc_NotBefore = t1 + - 365 * 24 * time_Hour,
      xc_NotAfter = t2 + 5 * 365 * 24 * time_Hour,
      xc_IsCA = True,
      xc_KeyUsage = {KeyUsageCertSign, KeyUsageCRLSign},
      xc_ExtKeyUsage = [],
      xc_BasicConstraintsValid = True,
      xc_MaxPathLen = 0,
      xc_MaxPathLenZero = True\<rparr>"

definition leaf_template :: "string \<Rightarrow> int \<Rightarrow> int \<Rightarrow> int \<Rightarrow> x509_cert" where
  "leaf_template sni serial t1 t2 =
     \<lparr>xc_SerialNumber = serial,
      xc_Subject =
        \<lparr>pn_CommonName = sni,
         pn_Organization = [''Cloudflare, Inc.''],
         pn_Country = [''US''],
         pn_Province = [''California''],
         pn_Locality = [''San Francisco'']\<rparr>,
      xc_DNSNames = [sni],
      xc_NotBefore = t1 + - 30 * 24 * time_Hour,
      xc_NotAfter = t2 + 335 * 24 * time_Hour,
      xc_IsCA = False,
      xc_KeyUsage = {KeyUsageDigitalSignature},
      xc_ExtKeyUsage = [ExtKeyUsageServerAuth],
      xc_BasicConstraintsValid = True,
      xc_MaxPathLen = 0,
      xc_MaxPathLenZero = False\<rparr>"

definition generateCertChain :: "('w, 'key, 'pub, 'der) crypto \<Rightarrow> string \<Rightarrow>
    ('w, ('key, 'der) tls_certificate) act" where
  "generateCertChain K sni =
     bindE (wrapE ''generate CA key: '' (cr_GenerateKey K)) (\<lambda>caKey.
     bindE (randomSerial K) (\<lambda>caSerial.
     bindE (liftE (cr_Now K)) (\<lambda>caFrom.
     bindE (liftE (cr_Now K)) (\<lambda>caTo.
     let caTemplate = ca_template caSerial caFrom caTo in
     bindE (wrapE ''create CA certificate: ''
       (cr_CreateCertificate K caTemplate caTemplate (cr_PublicKey K caKey) caKey)) (\<lambda>caCertDER.
     bindE (wrapE ''parse CA certificate: '' (\<lambda>w. (w, cr_ParseCertificate K caCertDER))) (\<lambda>caCert.
     bindE (wrapE ''generate leaf key: '' (cr_GenerateKey K)) (\<lambda>leafKey.
     bindE (randomSerial K) (\<lambda>leafSerial.
     bindE (liftE (cr_Now K)) (\<lambda>leafFrom.
     bindE (liftE (cr_Now K)) (\<lambda>leafTo.
     let leafTemplate = leaf_template sni leafSerial leafFrom leafTo in
     bindE (wrapE ''create leaf certificate: ''
       (cr_CreateCertificate K leafTemplate caCert (cr_PublicKey K leafKey) caKey)) (\<lambda>leafCertDER.
     okE \<lparr>tc_Certificate = [leafCertDER, caCertDER], tc_PrivateKey = leafKey\<rparr>)))))))))))"

section \<open>The cache\<close>

record ('key, 'der) certCache =
  ch_cert :: "('key, 'der) tls_certificate option"
  ch_sni :: string

definition empty_certCache :: "('key, 'der) certCache" where
  "empty_certCache = \<lparr>ch_cert = None, ch_sni = []\<rparr>"

definition getOrGenerate :: "('w, 'key, 'pub, 'der) crypto \<Rightarrow> ('key, 'der) certCache \<Rightarrow> string \<Rightarrow> 'w \<Rightarrow>
    'w \<times> ('key, 'der) certCache \<times> (goerror + ('key, 'der) tls_certificate)" where
  "getOrGenerate K c sni w =
     (if ch_cert c \<noteq> None \<and> ch_sni c = sni then (w, c, Inr (the (ch_cert c)))
      else (case generateCertChain K sni w of
              (w', Inl err) \<Rightarrow> (w', c, Inl err)
            | (w', Inr crt) \<Rightarrow> (w', c\<lparr>ch_cert := Some crt, ch_sni := sni\<rparr>, Inr crt)))"

section \<open>The server configuration\<close>

record ('key, 'der) tls_config =
  tl_Certificates :: "('key, 'der) tls_certificate list"
  tl_NextProtos :: "string list"
  tl_MinVersion :: int

definition VersionTLS12 :: int where
  "VersionTLS12 = 0x0303"

definition buildServerTLSConfig :: "('w, 'key, 'pub, 'der) crypto \<Rightarrow> string \<Rightarrow> string list \<Rightarrow>
    ('key, 'der) certCache \<Rightarrow> 'w \<Rightarrow> 'w \<times> ('key, 'der) certCache \<times> (goerror + ('key, 'der) tls_config)" where
  "buildServerTLSConfig K sni alpn cache w =
     (case getOrGenerate K cache sni w of
        (w', cache', Inl err) \<Rightarrow> (w', cache', Inl (Errorf ''generate server certificate: '' err))
      | (w', cache', Inr crt) \<Rightarrow>
          (w', cache', Inr \<lparr>tl_Certificates = [crt], tl_NextProtos = alpn, tl_MinVersion = VersionTLS12\<rparr>))"

section \<open>What the library documents\<close>

text \<open>
  Of a certificate other code sees whether a key verifies its signature, the key it certifies, and the
  name of its issuer.
\<close>

record ('pub, 'der) x509_reader =
  xr_verifies :: "'der \<Rightarrow> 'pub \<Rightarrow> bool"
  xr_PublicKey :: "'der \<Rightarrow> 'pub"
  xr_Issuer :: "'der \<Rightarrow> pkix_name"

definition to_second :: "int \<Rightarrow> int" where
  "to_second t = t div time_Second * time_Second"

lemma to_second_le: "to_second t \<le> t"
  using div_mult_mod_eq [of t time_Second] pos_mod_sign [of time_Second t]
  unfolding to_second_def time_Second_def by linarith

lemma to_second_gt: "t - time_Second < to_second t"
  using div_mult_mod_eq [of t time_Second] pos_mod_bound [of time_Second t]
  unfolding to_second_def time_Second_def by linarith

text \<open>
  What a certificate \<open>c\<close> that was parsed shares with the template \<open>t\<close> it was created from. Times are
  encoded in seconds. Of the path length the library documents that a field left unset parses as -1,
  and that a CA's explicit zero is marked by \<^verbatim>\<open>MaxPathLenZero\<close>.
\<close>

definition same_path_len :: "x509_cert \<Rightarrow> x509_cert \<Rightarrow> bool" where
  "same_path_len t c \<longleftrightarrow>
     (xc_MaxPathLen t = 0 \<and> \<not> xc_MaxPathLenZero t \<longrightarrow> xc_MaxPathLen c = -1 \<and> \<not> xc_MaxPathLenZero c) \<and>
     (xc_IsCA t \<and> xc_MaxPathLen t = 0 \<and> xc_MaxPathLenZero t \<longrightarrow> xc_MaxPathLen c = 0 \<and> xc_MaxPathLenZero c) \<and>
     (xc_IsCA t \<and> 0 < xc_MaxPathLen t \<longrightarrow> xc_MaxPathLen c = xc_MaxPathLen t)"

definition encodes :: "x509_cert \<Rightarrow> x509_cert \<Rightarrow> bool" where
  "encodes t c \<longleftrightarrow>
     xc_SerialNumber c = xc_SerialNumber t \<and> xc_Subject c = xc_Subject t \<and> xc_DNSNames c = xc_DNSNames t \<and>
     xc_NotBefore c = to_second (xc_NotBefore t) \<and> xc_NotAfter c = to_second (xc_NotAfter t) \<and>
     xc_KeyUsage c = xc_KeyUsage t \<and> xc_ExtKeyUsage c = xc_ExtKeyUsage t \<and>
     (xc_BasicConstraintsValid t \<longrightarrow>
        xc_BasicConstraintsValid c \<and> xc_IsCA c = xc_IsCA t \<and> same_path_len t c)"

text \<open>
  \<^verbatim>\<open>x509.CreateCertificate\<close> makes a certificate from the template, for the given public key, issued by
  the parent's subject and signed with the given private key; \<^verbatim>\<open>rand.Int\<close> is below its bound.
\<close>

definition x509_documented :: "('w, 'key, 'pub, 'der) crypto \<Rightarrow> ('pub, 'der) x509_reader \<Rightarrow> bool" where
  "x509_documented K X \<longleftrightarrow>
     (\<forall>t p pub key w w' der. cr_CreateCertificate K t p pub key w = (w', Inr der) \<longrightarrow>
        (\<forall>c. cr_ParseCertificate K der = Inr c \<longrightarrow> encodes t c) \<and> xr_PublicKey X der = pub \<and>
        xr_Issuer X der = xc_Subject p \<and> xr_verifies X der (cr_PublicKey K key)) \<and>
     (\<forall>m w w' n. cr_Int K m w = (w', Inr n) \<longrightarrow> 0 \<le> n \<and> n < m)"

lemma documented_create:
  assumes "x509_documented K X" and "cr_CreateCertificate K t p pub key w = (w', Inr der)"
  shows "cr_ParseCertificate K der = Inr c \<Longrightarrow> encodes t c" and "xr_PublicKey X der = pub"
    and "xr_Issuer X der = xc_Subject p" and "xr_verifies X der (cr_PublicKey K key)"
  using assms unfolding x509_documented_def by blast+

lemma documented_serial:
  "x509_documented K X \<Longrightarrow> randomSerial K w = (w', Inr n) \<Longrightarrow> 0 \<le> n \<and> n < 2 ^ 128"
  by (auto simp: x509_documented_def randomSerial_def go_simps)

text \<open>
  The clock never runs backwards: \<open>clk\<close> is the time in a world, which \<^verbatim>\<open>time.Now\<close> reads and no
  other operation sets back.
\<close>

definition clock_documented :: "('w, 'key, 'pub, 'der) crypto \<Rightarrow> ('w \<Rightarrow> int) \<Rightarrow> bool" where
  "clock_documented K clk \<longleftrightarrow>
     (\<forall>w w' t. cr_Now K w = (w', t) \<longrightarrow> clk w \<le> t \<and> t \<le> clk w') \<and>
     (\<forall>w w' r. cr_GenerateKey K w = (w', r) \<longrightarrow> clk w \<le> clk w') \<and>
     (\<forall>m w w' r. cr_Int K m w = (w', r) \<longrightarrow> clk w \<le> clk w') \<and>
     (\<forall>t p pub key w w' r. cr_CreateCertificate K t p pub key w = (w', r) \<longrightarrow> clk w \<le> clk w')"

lemma clock_documentedD:
  assumes "clock_documented K clk"
  shows "cr_Now K w = (w', t) \<Longrightarrow> clk w \<le> t" and "cr_Now K w = (w', t) \<Longrightarrow> t \<le> clk w'"
    and "cr_CreateCertificate K tm p pub key w = (w', r) \<Longrightarrow> clk w \<le> clk w'"
  using assms unfolding clock_documented_def by blast+

text \<open>The steps a successful generation went through.\<close>

lemma generateCertChain_Inr:
  assumes "generateCertChain K sni w = (w', Inr crt)"
  obtains caKey leafKey caCert caDER leafDER s1 s2 t1 t2 t3 t4 u1 u1' u2 u2' v1 v1' v2 v3 v4
  where "cr_CreateCertificate K (leaf_template sni s2 t3 t4) caCert
          (cr_PublicKey K leafKey) caKey v4 = (w', Inr leafDER)"
    and "cr_Now K v3 = (v4, t4)" and "cr_Now K v2 = (v3, t3)"
    and "randomSerial K u2 = (u2', Inr s2)"
    and "cr_ParseCertificate K caDER = Inr caCert"
    and "cr_CreateCertificate K (ca_template s1 t1 t2) (ca_template s1 t1 t2)
          (cr_PublicKey K caKey) caKey v1 = (v1', Inr caDER)"
    and "randomSerial K u1 = (u1', Inr s1)"
    and "crt = \<lparr>tc_Certificate = [leafDER, caDER], tc_PrivateKey = leafKey\<rparr>"
proof -
  note assms [unfolded generateCertChain_def Let_def]
  then show thesis
    by (elim bindE_InrE)
      (simp only: wrapE_Inr_iff liftE_Inr_iff okE_eq sum.inject prod.inject, clarify,
        rule that, assumption+)
qed

text \<open>The prefixes under which a failure is reported.\<close>

definition cert_error_prefixes :: "string list" where
  "cert_error_prefixes =
     [''generate CA key: '', ''generate serial number: '', ''create CA certificate: '',
      ''parse CA certificate: '', ''generate leaf key: '', ''create leaf certificate: '']"

lemma generateCertChain_Inl:
  fixes K :: "('w, 'key, 'pub, 'der) crypto"
  assumes "generateCertChain K sni w = (w', Inl e)"
  obtains p e' where "e = Errorf p e'" and "p \<in> set cert_error_prefixes"
proof -
  have pre: "set cert_error_prefixes =
     {''generate CA key: '', ''generate serial number: '', ''create CA certificate: '',
      ''parse CA certificate: '', ''generate leaf key: '', ''create leaf certificate: ''}"
    by (simp add: cert_error_prefixes_def)
  have ok: "okE a u \<noteq> (w', Inl e)" for a :: "('key, 'der) tls_certificate" and u :: 'w
    by (simp add: okE_def)
  note assms [unfolded generateCertChain_def randomSerial_def Let_def]
  then show thesis
    by (elim bindE_InlE)
      ((simp only: wrapE_Inl_iff, elim exE conjE, rule that, assumption, simp only: pre insert_iff simp_thms)
        | (simp only: liftE_not_Inl ok))+
qed

section \<open>A memo per server name\<close>

text \<open>
  What a client of the cache relies on: what it got it will get again, unchanged and without
  touching the world, as long as it asks for the same name; a failure changes nothing.
\<close>

locale memo_source =
  fixes get :: "'c \<Rightarrow> 'k \<Rightarrow> 'w \<Rightarrow> 'w \<times> 'c \<times> (goerror + 'v)"
    and holds :: "'c \<Rightarrow> 'k \<Rightarrow> 'v \<Rightarrow> bool"
  assumes get_stores: "get c k w = (w', c', Inr v) \<Longrightarrow> holds c' k v"
    and get_hit: "holds c k v \<Longrightarrow> get c k w = (w, c, Inr v)"
    and get_fails: "get c k w = (w', c', Inl e) \<Longrightarrow> c' = c"
begin

lemma get_again: "get c k w = (w', c', Inr v) \<Longrightarrow> get c' k u = (u, c', Inr v)"
  by (blast intro: get_hit get_stores)

lemma get_unique: "holds c k v \<Longrightarrow> holds c k v' \<Longrightarrow> v = v'"
  using get_hit [of c k v] get_hit [of c k v'] by (metis prod.inject sum.inject(2))

end

interpretation cache: memo_source "getOrGenerate K" "\<lambda>c sni crt. ch_cert c = Some crt \<and> ch_sni c = sni" for K
  by unfold_locales (auto simp: getOrGenerate_def split: if_splits prod.splits sum.splits)

end
