(* ===== verification/CertClaims.thy ===== *)
theory CertClaims
  imports CertChain
begin

text \<open>
  The properties of the generated certificate chain and its cache, with witnesses on a symbolic
  cryptographic library: keys are numbers, a certificate is the term of its arguments.
\<close>

section \<open>A symbolic library for the witnesses\<close>

datatype sym_der = SymCert x509_cert x509_cert int int

definition sym_parsed :: "x509_cert \<Rightarrow> x509_cert" where
  "sym_parsed t = t\<lparr>xc_NotBefore := to_second (xc_NotBefore t), xc_NotAfter := to_second (xc_NotAfter t),
     xc_MaxPathLen := (if xc_MaxPathLen t = 0 \<and> \<not> xc_MaxPathLenZero t then -1 else xc_MaxPathLen t)\<rparr>"

definition sym_crypto :: "(int \<times> int, int, int, sym_der) crypto" where
  "sym_crypto =
     \<lparr>cr_GenerateKey = (\<lambda>(t, n). ((t, n + 1), Inr n)),
      cr_PublicKey = (\<lambda>k. k),
      cr_Int = (\<lambda>m (t, n). ((t, n + 1), if 0 < m then Inr (n mod m) else Inl (External ''max <= 0''))),
      cr_Now = (\<lambda>(t, n). ((t + 1, n), t)),
      cr_CreateCertificate = (\<lambda>c p pub key w. (w, Inr (SymCert c p pub key))),
      cr_ParseCertificate = (\<lambda>d. case d of SymCert c p pub key \<Rightarrow> Inr (sym_parsed c))\<rparr>"

definition sym_reader :: "(int, sym_der) x509_reader" where
  "sym_reader =
     \<lparr>xr_verifies = (\<lambda>d k. case d of SymCert c p pub key \<Rightarrow> key = k),
      xr_PublicKey = (\<lambda>d. case d of SymCert c p pub key \<Rightarrow> pub),
      xr_Issuer = (\<lambda>d. case d of SymCert c p pub key \<Rightarrow> xc_Subject p)\<rparr>"

text \<open>A library whose key generator always fails.\<close>

definition broken_crypto :: "(int \<times> int, int, int, sym_der) crypto" where
  "broken_crypto = sym_crypto\<lparr>cr_GenerateKey := (\<lambda>w. (w, Inl (External ''no entropy'')))\<rparr>"

lemma sym_documented: "x509_documented sym_crypto sym_reader"
  by (auto simp: x509_documented_def sym_crypto_def sym_reader_def encodes_def same_path_len_def sym_parsed_def
      split: if_splits)

lemma sym_clock: "clock_documented sym_crypto fst"
  by (auto simp: clock_documented_def sym_crypto_def)

lemma sym_generates: "\<exists>w' crt. generateCertChain sym_crypto sni (0, 7) = (w', Inr crt)"
  by (simp add: generateCertChain_def randomSerial_def Let_def act_defs sym_crypto_def)

section \<open>The chain\<close>

text \<open>C39 A generated chain is a chain: it has exactly two certificates, the leaf first, and both verify under
  the key the second one certifies and name its subject as their issuer. That one is a CA that may sign
  certificates, and no further CA below it. The leaf certifies the public half of the private key the
  server gets, and whoever parses it finds no CA but a certificate for server authentication under the
  configured server name only. Both serial numbers are 128-bit.\<close>

theorem cert_chain_structure:
  assumes "x509_documented K X" and "generateCertChain K sni w = (w', Inr crt)"
  shows "\<exists>leafDER caDER ca. tc_Certificate crt = [leafDER, caDER] \<and> cr_ParseCertificate K caDER = Inr ca \<and>
    xr_verifies X leafDER (xr_PublicKey X caDER) \<and> xr_verifies X caDER (xr_PublicKey X caDER) \<and>
    xr_Issuer X leafDER = xc_Subject ca \<and> xr_Issuer X caDER = xc_Subject ca \<and>
    xr_PublicKey X leafDER = cr_PublicKey K (tc_PrivateKey crt) \<and>
    xc_IsCA ca \<and> KeyUsageCertSign \<in> xc_KeyUsage ca \<and> xc_MaxPathLen ca = 0 \<and> xc_MaxPathLenZero ca \<and>
    0 \<le> xc_SerialNumber ca \<and> xc_SerialNumber ca < 2 ^ 128 \<and>
    (\<forall>leaf. cr_ParseCertificate K leafDER = Inr leaf \<longrightarrow>
       \<not> xc_IsCA leaf \<and> pn_CommonName (xc_Subject leaf) = sni \<and> xc_DNSNames leaf = [sni] \<and>
       xc_KeyUsage leaf = {KeyUsageDigitalSignature} \<and> xc_ExtKeyUsage leaf = [ExtKeyUsageServerAuth] \<and>
       0 \<le> xc_SerialNumber leaf \<and> xc_SerialNumber leaf < 2 ^ 128)"
proof (rule generateCertChain_Inr [OF assms(2)])
  fix caKey leafKey ca caDER leafDER s1 s2 t1 t2 t3 t4 u1 u1' u2 u2' v1 v1' v4
  assume create: "cr_CreateCertificate K (leaf_template sni s2 t3 t4) ca
      (cr_PublicKey K leafKey) caKey v4 = (w', Inr leafDER)"
    "cr_CreateCertificate K (ca_template s1 t1 t2) (ca_template s1 t1 t2)
      (cr_PublicKey K caKey) caKey v1 = (v1', Inr caDER)"
    and parse: "cr_ParseCertificate K caDER = Inr ca"
    and serials: "randomSerial K u1 = (u1', Inr s1)" "randomSerial K u2 = (u2', Inr s2)"
    and crt: "crt = \<lparr>tc_Certificate = [leafDER, caDER], tc_PrivateKey = leafKey\<rparr>"
  note leaf = documented_create [OF assms(1) create(1)] and caDoc = documented_create [OF assms(1) create(2)]
  have "encodes (ca_template s1 t1 t2) ca"
    by (rule caDoc(1) [OF parse])
  then have ca: "xc_Subject ca = xc_Subject (ca_template s1 t1 t2)" "xc_IsCA ca" "KeyUsageCertSign \<in> xc_KeyUsage ca"
    "xc_MaxPathLen ca = 0" "xc_MaxPathLenZero ca" "xc_SerialNumber ca = s1"
    by (simp_all add: encodes_def same_path_len_def ca_template_def)
  have "\<not> xc_IsCA c \<and> pn_CommonName (xc_Subject c) = sni \<and> xc_DNSNames c = [sni] \<and>
      xc_KeyUsage c = {KeyUsageDigitalSignature} \<and> xc_ExtKeyUsage c = [ExtKeyUsageServerAuth] \<and>
      0 \<le> xc_SerialNumber c \<and> xc_SerialNumber c < 2 ^ 128" if "cr_ParseCertificate K leafDER = Inr c" for c
    using leaf(1) [OF that] documented_serial [OF assms(1) serials(2)] by (simp add: encodes_def leaf_template_def)
  moreover have "xr_Issuer X caDER = xc_Subject ca" "xr_PublicKey X leafDER = cr_PublicKey K (tc_PrivateKey crt)"
    "xr_verifies X leafDER (xr_PublicKey X caDER)" "xr_verifies X caDER (xr_PublicKey X caDER)"
    using caDoc(2-4) leaf(2-4) ca(1) by (simp_all add: crt)
  moreover have "0 \<le> xc_SerialNumber ca \<and> xc_SerialNumber ca < 2 ^ 128"
    using documented_serial [OF assms(1) serials(1)] ca(6) by simp
  ultimately show ?thesis
    using leaf(3) ca(2-5) parse
    by (intro exI [of _ leafDER] exI [of _ caDER] exI [of _ ca]) (simp add: crt)
qed

theorem cert_chain_structure_witness:
  "\<exists>w' crt leafDER caDER. generateCertChain sym_crypto ''example.com'' (0, 7) = (w', Inr crt) \<and>
    tc_Certificate crt = [leafDER, caDER] \<and> xr_verifies sym_reader leafDER (xr_PublicKey sym_reader caDER)"
proof -
  obtain w' crt where R: "generateCertChain sym_crypto ''example.com'' (0, 7) = (w', Inr crt)"
    using sym_generates by blast
  from cert_chain_structure [OF sym_documented R] R show ?thesis
    by blast
qed

text \<open>The leaf is plausibly dated: when the chain is returned its validity began at least thirty days
  ago, and it lasts a year (up to the seconds' rounding of the encoding).\<close>

theorem leaf_validity:
  assumes "x509_documented K X" and "clock_documented K clk"
    and "generateCertChain K sni w = (w', Inr crt)"
    and "cr_ParseCertificate K (hd (tc_Certificate crt)) = Inr leaf"
  shows "xc_NotBefore leaf \<le> clk w' - 30 * 24 * time_Hour \<and>
    365 * 24 * time_Hour - time_Second < xc_NotAfter leaf - xc_NotBefore leaf"
proof (rule generateCertChain_Inr [OF assms(3)])
  fix s2 t3 t4 caCert leafKey caKey v4 leafDER v3 v2 caDER
  assume create: "cr_CreateCertificate K (leaf_template sni s2 t3 t4) caCert
      (cr_PublicKey K leafKey) caKey v4 = (w', Inr leafDER)"
    and now: "cr_Now K v3 = (v4, t4)" "cr_Now K v2 = (v3, t3)"
    and crt: "crt = \<lparr>tc_Certificate = [leafDER, caDER], tc_PrivateKey = leafKey\<rparr>"
  have "cr_ParseCertificate K leafDER = Inr leaf"
    using assms(4) by (simp add: crt)
  then have leaf: "xc_NotBefore leaf = to_second (t3 + - 30 * 24 * time_Hour)"
    "xc_NotAfter leaf = to_second (t4 + 335 * 24 * time_Hour)"
    using documented_create(1) [OF assms(1) create] by (simp_all add: encodes_def leaf_template_def)
  have "t3 \<le> t4" "t3 \<le> clk w'"
    using clock_documentedD [OF assms(2)] now create by (meson order_trans)+
  then show ?thesis
    using to_second_le [of "t3 + - 30 * 24 * time_Hour"] to_second_gt [of "t4 + 335 * 24 * time_Hour"]
    unfolding leaf by linarith
qed

theorem leaf_validity_witness:
  "\<exists>w' crt leaf. generateCertChain sym_crypto ''example.com'' (0, 7) = (w', Inr crt) \<and>
    cr_ParseCertificate sym_crypto (hd (tc_Certificate crt)) = Inr leaf \<and>
    xc_NotBefore leaf \<le> fst w' - 30 * 24 * time_Hour"
proof -
  obtain w' crt where R: "generateCertChain sym_crypto ''example.com'' (0, 7) = (w', Inr crt)"
    using sym_generates by blast
  have "\<exists>c. cr_ParseCertificate sym_crypto d = Inr c" for d
    by (cases d) (simp add: sym_crypto_def)
  then obtain leaf where P: "cr_ParseCertificate sym_crypto (hd (tc_Certificate crt)) = Inr leaf"
    by blast
  from leaf_validity [OF sym_documented sym_clock R P] R P show ?thesis
    by blast
qed

section \<open>Errors and the cache\<close>

text \<open>A failure anywhere in the generation reaches the caller of \<^verbatim>\<open>buildServerTLSConfig\<close> wrapped twice:
  under the prefix of the step that failed and under "generate server certificate: "; the cache is
  left as it was, so the next call tries again.\<close>

theorem server_config_errors:
  assumes "ch_cert cache = None" and "buildServerTLSConfig K sni alpn cache w = (w', cache', Inl e)"
  shows "cache' = cache \<and> (\<exists>p e'. e = Errorf ''generate server certificate: '' (Errorf p e') \<and>
    p \<in> set cert_error_prefixes \<and> errors_Is e e')"
proof -
  from assms obtain e1 where e1: "generateCertChain K sni w = (w', Inl e1)" "cache' = cache"
    "e = Errorf ''generate server certificate: '' e1"
    by (auto simp: buildServerTLSConfig_def getOrGenerate_def split: prod.splits sum.splits if_splits)
  show ?thesis
    by (rule generateCertChain_Inl [OF e1(1)]) (auto simp: e1)
qed

theorem server_config_errors_witness:
  "\<exists>w' cache' e p e'. buildServerTLSConfig broken_crypto ''example.com'' [''h2''] empty_certCache (0, 7) =
      (w', cache', Inl e) \<and> e = Errorf ''generate server certificate: '' (Errorf p e')"
proof -
  obtain w' cache' e where R: "buildServerTLSConfig broken_crypto ''example.com'' [''h2'']
      empty_certCache (0, 7) = (w', cache', Inl e)"
    by (simp add: buildServerTLSConfig_def getOrGenerate_def generateCertChain_def act_defs
        broken_crypto_def empty_certCache_def)
  have "ch_cert empty_certCache = None"
    by (simp add: empty_certCache_def)
  from server_config_errors [OF this R] R show ?thesis
    by blast
qed

text \<open>The cache generates once per server name: after a success, asking again for the same name gives
  the same certificate without any cryptographic work, and asking for another name generates anew.\<close>

theorem cert_cache_memo:
  assumes "getOrGenerate K c sni w = (w', c', Inr crt)"
  shows "getOrGenerate K c' sni u = (u, c', Inr crt) \<and>
    (sni' = sni \<or> fst (getOrGenerate K c' sni' u) = fst (generateCertChain K sni' u))"
proof
  show "getOrGenerate K c' sni u = (u, c', Inr crt)"
    using assms by (rule cache.get_again)
  have "ch_sni c' = sni"
    using cache.get_stores [OF assms] by simp
  then show "sni' = sni \<or> fst (getOrGenerate K c' sni' u) = fst (generateCertChain K sni' u)"
    by (auto simp: getOrGenerate_def split: prod.splits sum.splits)
qed

theorem cert_cache_memo_witness:
  "\<exists>w' c' crt. getOrGenerate sym_crypto empty_certCache ''a.example.com'' (0, 7) = (w', c', Inr crt) \<and>
    getOrGenerate sym_crypto c' ''a.example.com'' (99, 99) = ((99, 99), c', Inr crt)"
proof -
  obtain w' crt where "generateCertChain sym_crypto ''a.example.com'' (0, 7) = (w', Inr crt)"
    using sym_generates by blast
  then obtain c' where R: "getOrGenerate sym_crypto empty_certCache ''a.example.com'' (0, 7) = (w', c', Inr crt)"
    by (simp add: getOrGenerate_def empty_certCache_def)
  from cert_cache_memo [OF R, of "(99, 99)"] R show ?thesis
    by blast
qed

end
