(* ===== verification/Env.thy ===== *)
theory Env
  imports SpoofConn
begin

text \<open>
  The environment of the transport: connections, the calls the code makes on libraries outside the
  repository (libp2p, multiaddr, uTLS, \<^verbatim>\<open>crypto/tls\<close>, the kernel) and their answers. A call is an
  event appended to the history; the answer of a call is an arbitrary function of the history up
  to and including it, so every deterministic environment is covered.
\<close>

section \<open>Names and connections\<close>

type_synonym multiaddr = string
type_synonym peer_id = string
type_synonym scope_id = nat

datatype direction = DirInbound | DirOutbound

text \<open>
  A connection is identified by how it was built: a raw connection of the kernel, a \<^verbatim>\<open>SpoofConn\<close>
  around a connection, or the client or server end of a TLS tunnel over one.
\<close>

datatype conn =
    RawConn nat
  | Spoofed conn spoof_conn
  | ClientTLS conn
  | ServerTLS conn

fun raw_conn :: "conn \<Rightarrow> nat" where
  "raw_conn (RawConn n) = n"
| "raw_conn (Spoofed c s) = raw_conn c"
| "raw_conn (ClientTLS c) = raw_conn c"
| "raw_conn (ServerTLS c) = raw_conn c"

datatype hello_id =
    HelloChrome_Auto
  | HelloFirefox_Auto
  | HelloSafari_Auto
  | HelloEdge_Auto
  | HelloIOS_Auto
  | HelloAndroid_11_OkHttp
  | HelloRandomized

text \<open>The connection handed to the upper layers: the tunnel and the connection below it.\<close>

record camouflage_conn =
  cc_tlsConn :: conn
  cc_rawConn :: conn

record utls_config =
  ut_ServerName :: string
  ut_NextProtos :: "string list"
  ut_InsecureSkipVerify :: bool

text \<open>Which optional methods a connection's dynamic type has.\<close>

record conn_caps =
  cp_SetLinger :: bool
  cp_SetKeepAlive :: bool
  cp_SetKeepAlivePeriod :: bool

datatype dialer = SharedTCP | ReusePort | PlainDialer

datatype listen_kind = SharedDemuxTLS | ReusePortListen | PlainListen

section \<open>Calls\<close>

datatype event =
    EvSetDeadline conn "int option"
  | EvUtlsHandshake conn utls_config hello_id int
  | EvTlsHandshake conn "string list" int int
  | EvClose conn
  | EvSetLinger conn int
  | EvSetKeepAlive conn bool
  | EvSetKeepAlivePeriod conn int
  | EvOpenConnection direction bool multiaddr
  | EvSetPeer scope_id peer_id
  | EvScopeDone scope_id
  | EvDial dialer multiaddr "int option"
  | EvDialUpdate multiaddr
  | EvUpgrade camouflage_conn direction peer_id scope_id
  | EvListen listen_kind multiaddr
  | EvGateListener
  | EvAccept nat "scope_id option"
  | EvDeliver camouflage_conn "scope_id option"

type_synonym history = "event list"

section \<open>Answers\<close>

record env =
  en_now :: "history \<Rightarrow> int"
  en_utls :: "history \<Rightarrow> goerror option"
  en_tls :: "history \<Rightarrow> goerror + string"
  en_caps :: "conn \<Rightarrow> conn_caps"
  en_keepalive :: "history \<Rightarrow> goerror option"
  en_open :: "history \<Rightarrow> goerror + scope_id"
  en_setPeer :: "history \<Rightarrow> goerror option"
  en_reuseport :: bool
  en_dial :: "history \<Rightarrow> goerror + nat"
  en_updateReady :: "history \<Rightarrow> bool"
  en_upgrade :: "history \<Rightarrow> goerror + nat"
  en_listen :: "history \<Rightarrow> goerror option"

text \<open>An environment in which everything succeeds, for the witnesses.\<close>

definition calm_env :: env where
  "calm_env =
     \<lparr>en_now = (\<lambda>_. 1000),
      en_utls = (\<lambda>_. None),
      en_tls = (\<lambda>_. Inr ''h2''),
      en_caps = (\<lambda>_. \<lparr>cp_SetLinger = True, cp_SetKeepAlive = True, cp_SetKeepAlivePeriod = True\<rparr>),
      en_keepalive = (\<lambda>_. None),
      en_open = (\<lambda>_. Inr 1),
      en_setPeer = (\<lambda>_. None),
      en_reuseport = True,
      en_dial = (\<lambda>_. Inr 7),
      en_updateReady = (\<lambda>_. True),
      en_upgrade = (\<lambda>_. Inr 5),
      en_listen = (\<lambda>_. None)\<rparr>"

section \<open>Reading a history\<close>

text \<open>How often a scope was released and a raw connection closed, at any layer of its stack.\<close>

definition releases :: "scope_id \<Rightarrow> history \<Rightarrow> nat" where
  "releases s h = length (filter (\<lambda>e. e = EvScopeDone s) h)"

fun closes_raw :: "nat \<Rightarrow> event \<Rightarrow> bool" where
  "closes_raw n (EvClose c) = (raw_conn c = n)"
| "closes_raw n _ = False"

definition closes :: "nat \<Rightarrow> history \<Rightarrow> nat" where
  "closes n h = length (filter (closes_raw n) h)"

text \<open>How often a connection was accepted from the kernel and delivered to the upper layers.\<close>

fun accept_raw :: "nat \<Rightarrow> event \<Rightarrow> bool" where
  "accept_raw n (EvAccept k s) = (k = n)"
| "accept_raw n _ = False"

fun deliver_raw :: "nat \<Rightarrow> event \<Rightarrow> bool" where
  "deliver_raw n (EvDeliver cc s) = (raw_conn (cc_tlsConn cc) = n)"
| "deliver_raw n _ = False"

definition accepts :: "nat \<Rightarrow> history \<Rightarrow> nat" where
  "accepts n h = length (filter (accept_raw n) h)"

definition delivers :: "nat \<Rightarrow> history \<Rightarrow> nat" where
  "delivers n h = length (filter (deliver_raw n) h)"

lemma accepts_simps [simp]:
  "accepts n [] = 0"
  "accepts n (e # h) = (if accept_raw n e then 1 else 0) + accepts n h"
  "accepts n (h @ h') = accepts n h + accepts n h'"
  by (simp_all add: accepts_def)

lemma delivers_simps [simp]:
  "delivers n [] = 0"
  "delivers n (e # h) = (if deliver_raw n e then 1 else 0) + delivers n h"
  "delivers n (h @ h') = delivers n h + delivers n h'"
  by (simp_all add: delivers_def)

lemma accepts_pos_iff: "0 < accepts n h \<longleftrightarrow> (\<exists>sc. EvAccept n sc \<in> set h)"
proof (induction h)
  case (Cons e h)
  then show ?case
    by (cases e) auto
qed simp

lemma releases_simps [simp]:
  "releases s [] = 0"
  "releases s (e # h) = (if e = EvScopeDone s then 1 else 0) + releases s h"
  "releases s (h @ h') = releases s h + releases s h'"
  by (simp_all add: releases_def)

lemma closes_simps [simp]:
  "closes n [] = 0"
  "closes n (e # h) = (if closes_raw n e then 1 else 0) + closes n h"
  "closes n (h @ h') = closes n h + closes n h'"
  by (simp_all add: closes_def)

end
