(* ===== verification/TlsCamouflage.thy ===== *)
theory TlsCamouflage
  imports Env CertChain
begin

text \<open>
  \<^verbatim>\<open>src/tls-camouflage.go\<close>, the tunnel: the shared configuration, the mapping from browser names to
  fingerprints, the client and server handshakes with the ALPN check, and the connection type that
  the upper layers see.
\<close>

section \<open>Configuration\<close>

definition defaultALPNProtos :: "string list" where
  "defaultALPNProtos = [''h2'', ''http/1.1'']"

record ('key, 'der) camo_config =
  cg_sni :: string
  cg_alpnProtos :: "string list"
  cg_clientHelloID :: hello_id
  cg_handshakeTimeout :: int
  cg_serverTLSConfig :: "('key, 'der) tls_config option"

definition BrowserChrome :: string where "BrowserChrome = ''chrome''"
definition BrowserFirefox :: string where "BrowserFirefox = ''firefox''"
definition BrowserSafari :: string where "BrowserSafari = ''safari''"
definition BrowserEdge :: string where "BrowserEdge = ''edge''"
definition BrowserIOS :: string where "BrowserIOS = ''ios''"
definition BrowserAndroid :: string where "BrowserAndroid = ''android''"
definition BrowserYandex :: string where "BrowserYandex = ''yandex''"

lemmas browser_defs = BrowserChrome_def BrowserFirefox_def BrowserSafari_def BrowserEdge_def
  BrowserIOS_def BrowserAndroid_def BrowserYandex_def

definition browserToHelloID :: "string \<Rightarrow> hello_id" where
  "browserToHelloID browser =
     (if browser = BrowserChrome then HelloChrome_Auto
      else if browser = BrowserYandex then HelloChrome_Auto
      else if browser = BrowserFirefox then HelloFirefox_Auto
      else if browser = BrowserSafari then HelloSafari_Auto
      else if browser = BrowserEdge then HelloEdge_Auto
      else if browser = BrowserIOS then HelloIOS_Auto
      else if browser = BrowserAndroid then HelloAndroid_11_OkHttp
      else HelloRandomized)"

definition BuildCamouflageConfig :: "('w, 'key, 'pub, 'der) crypto \<Rightarrow> string \<Rightarrow> string \<Rightarrow> int \<Rightarrow>
    ('w, ('key, 'der) camo_config) act" where
  "BuildCamouflageConfig K sni browserFingerprint handshakeTimeout w =
     (case buildServerTLSConfig K sni defaultALPNProtos empty_certCache w of
        (w', cache', Inl err) \<Rightarrow> (w', Inl err)
      | (w', cache', Inr serverCfg) \<Rightarrow>
          (w', Inr \<lparr>cg_sni = sni,
                   cg_alpnProtos = defaultALPNProtos,
                   cg_clientHelloID = browserToHelloID browserFingerprint,
                   cg_handshakeTimeout = handshakeTimeout,
                   cg_serverTLSConfig = Some serverCfg\<rparr>))"

section \<open>Temporary errors\<close>

text \<open>
  \<^verbatim>\<open>temporaryHandshakeError\<close> and its methods; the program declares the type and makes no value of it.
  \<^verbatim>\<open>errors.Is\<close> goes through \<^verbatim>\<open>Unwrap\<close>.
\<close>

record temporary_handshake_error =
  te_err :: goerror

definition te_Error :: "(string \<Rightarrow> string) \<Rightarrow> temporary_handshake_error \<Rightarrow> string" where
  "te_Error q e = error_text q (te_err e)"

definition te_Unwrap :: "temporary_handshake_error \<Rightarrow> goerror" where
  "te_Unwrap e = te_err e"

definition te_Temporary :: "temporary_handshake_error \<Rightarrow> bool" where
  "te_Temporary e = True"

definition te_Timeout :: "temporary_handshake_error \<Rightarrow> bool" where
  "te_Timeout e = False"

section \<open>The ALPN check\<close>

definition validateALPN :: "string \<Rightarrow> string list \<Rightarrow> bool" where
  "validateALPN negotiated allowed =
     (if negotiated = [] then True
      else if List.member allowed negotiated then True
      else False)"

section \<open>The handshakes\<close>

definition clientTLSHandshake :: "env \<Rightarrow> conn \<Rightarrow> ('key, 'der) camo_config \<Rightarrow> (history, conn) act" where
  "clientTLSHandshake E c cfg h =
     (let utlsConfig = \<lparr>ut_ServerName = cg_sni cfg, ut_NextProtos = cg_alpnProtos cfg,
                        ut_InsecureSkipVerify = True\<rparr>;
          h1 = h @ [EvUtlsHandshake c utlsConfig (cg_clientHelloID cfg) (cg_handshakeTimeout cfg)]
      in (case en_utls E h1 of
            Some err \<Rightarrow> (h1, Inl (Errorf ''uTLS handshake: '' err))
          | None \<Rightarrow> (h1, Inr (ClientTLS c))))"

definition serverTLSHandshake :: "env \<Rightarrow> conn \<Rightarrow> ('key, 'der) camo_config \<Rightarrow> (history, conn) act" where
  "serverTLSHandshake E c cfg h =
     (case cg_serverTLSConfig cfg of
        None \<Rightarrow> (h, Inl (Sentinel ErrConfigNotInit))
      | Some scfg \<Rightarrow>
         (let h1 = h @ [EvTlsHandshake c (tl_NextProtos scfg) (tl_MinVersion scfg) (cg_handshakeTimeout cfg)]
          in (case en_tls E h1 of
                Inl err \<Rightarrow> (h1, Inl (Errorf ''server TLS handshake: '' err))
              | Inr negotiated \<Rightarrow>
                 if \<not> validateALPN negotiated (cg_alpnProtos cfg)
                 then (h1 @ [EvClose (ServerTLS c)],
                       Inl (ErrorfQ (Sentinel ErrALPNMismatch) '': got '' negotiated))
                 else (h1, Inr (ServerTLS c)))))"

section \<open>The connection\<close>

text \<open>
  \<^verbatim>\<open>fmt.Errorf("dpi: %v: %w", errHandshakeFailed, err)\<close>: the sentinel is only printed, the cause is
  wrapped. The errors of \<^verbatim>\<open>SetDeadline\<close> are logged and have no effect.
\<close>

definition handshake_error :: "goerror \<Rightarrow> goerror" where
  "handshake_error err = Errorf (''dpi: '' @ sentinel_text ErrHandshakeFailed @ '': '') err"

definition NewCamouflageConn :: "env \<Rightarrow> conn \<Rightarrow> bool \<Rightarrow> ('key, 'der) camo_config \<Rightarrow>
    (history, camouflage_conn) act" where
  "NewCamouflageConn E c isClient cfg h =
     (let h1 = h @ [EvSetDeadline c (Some (en_now E h + cg_handshakeTimeout cfg))]
      in (case (if isClient then clientTLSHandshake E c cfg h1 else serverTLSHandshake E c cfg h1) of
            (h2, Inl err) \<Rightarrow> (h2, Inl (handshake_error err))
          | (h2, Inr tlsConn) \<Rightarrow>
              (h2 @ [EvSetDeadline c None], Inr \<lparr>cc_tlsConn = tlsConn, cc_rawConn = c\<rparr>)))"

text \<open>
  The methods: input, output, closing, deadlines and addresses go to the TLS connection, the
  multiaddresses to the connection below it. The half-closes are forwarded when supported.
\<close>

definition camo_Close :: "camouflage_conn \<Rightarrow> history \<Rightarrow> history" where
  "camo_Close cc h = h @ [EvClose (cc_tlsConn cc)]"

definition camo_io :: "(conn \<Rightarrow> 'a) \<Rightarrow> camouflage_conn \<Rightarrow> 'a" where
  "camo_io method cc = method (cc_tlsConn cc)"

definition camo_multiaddr :: "(conn \<Rightarrow> multiaddr) \<Rightarrow> camouflage_conn \<Rightarrow> multiaddr" where
  "camo_multiaddr method cc = method (cc_rawConn cc)"

definition camo_CloseRead :: "(conn \<Rightarrow> ('w \<Rightarrow> 'w \<times> goerror option) option) \<Rightarrow> camouflage_conn \<Rightarrow>
    'w \<Rightarrow> 'w \<times> goerror option" where
  "camo_CloseRead methods cc w = forward_close (methods (cc_tlsConn cc)) w"

definition camo_CloseWrite :: "(conn \<Rightarrow> ('w \<Rightarrow> 'w \<times> goerror option) option) \<Rightarrow> camouflage_conn \<Rightarrow>
    'w \<Rightarrow> 'w \<times> goerror option" where
  "camo_CloseWrite methods cc w = forward_close (methods (cc_tlsConn cc)) w"

section \<open>Lemmas\<close>

lemma validateALPN_iff: "validateALPN p allowed \<longleftrightarrow> p = [] \<or> p \<in> set allowed"
  by (simp add: validateALPN_def)

lemma browserToHelloID_randomized_iff:
  "browserToHelloID b = HelloRandomized \<longleftrightarrow>
     b \<notin> {BrowserChrome, BrowserYandex, BrowserFirefox, BrowserSafari, BrowserEdge, BrowserIOS, BrowserAndroid}"
  by (simp add: browserToHelloID_def)

lemma BuildCamouflageConfig_Inr:
  assumes "BuildCamouflageConfig K sni browser timeout w = (w', Inr cfg)"
  shows "cg_sni cfg = sni \<and> cg_alpnProtos cfg = defaultALPNProtos \<and>
    cg_clientHelloID cfg = browserToHelloID browser \<and> cg_handshakeTimeout cfg = timeout \<and>
    (\<exists>crt. generateCertChain K sni w = (w', Inr crt) \<and>
       cg_serverTLSConfig cfg = Some \<lparr>tl_Certificates = [crt], tl_NextProtos = defaultALPNProtos,
         tl_MinVersion = VersionTLS12\<rparr>)"
  using assms
  by (auto simp: BuildCamouflageConfig_def buildServerTLSConfig_def getOrGenerate_def empty_certCache_def
      split: prod.splits sum.splits)

text \<open>The two handshakes share a contract: one handshake event, then at most the close of the tunnel.\<close>

definition handshake_event :: "conn \<Rightarrow> bool \<Rightarrow> ('key, 'der) camo_config \<Rightarrow> event" where
  "handshake_event c isClient cfg =
     (if isClient
      then EvUtlsHandshake c \<lparr>ut_ServerName = cg_sni cfg, ut_NextProtos = cg_alpnProtos cfg,
             ut_InsecureSkipVerify = True\<rparr> (cg_clientHelloID cfg) (cg_handshakeTimeout cfg)
      else (case cg_serverTLSConfig cfg of
              Some scfg \<Rightarrow> EvTlsHandshake c (tl_NextProtos scfg) (tl_MinVersion scfg) (cg_handshakeTimeout cfg)
            | None \<Rightarrow> EvClose c))"

definition tunnel :: "conn \<Rightarrow> bool \<Rightarrow> conn" where
  "tunnel c isClient = (if isClient then ClientTLS c else ServerTLS c)"

lemma NewCamouflageConn_Inr:
  assumes "NewCamouflageConn E c isClient cfg h = (h', Inr cc)"
  shows "cc = \<lparr>cc_tlsConn = tunnel c isClient, cc_rawConn = c\<rparr> \<and>
    h' = h @ [EvSetDeadline c (Some (en_now E h + cg_handshakeTimeout cfg)),
              handshake_event c isClient cfg, EvSetDeadline c None] \<and>
    (isClient \<or> cg_serverTLSConfig cfg \<noteq> None)"
  using assms
  by (auto simp: NewCamouflageConn_def clientTLSHandshake_def serverTLSHandshake_def Let_def
      handshake_event_def tunnel_def split: if_splits option.splits sum.splits)

lemma NewCamouflageConn_Inl:
  assumes "NewCamouflageConn E c isClient cfg h = (h', Inl e)"
  obtains cause evs where "e = handshake_error cause"
    and "h' = h @ EvSetDeadline c (Some (en_now E h + cg_handshakeTimeout cfg)) # evs"
    and "evs = [] \<and> \<not> isClient \<and> cg_serverTLSConfig cfg = None \<and> cause = Sentinel ErrConfigNotInit \<or>
      evs = [handshake_event c isClient cfg] \<or>
      evs = [handshake_event c isClient cfg, EvClose (ServerTLS c)] \<and> \<not> isClient \<and>
        errors_Is cause (Sentinel ErrALPNMismatch)"
  using assms
  by (auto simp: NewCamouflageConn_def clientTLSHandshake_def serverTLSHandshake_def Let_def
      handshake_event_def split: if_splits option.splits sum.splits)

text \<open>Neither handshake releases a scope; the raw connection is closed only on an ALPN mismatch.\<close>

lemma NewCamouflageConn_releases:
  "NewCamouflageConn E c isClient cfg h = (h', r) \<Longrightarrow> releases s h' = releases s h"
  by (auto simp: NewCamouflageConn_def clientTLSHandshake_def serverTLSHandshake_def Let_def
      split: if_splits option.splits sum.splits)

lemma NewCamouflageConn_closes_ok:
  "NewCamouflageConn E c isClient cfg h = (h', Inr cc) \<Longrightarrow> closes n h' = closes n h"
  by (auto simp: NewCamouflageConn_def clientTLSHandshake_def serverTLSHandshake_def Let_def
      split: if_splits option.splits sum.splits)

end
