(* ===== verification/TlsClaims.thy ===== *)
theory TlsClaims
  imports TlsCamouflage CertClaims
begin

text \<open>
  The properties of the TLS tunnel (\<^verbatim>\<open>src/tls-camouflage.go\<close>): the deadlines around the handshake,
  its errors, the ALPN gate, and the configuration both ends are built from.
\<close>

section \<open>Configurations for the witnesses\<close>

definition demo_config :: "(int, sym_der) camo_config" where
  "demo_config =
     \<lparr>cg_sni = ''example.org'', cg_alpnProtos = defaultALPNProtos, cg_clientHelloID = HelloChrome_Auto,
      cg_handshakeTimeout = 50,
      cg_serverTLSConfig = Some \<lparr>tl_Certificates = [], tl_NextProtos = defaultALPNProtos,
        tl_MinVersion = VersionTLS12\<rparr>\<rparr>"

lemma sym_builds: "\<exists>w' cfg. BuildCamouflageConfig sym_crypto sni b d (0, 7) = (w', Inr cfg)"
proof -
  obtain w' crt where "generateCertChain sym_crypto sni (0, 7) = (w', Inr crt)"
    using sym_generates by blast
  then show ?thesis
    by (auto simp: BuildCamouflageConfig_def buildServerTLSConfig_def getOrGenerate_def
        empty_certCache_def)
qed

section \<open>The handshake\<close>

text \<open>A successful \<^verbatim>\<open>NewCamouflageConn\<close> sets the deadline of the connection to now plus the handshake
  timeout, runs exactly one handshake under it, in its own role and with the configured name,
  protocols and fingerprint, and clears the deadline; the result is the tunnel over that
  connection, and nothing is closed.\<close>

theorem handshake_bracketed:
  assumes "NewCamouflageConn E c isClient cfg h = (h', Inr cc)"
  shows "h' = h @ [EvSetDeadline c (Some (en_now E h + cg_handshakeTimeout cfg)),
      handshake_event c isClient cfg, EvSetDeadline c None] \<and>
    cc_tlsConn cc = (if isClient then ClientTLS c else ServerTLS c) \<and> cc_rawConn cc = c \<and>
    (isClient \<longrightarrow> handshake_event c isClient cfg = EvUtlsHandshake c
       \<lparr>ut_ServerName = cg_sni cfg, ut_NextProtos = cg_alpnProtos cfg, ut_InsecureSkipVerify = True\<rparr>
       (cg_clientHelloID cfg) (cg_handshakeTimeout cfg)) \<and>
    (\<not> isClient \<longrightarrow> (\<exists>scfg. cg_serverTLSConfig cfg = Some scfg \<and> handshake_event c isClient cfg =
       EvTlsHandshake c (tl_NextProtos scfg) (tl_MinVersion scfg) (cg_handshakeTimeout cfg)))"
  using NewCamouflageConn_Inr [OF assms] by (auto simp: handshake_event_def tunnel_def)

theorem handshake_bracketed_witness:
  "\<exists>h' cc. NewCamouflageConn calm_env (RawConn 3) False demo_config [] = (h', Inr cc) \<and>
    h' = [EvSetDeadline (RawConn 3) (Some 1050),
      EvTlsHandshake (RawConn 3) [''h2'', ''http/1.1''] VersionTLS12 50, EvSetDeadline (RawConn 3) None]"
proof -
  have R: "NewCamouflageConn calm_env (RawConn 3) False demo_config [] =
      ([EvSetDeadline (RawConn 3) (Some 1050),
        EvTlsHandshake (RawConn 3) [''h2'', ''http/1.1''] VersionTLS12 50, EvSetDeadline (RawConn 3) None],
       Inr \<lparr>cc_tlsConn = ServerTLS (RawConn 3), cc_rawConn = RawConn 3\<rparr>)"
    by (simp add: NewCamouflageConn_def serverTLSHandshake_def calm_env_def demo_config_def
        defaultALPNProtos_def validateALPN_def)
  show ?thesis
    using handshake_bracketed [OF R] R by blast
qed

text \<open>C34 A failed \<^verbatim>\<open>NewCamouflageConn\<close> never clears the deadline it set, so the half-open connection stays
  bounded by it until its owner closes it; it leaves at most one handshake call behind; and its
  error carries its cause for \<^verbatim>\<open>errors.Is\<close> but never \<^verbatim>\<open>errHandshakeFailed\<close>, which is only printed, unless
  the cause itself does.\<close>

theorem handshake_failure:
  assumes "NewCamouflageConn E c isClient cfg h = (h', Inl e)"
  shows "\<exists>cause evs. h' = h @ EvSetDeadline c (Some (en_now E h + cg_handshakeTimeout cfg)) # evs \<and>
    EvSetDeadline c None \<notin> set evs \<and> length evs \<le> 2 \<and> (isClient \<longrightarrow> length evs = 1) \<and>
    errors_Is e cause \<and>
    (errors_Is e (Sentinel ErrHandshakeFailed) \<longleftrightarrow> errors_Is cause (Sentinel ErrHandshakeFailed)) \<and>
    error_text q e = ''dpi: dpi: TLS handshake failed: '' @ error_text q cause"
proof (rule NewCamouflageConn_Inl [OF assms])
  fix cause evs
  assume *: "e = handshake_error cause"
    "h' = h @ EvSetDeadline c (Some (en_now E h + cg_handshakeTimeout cfg)) # evs"
    "evs = [] \<and> \<not> isClient \<and> cg_serverTLSConfig cfg = None \<and> cause = Sentinel ErrConfigNotInit \<or>
      evs = [handshake_event c isClient cfg] \<or>
      evs = [handshake_event c isClient cfg, EvClose (ServerTLS c)] \<and> \<not> isClient \<and>
        errors_Is cause (Sentinel ErrALPNMismatch)"
  have "handshake_event c isClient cfg \<noteq> EvSetDeadline c None"
    by (simp add: handshake_event_def split: option.split)
  with * show ?thesis
    by (intro exI [of _ cause] exI [of _ evs]) (auto simp: handshake_error_def)
qed

theorem handshake_failure_witness:
  "\<exists>h' e. NewCamouflageConn (calm_env\<lparr>en_utls := \<lambda>_. Some (External ''EOF'')\<rparr>) (RawConn 3) True demo_config [] =
      (h', Inl e) \<and>
    h' \<noteq> [] \<and> EvSetDeadline (RawConn 3) None \<notin> set (tl h') \<and> \<not> errors_Is e (Sentinel ErrHandshakeFailed)"
proof -
  let ?E = "calm_env\<lparr>en_utls := \<lambda>_. Some (External ''EOF'')\<rparr>"
  have R: "NewCamouflageConn ?E (RawConn 3) True demo_config [] =
      ([EvSetDeadline (RawConn 3) (Some 1050), EvUtlsHandshake (RawConn 3) \<lparr>ut_ServerName = ''example.org'',
          ut_NextProtos = defaultALPNProtos, ut_InsecureSkipVerify = True\<rparr> HelloChrome_Auto 50],
       Inl (handshake_error (Errorf ''uTLS handshake: '' (External ''EOF''))))"
    by (simp add: NewCamouflageConn_def clientTLSHandshake_def calm_env_def demo_config_def)
  show ?thesis
    using handshake_failure [OF R, of id] R by (auto simp: handshake_error_def)
qed

section \<open>The ALPN gate\<close>

text \<open>C33 The server side accepts a client exactly when the TLS handshake succeeds and the negotiated
  protocol is in the allowed set or none was negotiated. Acceptance leaves the tunnel open and the
  deadline cleared. On any other protocol the tunnel is closed before returning, and the error is
  recognised as \<^verbatim>\<open>errALPNMismatch\<close> through both wrappings. When the TLS handshake itself fails nothing is
  closed here, and the error is \<^verbatim>\<open>errALPNMismatch\<close> only if the cause of that failure is.\<close>

theorem alpn_gate:
  assumes "cg_serverTLSConfig cfg = Some scfg"
    and "h2 = h @ [EvSetDeadline c (Some (en_now E h + cg_handshakeTimeout cfg)),
      EvTlsHandshake c (tl_NextProtos scfg) (tl_MinVersion scfg) (cg_handshakeTimeout cfg)]"
    and "NewCamouflageConn E c False cfg h = (h', r)"
  shows "((\<exists>cc. r = Inr cc) \<longleftrightarrow> (\<exists>p. en_tls E h2 = Inr p \<and> (p = [] \<or> p \<in> set (cg_alpnProtos cfg)))) \<and>
    (case en_tls E h2 of
       Inl err \<Rightarrow> h' = h2 \<and> (\<exists>e. r = Inl e \<and> errors_Is e err \<and>
         (errors_Is e (Sentinel ErrALPNMismatch) \<longleftrightarrow> errors_Is err (Sentinel ErrALPNMismatch)))
     | Inr p \<Rightarrow>
         if p = [] \<or> p \<in> set (cg_alpnProtos cfg)
         then h' = h2 @ [EvSetDeadline c None] \<and> r = Inr \<lparr>cc_tlsConn = ServerTLS c, cc_rawConn = c\<rparr>
         else h' = h2 @ [EvClose (ServerTLS c)] \<and> (\<exists>e. r = Inl e \<and> errors_Is e (Sentinel ErrALPNMismatch)))"
  using assms
  by (auto simp: NewCamouflageConn_def serverTLSHandshake_def Let_def validateALPN_iff handshake_error_def
      split: sum.splits if_splits)

theorem alpn_gate_witness:
  "\<exists>h' e. NewCamouflageConn (calm_env\<lparr>en_tls := \<lambda>_. Inr ''spdy/3''\<rparr>) (RawConn 3) False demo_config [] = (h', Inl e) \<and>
    last h' = EvClose (ServerTLS (RawConn 3)) \<and> errors_Is e (Sentinel ErrALPNMismatch) \<and>
    (\<exists>h' cc. NewCamouflageConn (calm_env\<lparr>en_tls := \<lambda>_. Inr []\<rparr>) (RawConn 3) False demo_config [] = (h', Inr cc))"
proof -
  let ?E = "calm_env\<lparr>en_tls := \<lambda>_. Inr ''spdy/3''\<rparr>"
  let ?N = "calm_env\<lparr>en_tls := \<lambda>_. Inr []\<rparr>"
  obtain h' r h1 r1 where R: "NewCamouflageConn ?E (RawConn 3) False demo_config [] = (h', r)"
    and N: "NewCamouflageConn ?N (RawConn 3) False demo_config [] = (h1, r1)"
    by (metis surj_pair)
  have s: "cg_serverTLSConfig demo_config = Some \<lparr>tl_Certificates = [], tl_NextProtos = defaultALPNProtos,
        tl_MinVersion = VersionTLS12\<rparr>"
    by (simp add: demo_config_def)
  from alpn_gate [OF s refl R] alpn_gate [OF s refl N] R N show ?thesis
    by (auto simp: demo_config_def defaultALPNProtos_def)
qed

text \<open>With a configuration made by the constructor and a TLS library that negotiates, as it documents,
  only a protocol the server offered or none, the ALPN check never rejects anybody: the server
  handshake succeeds exactly when the TLS handshake does. A probe without ALPN passes.\<close>

theorem alpn_check_redundant:
  assumes "BuildCamouflageConfig K sni browser timeout w = (w', Inr cfg)"
    and "\<And>hist d protos v t p. en_tls E (hist @ [EvTlsHandshake d protos v t]) = Inr p \<Longrightarrow>
      p = [] \<or> p \<in> set protos"
    and "serverTLSHandshake E c cfg h = (h', r)"
  shows "h' = h @ [EvTlsHandshake c defaultALPNProtos VersionTLS12 timeout] \<and>
    (case en_tls E h' of
       Inl err \<Rightarrow> r = Inl (Errorf ''server TLS handshake: '' err)
     | Inr p \<Rightarrow> r = Inr (ServerTLS c))"
proof -
  obtain crt where cfg: "cg_alpnProtos cfg = defaultALPNProtos" "cg_handshakeTimeout cfg = timeout"
    "cg_serverTLSConfig cfg = Some \<lparr>tl_Certificates = [crt], tl_NextProtos = defaultALPNProtos,
       tl_MinVersion = VersionTLS12\<rparr>"
    using BuildCamouflageConfig_Inr [OF assms(1)] by blast
  show ?thesis
    using assms(3) cfg assms(2) [of h c defaultALPNProtos VersionTLS12 timeout]
    by (auto simp: serverTLSHandshake_def Let_def validateALPN_iff split: sum.splits if_splits)
qed

theorem alpn_check_redundant_witness:
  "\<exists>w' cfg h'. BuildCamouflageConfig sym_crypto ''example.org'' ''chrome'' 50 (0, 7) = (w', Inr cfg) \<and>
    serverTLSHandshake (calm_env\<lparr>en_tls := \<lambda>_. Inr []\<rparr>) (RawConn 3) cfg [] = (h', Inr (ServerTLS (RawConn 3)))"
proof -
  let ?E = "calm_env\<lparr>en_tls := \<lambda>_. Inr []\<rparr>"
  obtain w' cfg where B: "BuildCamouflageConfig sym_crypto ''example.org'' ''chrome'' 50 (0, 7) = (w', Inr cfg)"
    using sym_builds by blast
  obtain h' r where S: "serverTLSHandshake ?E (RawConn 3) cfg [] = (h', r)"
    by (metis surj_pair)
  have doc: "p = [] \<or> p \<in> set protos"
    if "en_tls ?E (hist @ [EvTlsHandshake d protos v t]) = Inr p" for hist d protos v t p
    using that by simp
  from alpn_check_redundant [OF B doc S] show ?thesis
    using B S by auto
qed

section \<open>The shared configuration\<close>

text \<open>Both ends of a tunnel are built from one configuration that agrees with itself: the server offers
  exactly the protocols the client announces and the ALPN check allows, requires TLS 1.2, and
  presents one chain, whose leaf is issued for the very name the client puts into its hello.\<close>

theorem tunnel_config_consistent:
  assumes "x509_documented K X"
    and "BuildCamouflageConfig K sni browser timeout w = (w', Inr cfg)"
  shows "\<exists>scfg crt leafDER caDER. cg_serverTLSConfig cfg = Some scfg \<and>
    tl_NextProtos scfg = cg_alpnProtos cfg \<and> tl_MinVersion scfg = VersionTLS12 \<and>
    tl_Certificates scfg = [crt] \<and> tc_Certificate crt = [leafDER, caDER] \<and>
    (\<forall>leaf. cr_ParseCertificate K leafDER = Inr leaf \<longrightarrow> xc_DNSNames leaf = [cg_sni cfg]) \<and>
    cg_sni cfg = sni \<and> cg_handshakeTimeout cfg = timeout"
proof -
  obtain crt where g: "generateCertChain K sni w = (w', Inr crt)"
    and s: "cg_serverTLSConfig cfg = Some \<lparr>tl_Certificates = [crt], tl_NextProtos = defaultALPNProtos,
         tl_MinVersion = VersionTLS12\<rparr>"
    and c: "cg_sni cfg = sni" "cg_alpnProtos cfg = defaultALPNProtos" "cg_handshakeTimeout cfg = timeout"
    using BuildCamouflageConfig_Inr [OF assms(2)] by blast
  show ?thesis
  proof (rule generateCertChain_Inr [OF g])
    fix caKey leafKey caCert caDER leafDER s1 s2 t1 t2 t3 t4 u1 u1' u2 u2' v1 v1' v4
    assume "cr_CreateCertificate K (leaf_template sni s2 t3 t4) caCert
        (cr_PublicKey K leafKey) caKey v4 = (w', Inr leafDER)"
      and crt: "crt = \<lparr>tc_Certificate = [leafDER, caDER], tc_PrivateKey = leafKey\<rparr>"
    from documented_create(1) [OF assms(1) this(1)]
    have "xc_DNSNames leaf = [sni]" if "cr_ParseCertificate K leafDER = Inr leaf" for leaf
      using that by (simp add: encodes_def leaf_template_def)
    then show ?thesis
      using s c crt by auto
  qed
qed

theorem tunnel_config_consistent_witness:
  "\<exists>w' cfg scfg. BuildCamouflageConfig sym_crypto ''example.org'' ''edge'' 50 (0, 7) = (w', Inr cfg) \<and>
    cg_serverTLSConfig cfg = Some scfg \<and> tl_NextProtos scfg = cg_alpnProtos cfg \<and> cg_sni cfg = ''example.org''"
proof -
  obtain w' cfg where B: "BuildCamouflageConfig sym_crypto ''example.org'' ''edge'' 50 (0, 7) = (w', Inr cfg)"
    using sym_builds by blast
  from tunnel_config_consistent [OF sym_documented B] B show ?thesis
    by auto
qed

text \<open>Each documented browser name selects a fixed browser profile; exactly the other names, the empty
  one included, select the randomized hello and not Chrome's.\<close>

theorem fingerprint_selection:
  "(browserToHelloID browser = HelloRandomized \<longleftrightarrow>
      browser \<notin> {BrowserChrome, BrowserYandex, BrowserFirefox, BrowserSafari, BrowserEdge, BrowserIOS, BrowserAndroid}) \<and>
   (browserToHelloID browser = HelloChrome_Auto \<longleftrightarrow> browser \<in> {BrowserChrome, BrowserYandex}) \<and>
   browserToHelloID [] = HelloRandomized"
  by (simp add: browserToHelloID_def browser_defs)

end
