(* ===== verification/Transport.thy ===== *)
theory Transport
  imports TlsCamouflage
begin

text \<open>
  \<^verbatim>\<open>src/camouflage.go\<close>, the transport: its options and constructor, socket tuning, dialling with a
  resource scope, and the construction of the listener. Contexts are reduced to what the code uses
  of them: a deadline and the roles of a simultaneous connect.
\<close>

section \<open>The transport and its options\<close>

definition DefaultFragmentSize :: int where "DefaultFragmentSize = 2"
definition DefaultHandshakeLen :: int where "DefaultHandshakeLen = 2048"
definition DefaultMaxDelay :: int where "DefaultMaxDelay = 0"
definition defaultConnectTimeout :: int where "defaultConnectTimeout = 60 * time_Second"
definition defaultSNI :: string where "defaultSNI = ''www.googleapis.com''"
definition defaultHandshakeTimeout :: int where "defaultHandshakeTimeout = 10 * time_Second"
definition defaultBrowserChrome :: string where "defaultBrowserChrome = ''chrome''"

lemmas default_defs = DefaultFragmentSize_def DefaultHandshakeLen_def DefaultMaxDelay_def
  defaultConnectTimeout_def defaultSNI_def defaultHandshakeTimeout_def defaultBrowserChrome_def
  time_Second_def

datatype rcmgr = NullResourceManager | InjectedManager nat

text \<open>What the transport calls on \<^verbatim>\<open>tcp.TcpTransport\<close>.\<close>

record tcp_transport =
  tt_CanDial :: "multiaddr \<Rightarrow> bool"
  tt_Protocols :: "int list"

record ('key, 'der) transport =
  ct_inner :: "tcp_transport option"
  ct_rcmgr :: rcmgr
  ct_sharedTCP :: bool
  ct_fragmentSize :: int
  ct_handshakeLen :: int
  ct_maxDelay :: int
  ct_connectTimeout :: int
  ct_sni :: string
  ct_browserFingerprint :: string
  ct_handshakeTimeout :: int
  ct_camoConfig :: "('key, 'der) camo_config option"

type_synonym ('key, 'der) dial_option = "('key, 'der) transport \<Rightarrow> ('key, 'der) transport \<times> goerror option"

definition WithFragmentSize :: "int \<Rightarrow> ('key, 'der) dial_option" where
  "WithFragmentSize n t = ((if 0 < n then t\<lparr>ct_fragmentSize := n\<rparr> else t), None)"

definition WithHandshakeLen :: "int \<Rightarrow> ('key, 'der) dial_option" where
  "WithHandshakeLen n t = ((if 0 < n then t\<lparr>ct_handshakeLen := n\<rparr> else t), None)"

definition WithMaxDelay :: "int \<Rightarrow> ('key, 'der) dial_option" where
  "WithMaxDelay d t = ((if 0 \<le> d then t\<lparr>ct_maxDelay := d\<rparr> else t), None)"

definition WithConnectTimeout :: "int \<Rightarrow> ('key, 'der) dial_option" where
  "WithConnectTimeout d t = ((if 0 < d then t\<lparr>ct_connectTimeout := d\<rparr> else t), None)"

definition WithSNI :: "string \<Rightarrow> ('key, 'der) dial_option" where
  "WithSNI sni t = (t\<lparr>ct_sni := sni\<rparr>, None)"

definition WithBrowserFingerprint :: "string \<Rightarrow> ('key, 'der) dial_option" where
  "WithBrowserFingerprint browser t = (t\<lparr>ct_browserFingerprint := browser\<rparr>, None)"

definition WithHandshakeTimeout :: "int \<Rightarrow> ('key, 'der) dial_option" where
  "WithHandshakeTimeout d t = ((if 0 < d then t\<lparr>ct_handshakeTimeout := d\<rparr> else t), None)"

lemmas option_defs = WithFragmentSize_def WithHandshakeLen_def WithMaxDelay_def WithConnectTimeout_def
  WithSNI_def WithBrowserFingerprint_def WithHandshakeTimeout_def

text \<open>The loop \<^verbatim>\<open>for _, o := range opts\<close>: the first option that fails ends it.\<close>

fun apply_options :: "('key, 'der) dial_option list \<Rightarrow> ('key, 'der) transport \<Rightarrow>
    goerror + ('key, 'der) transport" where
  "apply_options [] t = Inr t"
| "apply_options (opt # opts) t =
     (case opt t of
        (t', Some err) \<Rightarrow> Inl err
      | (t', None) \<Rightarrow> apply_options opts t')"

definition initial_transport :: "rcmgr option \<Rightarrow> bool \<Rightarrow> ('key, 'der) transport" where
  "initial_transport rcmgr sharedTCP =
     \<lparr>ct_inner = None,
      ct_rcmgr = (case rcmgr of None \<Rightarrow> NullResourceManager | Some m \<Rightarrow> m),
      ct_sharedTCP = sharedTCP,
      ct_fragmentSize = DefaultFragmentSize,
      ct_handshakeLen = DefaultHandshakeLen,
      ct_maxDelay = DefaultMaxDelay,
      ct_connectTimeout = defaultConnectTimeout,
      ct_sni = defaultSNI,
      ct_browserFingerprint = defaultBrowserChrome,
      ct_handshakeTimeout = defaultHandshakeTimeout,
      ct_camoConfig = None\<rparr>"

text \<open>\<open>newTCP\<close> is \<^verbatim>\<open>tcp.NewTCPTransport\<close>, \<open>K\<close> the cryptographic library.\<close>

definition NewCamouflageTransport :: "('w, 'key, 'pub, 'der) crypto \<Rightarrow>
    (rcmgr \<Rightarrow> bool \<Rightarrow> ('w, tcp_transport) act) \<Rightarrow> rcmgr option \<Rightarrow> bool \<Rightarrow>
    ('key, 'der) dial_option list \<Rightarrow> ('w, ('key, 'der) transport) act" where
  "NewCamouflageTransport K newTCP rcmgr sharedTCP opts w =
     (case apply_options opts (initial_transport rcmgr sharedTCP) of
        Inl err \<Rightarrow> (w, Inl err)
      | Inr t \<Rightarrow>
          (case newTCP (ct_rcmgr t) sharedTCP w of
             (w1, Inl err) \<Rightarrow> (w1, Inl err)
           | (w1, Inr inner) \<Rightarrow>
               (case BuildCamouflageConfig K (ct_sni t) (ct_browserFingerprint t) (ct_handshakeTimeout t) w1 of
                  (w2, Inl err) \<Rightarrow> (w2, Inl err)
                | (w2, Inr cfg) \<Rightarrow> (w2, Inr (t\<lparr>ct_inner := Some inner, ct_camoConfig := Some cfg\<rparr>)))))"

text \<open>The methods that delegate; a transport without its inner transport would dereference nil.\<close>

definition ct_CanDial :: "('key, 'der) transport \<Rightarrow> multiaddr \<Rightarrow> bool outcome" where
  "ct_CanDial t addr = (case ct_inner t of Some inner \<Rightarrow> Return (tt_CanDial inner addr) | None \<Rightarrow> Panic)"

definition ct_Protocols :: "('key, 'der) transport \<Rightarrow> int list outcome" where
  "ct_Protocols t = (case ct_inner t of Some inner \<Rightarrow> Return (tt_Protocols inner) | None \<Rightarrow> Panic)"

definition ct_Proxy :: "('key, 'der) transport \<Rightarrow> bool" where
  "ct_Proxy t = False"

definition ct_String :: "('key, 'der) transport \<Rightarrow> string" where
  "ct_String t = ''CamouflageTCP''"

definition wrapConn :: "('key, 'der) transport \<Rightarrow> conn \<Rightarrow> conn" where
  "wrapConn t c = Spoofed c (NewSpoofConn (ct_fragmentSize t) (ct_handshakeLen t) (ct_maxDelay t) (ct_sni t))"

section \<open>Socket tuning\<close>

definition setLinger :: "env \<Rightarrow> conn \<Rightarrow> int \<Rightarrow> history \<Rightarrow> history" where
  "setLinger E c sec h = (if cp_SetLinger (en_caps E c) then h @ [EvSetLinger c sec] else h)"

definition tryKeepAlive :: "env \<Rightarrow> conn \<Rightarrow> bool \<Rightarrow> history \<Rightarrow> history" where
  "tryKeepAlive E c enabled h =
     (if cp_SetKeepAlive (en_caps E c) \<and> cp_SetKeepAlivePeriod (en_caps E c) then
        (let h1 = h @ [EvSetKeepAlive c enabled]
         in if en_keepalive E h1 \<noteq> None then h1
            else if \<not> enabled then h1
            else h1 @ [EvSetKeepAlivePeriod c (30 * time_Second)])
      else if cp_SetKeepAlive (en_caps E c) then h @ [EvSetKeepAlive c enabled]
      else h)"

section \<open>Dialling\<close>

text \<open>
  A dial context: its deadline, and what \<^verbatim>\<open>network.GetSimultaneousConnect\<close> reads from it, none or the
  flag \<^verbatim>\<open>isClient\<close>. \<^verbatim>\<open>context.WithTimeout\<close> keeps the earlier deadline.
\<close>

record dial_ctx =
  dx_deadline :: "int option"
  dx_simultaneous :: "bool option"

definition WithTimeout :: "int \<Rightarrow> int \<Rightarrow> dial_ctx \<Rightarrow> dial_ctx" where
  "WithTimeout now d ctx =
     ctx\<lparr>dx_deadline := Some (case dx_deadline ctx of None \<Rightarrow> now + d | Some t \<Rightarrow> min t (now + d))\<rparr>"

definition dialRaw :: "env \<Rightarrow> ('key, 'der) transport \<Rightarrow> dial_ctx \<Rightarrow> multiaddr \<Rightarrow> (history, conn) act" where
  "dialRaw E t ctx raddr h =
     (let ctx' = (if 0 < ct_connectTimeout t then WithTimeout (en_now E h) (ct_connectTimeout t) ctx else ctx);
          d = (if ct_sharedTCP t then SharedTCP else if en_reuseport E then ReusePort else PlainDialer);
          h1 = h @ [EvDial d raddr (dx_deadline ctx')]
      in (case en_dial E h1 of
            Inl err \<Rightarrow> (h1, Inl err)
          | Inr n \<Rightarrow> (h1, Inr (RawConn n))))"

definition dial_direction :: "dial_ctx \<Rightarrow> direction" where
  "dial_direction ctx =
     (case dx_simultaneous ctx of
        Some isClient \<Rightarrow> (if \<not> isClient then DirInbound else DirOutbound)
      | None \<Rightarrow> DirOutbound)"

text \<open>
  The upgrader's result is the number of its connection, or its error. A transport without a
  configuration (one not made by the constructor) would dereference nil.
\<close>

definition upgradeDialed :: "env \<Rightarrow> ('key, 'der) transport \<Rightarrow> dial_ctx \<Rightarrow> conn \<Rightarrow> peer_id \<Rightarrow> scope_id \<Rightarrow>
    history \<Rightarrow> (history \<times> (goerror + nat)) outcome" where
  "upgradeDialed E t ctx rawConn p connScope h =
     (let h1 = tryKeepAlive E rawConn True (setLinger E rawConn 0 h);
          direction = dial_direction ctx;
          wrapped = wrapConn t rawConn
      in (case ct_camoConfig t of
            None \<Rightarrow> Panic
          | Some cfg \<Rightarrow>
              (case NewCamouflageConn E wrapped (direction = DirOutbound) cfg h1 of
                 (h2, Inl err) \<Rightarrow> Return (h2 @ [EvClose rawConn], Inl err)
               | (h2, Inr camouflaged) \<Rightarrow>
                   (let h3 = h2 @ [EvUpgrade camouflaged direction p connScope]
                    in Return (h3, en_upgrade E h3)))))"

text \<open>The non-blocking send on \<^verbatim>\<open>updateChan\<close>, which may be nil.\<close>

definition send_update :: "env \<Rightarrow> multiaddr \<Rightarrow> bool \<Rightarrow> history \<Rightarrow> history" where
  "send_update E raddr updateChan h =
     (if updateChan \<and> en_updateReady E h then h @ [EvDialUpdate raddr] else h)"

definition dialWithScope :: "env \<Rightarrow> ('key, 'der) transport \<Rightarrow> dial_ctx \<Rightarrow> multiaddr \<Rightarrow> peer_id \<Rightarrow> scope_id \<Rightarrow>
    bool \<Rightarrow> history \<Rightarrow> (history \<times> (goerror + nat)) outcome" where
  "dialWithScope E t ctx raddr p connScope updateChan h =
     (let h1 = h @ [EvSetPeer connScope p]
      in (case en_setPeer E h1 of
            Some err \<Rightarrow> Return (h1, Inl err)
          | None \<Rightarrow>
              (case dialRaw E t ctx raddr h1 of
                 (h2, Inl err) \<Rightarrow> Return (h2, Inl err)
               | (h2, Inr rawConn) \<Rightarrow>
                   upgradeDialed E t ctx rawConn p connScope (send_update E raddr updateChan h2))))"

definition DialWithUpdates :: "env \<Rightarrow> ('key, 'der) transport \<Rightarrow> dial_ctx \<Rightarrow> multiaddr \<Rightarrow> peer_id \<Rightarrow>
    bool \<Rightarrow> history \<Rightarrow> (history \<times> (goerror + nat)) outcome" where
  "DialWithUpdates E t ctx raddr p updateChan h =
     (let h1 = h @ [EvOpenConnection DirOutbound True raddr]
      in (case en_open E h1 of
            Inl err \<Rightarrow> Return (h1, Inl err)
          | Inr connScope \<Rightarrow>
              (case dialWithScope E t ctx raddr p connScope updateChan h1 of
                 Panic \<Rightarrow> Panic
               | Return (h2, Inl err) \<Rightarrow> Return (h2 @ [EvScopeDone connScope], Inl err)
               | Return (h2, Inr c) \<Rightarrow> Return (h2, Inr c))))"

definition Dial :: "env \<Rightarrow> ('key, 'der) transport \<Rightarrow> dial_ctx \<Rightarrow> multiaddr \<Rightarrow> peer_id \<Rightarrow>
    history \<Rightarrow> (history \<times> (goerror + nat)) outcome" where
  "Dial E t ctx raddr p h = DialWithUpdates E t ctx raddr p False h"

section \<open>Listening\<close>

definition acceptQueueSize :: nat where "acceptQueueSize = 64"

text \<open>The immutable part of the listener; its running state is in theory \<^verbatim>\<open>Listener\<close>.\<close>

record ('key, 'der) gated_listener =
  gl_fragmentSize :: int
  gl_handshakeLen :: int
  gl_maxDelay :: int
  gl_sni :: string
  gl_camoConfig :: "('key, 'der) camo_config option"
  gl_queueCap :: nat

definition newCamouflageGatedMaListener :: "('key, 'der) transport \<Rightarrow> ('key, 'der) gated_listener" where
  "newCamouflageGatedMaListener t =
     \<lparr>gl_fragmentSize = ct_fragmentSize t,
      gl_handshakeLen = ct_handshakeLen t,
      gl_maxDelay = ct_maxDelay t,
      gl_sni = ct_sni t,
      gl_camoConfig = ct_camoConfig t,
      gl_queueCap = acceptQueueSize\<rparr>"

definition Listen :: "env \<Rightarrow> ('key, 'der) transport \<Rightarrow> multiaddr \<Rightarrow>
    (history, ('key, 'der) gated_listener) act" where
  "Listen E t laddr h =
     (if ct_sharedTCP t then
        (let h1 = h @ [EvListen SharedDemuxTLS laddr]
         in (case en_listen E h1 of
               Some err \<Rightarrow> (h1, Inl err)
             | None \<Rightarrow> (h1, Inr (newCamouflageGatedMaListener t))))
      else
        (let h1 = h @ [EvListen (if en_reuseport E then ReusePortListen else PlainListen) laddr]
         in (case en_listen E h1 of
               Some err \<Rightarrow> (h1, Inl err)
             | None \<Rightarrow> (h1 @ [EvGateListener], Inr (newCamouflageGatedMaListener t)))))"

section \<open>Options and the constructor\<close>

text \<open>The options the package offers; \<^verbatim>\<open>Option\<close> itself is an open function type.\<close>

inductive package_option :: "('key, 'der) dial_option \<Rightarrow> bool" where
  "package_option (WithFragmentSize n)"
| "package_option (WithHandshakeLen n)"
| "package_option (WithMaxDelay d)"
| "package_option (WithConnectTimeout d)"
| "package_option (WithSNI sni)"
| "package_option (WithBrowserFingerprint b)"
| "package_option (WithHandshakeTimeout d)"

definition limits_ok :: "('key, 'der) transport \<Rightarrow> bool" where
  "limits_ok t \<longleftrightarrow> 0 < ct_fragmentSize t \<and> 0 < ct_handshakeLen t \<and> 0 \<le> ct_maxDelay t \<and>
     0 < ct_connectTimeout t \<and> 0 < ct_handshakeTimeout t"

lemma initial_limits: "limits_ok (initial_transport rcmgr sharedTCP)"
  by (simp add: limits_ok_def initial_transport_def default_defs)

text \<open>A package option never fails, keeps the limits in range and touches no injected part.\<close>

definition option_keeps :: "('key, 'der) transport \<Rightarrow> ('key, 'der) transport \<Rightarrow> bool" where
  "option_keeps t t' \<longleftrightarrow> (limits_ok t \<longrightarrow> limits_ok t') \<and> ct_rcmgr t' = ct_rcmgr t \<and>
     ct_sharedTCP t' = ct_sharedTCP t \<and> ct_inner t' = ct_inner t \<and> ct_camoConfig t' = ct_camoConfig t"

lemma option_keeps_refl [simp]: "option_keeps t t"
  by (simp add: option_keeps_def)

lemma option_keeps_limits: "option_keeps t t' \<Longrightarrow> limits_ok t \<Longrightarrow> limits_ok t'"
  by (simp add: option_keeps_def)

lemma option_keeps_trans: "option_keeps t t' \<Longrightarrow> option_keeps t' t'' \<Longrightarrow> option_keeps t t''"
  by (simp add: option_keeps_def)

lemma package_option_keeps:
  "package_option opt \<Longrightarrow> \<exists>t'. opt t = (t', None) \<and> option_keeps t t'"
  by (induction rule: package_option.induct) (auto simp: option_defs option_keeps_def limits_ok_def)

lemma apply_package_options:
  "\<forall>opt \<in> set opts. package_option opt \<Longrightarrow> \<exists>t'. apply_options opts t = Inr t' \<and> option_keeps t t'"
proof (induction opts arbitrary: t)
  case (Cons opt opts)
  obtain t1 where t1: "opt t = (t1, None)" "option_keeps t t1"
    using package_option_keeps Cons.prems by (metis list.set_intros(1))
  moreover obtain t' where "apply_options opts t1 = Inr t'" "option_keeps t1 t'"
    using Cons by force
  ultimately show ?case
    using option_keeps_trans by auto
qed simp

lemma NewCamouflageTransport_Inr:
  assumes "NewCamouflageTransport K newTCP rcmgr sharedTCP opts w = (w', Inr t)"
  obtains t0 inner cfg w1 where "apply_options opts (initial_transport rcmgr sharedTCP) = Inr t0"
    and "newTCP (ct_rcmgr t0) sharedTCP w = (w1, Inr inner)"
    and "BuildCamouflageConfig K (ct_sni t0) (ct_browserFingerprint t0) (ct_handshakeTimeout t0) w1 = (w', Inr cfg)"
    and "t = t0\<lparr>ct_inner := Some inner, ct_camoConfig := Some cfg\<rparr>"
  using assms by (auto simp: NewCamouflageTransport_def split: sum.splits prod.splits)

section \<open>What a dial leaves in the history\<close>

text \<open>Events that neither release a scope nor close a connection.\<close>

fun tuning :: "conn \<Rightarrow> event \<Rightarrow> bool" where
  "tuning c (EvSetLinger d n) = (d = c \<and> n = 0)"
| "tuning c (EvSetKeepAlive d b) = (d = c \<and> b)"
| "tuning c (EvSetKeepAlivePeriod d n) = (d = c \<and> n = 30 * time_Second)"
| "tuning c _ = False"

lemma tuning_quiet:
  "list_all (tuning c) evs \<Longrightarrow> releases s evs = 0 \<and> closes n evs = 0"
proof (induction evs)
  case (Cons e evs)
  then show ?case
    by (cases e) simp_all
qed simp

lemma tune_socket:
  obtains evs where "tryKeepAlive E c True (setLinger E c 0 h) = h @ evs" and "list_all (tuning c) evs"
proof -
  have "\<exists>evs. tryKeepAlive E c True (setLinger E c 0 h) = h @ evs \<and> list_all (tuning c) evs"
    by (auto simp: tryKeepAlive_def setLinger_def Let_def)
  then show ?thesis
    using that by blast
qed

lemma upgradeDialed_cases:
  assumes "upgradeDialed E t ctx c p s h = Return (h', r)"
  obtains (failed) evs h1 err cfg where "list_all (tuning c) evs" and "ct_camoConfig t = Some cfg"
      and "NewCamouflageConn E (wrapConn t c) (dial_direction ctx = DirOutbound) cfg (h @ evs) = (h1, Inl err)"
      and "h' = h1 @ [EvClose c]" and "r = Inl err"
    | (upgraded) evs h1 cc cfg where "list_all (tuning c) evs" and "ct_camoConfig t = Some cfg"
      and "NewCamouflageConn E (wrapConn t c) (dial_direction ctx = DirOutbound) cfg (h @ evs) = (h1, Inr cc)"
      and "h' = h1 @ [EvUpgrade cc (dial_direction ctx) p s]" and "r = en_upgrade E h'"
proof (rule tune_socket)
  fix evs
  assume evs: "tryKeepAlive E c True (setLinger E c 0 h) = h @ evs" "list_all (tuning c) evs"
  obtain cfg where cfg: "ct_camoConfig t = Some cfg"
    using assms by (auto simp: upgradeDialed_def Let_def split: option.splits)
  show thesis
    using assms evs cfg that
    by (auto simp: upgradeDialed_def Let_def split: prod.splits sum.splits)
qed

lemma dialRaw_Inr:
  assumes "dialRaw E t ctx raddr h = (h', Inr c)"
  obtains n d dl where "c = RawConn n" and "h' = h @ [EvDial d raddr dl]" and "en_dial E h' = Inr n"
  using assms by (auto simp: dialRaw_def Let_def split: sum.splits)

lemma dialRaw_releases: "dialRaw E t ctx raddr h = (h', r) \<Longrightarrow> releases s h' = releases s h"
  by (auto simp: dialRaw_def Let_def split: sum.splits)

lemma upgradeDialed_releases:
  "upgradeDialed E t ctx c p s h = Return (h', r) \<Longrightarrow> releases s' h' = releases s' h"
  by (erule upgradeDialed_cases) (auto simp: tuning_quiet dest!: NewCamouflageConn_releases [of E _ _ _ _ _ _ s'])

lemma send_update_releases [simp]: "releases s (send_update E raddr u h) = releases s h"
  by (simp add: send_update_def)

lemma dialWithScope_releases:
  "dialWithScope E t ctx raddr p s u h = Return (h', r) \<Longrightarrow> releases s' h' = releases s' h"
  by (auto simp: dialWithScope_def Let_def split: prod.splits sum.splits option.splits
      dest!: dialRaw_releases [of _ _ _ _ _ _ _ s'] upgradeDialed_releases [of _ _ _ _ _ _ _ _ _ s'])

section \<open>Scopes\<close>

text \<open>
  The contract between \<^verbatim>\<open>DialWithUpdates\<close>, which owns the scope, and the body it runs with it: the
  body releases no scope. Whoever keeps it is balanced by the wrapper below.
\<close>

definition with_scope :: "env \<Rightarrow> multiaddr \<Rightarrow> (scope_id \<Rightarrow> history \<Rightarrow> (history \<times> (goerror + nat)) outcome) \<Rightarrow>
    history \<Rightarrow> (history \<times> (goerror + nat)) outcome" where
  "with_scope E raddr body h =
     (let h1 = h @ [EvOpenConnection DirOutbound True raddr]
      in (case en_open E h1 of
            Inl err \<Rightarrow> Return (h1, Inl err)
          | Inr s \<Rightarrow>
              (case body s h1 of
                 Panic \<Rightarrow> Panic
               | Return (h2, Inl err) \<Rightarrow> Return (h2 @ [EvScopeDone s], Inl err)
               | Return (h2, Inr c) \<Rightarrow> Return (h2, Inr c))))"

locale scoped_body =
  fixes body :: "scope_id \<Rightarrow> history \<Rightarrow> (history \<times> (goerror + nat)) outcome"
  assumes body_keeps: "body s h = Return (h', r) \<Longrightarrow> releases s' h' = releases s' h"
begin

lemma balanced:
  "with_scope E raddr body h = Return (h', r) \<Longrightarrow>
     releases s h' = releases s h +
       (if en_open E (h @ [EvOpenConnection DirOutbound True raddr]) = Inr s \<and> isl r then 1 else 0)"
  by (auto simp: with_scope_def Let_def split: sum.splits outcome.splits prod.splits
      dest!: body_keeps [of _ _ _ _ s])

lemma released_last:
  "with_scope E raddr body h = Return (h', Inl err) \<Longrightarrow>
     en_open E (h @ [EvOpenConnection DirOutbound True raddr]) = Inr s \<Longrightarrow> last h' = EvScopeDone s"
  by (auto simp: with_scope_def Let_def split: sum.splits outcome.splits prod.splits)

end

lemma DialWithUpdates_with_scope:
  "DialWithUpdates E t ctx raddr p u = with_scope E raddr (\<lambda>s. dialWithScope E t ctx raddr p s u)"
  by (rule ext) (simp add: DialWithUpdates_def with_scope_def)

interpretation dial: scoped_body "\<lambda>s. dialWithScope E t ctx raddr p s u" for E t ctx raddr p u
  by unfold_locales (rule dialWithScope_releases)

end
