(* ===== verification/TransportClaims.thy ===== *)
theory TransportClaims
  imports Transport TlsClaims
begin

text \<open>
  The properties of the transport (\<^verbatim>\<open>src/camouflage.go\<close>): resource scopes and connections along every
  path of a dial, the layers of a dialled connection, roles, timeouts, the constructor, listening.
\<close>

section \<open>A transport for the witnesses\<close>

definition demo_transport :: "(int, sym_der) transport" where
  "demo_transport = (initial_transport None False)\<lparr>ct_camoConfig := Some demo_config\<rparr>"

definition demo_ctx :: dial_ctx where
  "demo_ctx = \<lparr>dx_deadline = None, dx_simultaneous = None\<rparr>"

definition refusing_env :: env where
  "refusing_env = calm_env\<lparr>en_utls := \<lambda>_. Some (External ''EOF'')\<rparr>"

lemmas demo_defs = demo_transport_def demo_ctx_def demo_config_def calm_env_def refusing_env_def
  initial_transport_def defaultConnectTimeout_def time_Second_def wrapConn_def NewSpoofConn_def

lemmas dial_defs = DialWithUpdates_def dialWithScope_def upgradeDialed_def dialRaw_def send_update_def
  tryKeepAlive_def setLinger_def dial_direction_def WithTimeout_def NewCamouflageConn_def
  clientTLSHandshake_def serverTLSHandshake_def

lemma demo_dial_ok:
  "\<exists>h'. DialWithUpdates calm_env demo_transport demo_ctx ''/ip4/1.2.3.4'' ''QmPeer'' True [] = Return (h', Inr 5)"
  by (simp add: dial_defs demo_defs Let_def)

lemma demo_dial_refused:
  "\<exists>h' e. DialWithUpdates refusing_env demo_transport demo_ctx ''/ip4/1.2.3.4'' ''QmPeer'' True [] =
    Return (h', Inl e)"
  by (simp add: dial_defs demo_defs Let_def)

section \<open>Ownership along a dial\<close>

text \<open>C5 A dial releases the resource scope it opened exactly once if it returns an error, and then as its
  very last action, and not at all if it succeeds; it releases no other scope. This covers every
  failure: a blocked peer, a failed connect, a failed handshake, a failed upgrade.\<close>

theorem dial_scope_balanced:
  assumes "DialWithUpdates E t ctx raddr p u h = Return (h', r)"
  shows "releases s h' = releases s h +
      (if en_open E (h @ [EvOpenConnection DirOutbound True raddr]) = Inr s \<and> isl r then 1 else 0) \<and>
    (en_open E (h @ [EvOpenConnection DirOutbound True raddr]) = Inr s \<and> isl r \<longrightarrow> last h' = EvScopeDone s)"
  using dial.balanced [OF assms [unfolded DialWithUpdates_with_scope], of s]
    dial.released_last assms
  by (cases r) (auto simp: DialWithUpdates_with_scope)

theorem dial_scope_balanced_witness:
  "\<exists>h' r. DialWithUpdates refusing_env demo_transport demo_ctx ''/ip4/1.2.3.4'' ''QmPeer'' True [] =
    Return (h', r) \<and> releases 1 h' = 1 \<and> releases 2 h' = 0 \<and> last h' = EvScopeDone 1"
proof -
  obtain h' e where R: "DialWithUpdates refusing_env demo_transport demo_ctx ''/ip4/1.2.3.4'' ''QmPeer''
      True [] = Return (h', Inl e)"
    using demo_dial_refused by blast
  have o: "en_open refusing_env hist = Inr 1" for hist
    by (simp add: demo_defs)
  show ?thesis
    using dial_scope_balanced [OF R, of 1] dial_scope_balanced [OF R, of 2] R by (auto simp: o)
qed

text \<open>How often a raw connection was handed to the upgrader.\<close>

definition upgrades :: "nat \<Rightarrow> history \<Rightarrow> nat" where
  "upgrades n h = length (filter (\<lambda>e. case e of EvUpgrade cc d p s \<Rightarrow> raw_conn (cc_tlsConn cc) = n | _ \<Rightarrow> False) h)"

lemma upgrades_simps [simp]:
  "upgrades n [] = 0"
  "upgrades n (h @ h') = upgrades n h + upgrades n h'"
  "upgrades n (EvUpgrade cc d p s # h) = (if raw_conn (cc_tlsConn cc) = n then 1 else 0) + upgrades n h"
  "upgrades n (EvClose c # h) = upgrades n h"
  "upgrades n (EvSetDeadline c dl # h) = upgrades n h"
  "upgrades n (handshake_event c b cfg # h) = upgrades n h"
  by (simp_all add: upgrades_def handshake_event_def split: option.split)

lemma tuning_no_upgrade: "list_all (tuning c) evs \<Longrightarrow> upgrades n evs = 0"
  by (induction evs) (auto simp: upgrades_def split: event.splits)

lemma upgradeDialed_owned:
  assumes "upgradeDialed E t ctx (RawConn n) p s h = Return (h', r)"
  shows "upgrades n h' = upgrades n h + 1 \<and> closes n h' = closes n h \<and> r = en_upgrade E h' \<or>
    upgrades n h' = upgrades n h \<and> closes n h < closes n h' \<and> isl r"
  using assms
proof (cases rule: upgradeDialed_cases)
  case (failed evs h1 err cfg)
  have "upgrades n h1 = upgrades n h \<and> closes n h \<le> closes n h1"
  proof (rule NewCamouflageConn_Inl [OF failed(3)])
    fix cause es
    assume "h1 = (h @ evs) @ EvSetDeadline (wrapConn t (RawConn n))
        (Some (en_now E (h @ evs) + cg_handshakeTimeout cfg)) # es"
      and "es = [] \<and> \<not> (dial_direction ctx = DirOutbound) \<and> cg_serverTLSConfig cfg = None \<and> cause = Sentinel ErrConfigNotInit \<or>
        es = [handshake_event (wrapConn t (RawConn n)) (dial_direction ctx = DirOutbound) cfg] \<or>
        es = [handshake_event (wrapConn t (RawConn n)) (dial_direction ctx = DirOutbound) cfg,
          EvClose (ServerTLS (wrapConn t (RawConn n)))] \<and> \<not> (dial_direction ctx = DirOutbound) \<and>
          errors_Is cause (Sentinel ErrALPNMismatch)"
    then show ?thesis
      by (auto simp: tuning_no_upgrade [OF failed(1)] tuning_quiet [OF failed(1)])
  qed
  with failed show ?thesis
    by (auto simp: upgrades_def)
next
  case (upgraded evs h1 cc cfg)
  have cc: "cc_tlsConn cc = tunnel (wrapConn t (RawConn n)) (dial_direction ctx = DirOutbound)"
    and h1: "h1 = h @ evs @ [EvSetDeadline (wrapConn t (RawConn n))
        (Some (en_now E (h @ evs) + cg_handshakeTimeout cfg)),
      handshake_event (wrapConn t (RawConn n)) (dial_direction ctx = DirOutbound) cfg,
      EvSetDeadline (wrapConn t (RawConn n)) None]"
    using NewCamouflageConn_Inr [OF upgraded(3)] by simp_all
  have "closes n h1 = closes n h"
    using NewCamouflageConn_closes_ok [OF upgraded(3), of n] tuning_quiet [OF upgraded(1)] by simp
  with upgraded cc h1 show ?thesis
    by (auto simp: tuning_no_upgrade [OF upgraded(1)] tunnel_def wrapConn_def)
qed

text \<open>C19 A connection the dial obtained is never lost: it is handed to the upgrader exactly once and left
  open, with the upgrader's result returned, or it is closed and the dial returns an error.\<close>

theorem dialled_connection_owned:
  assumes "DialWithUpdates E t ctx raddr p u h = Return (h', r)"
    and "h1 = h @ [EvOpenConnection DirOutbound True raddr]" and "en_open E h1 = Inr s"
    and "h2 = h1 @ [EvSetPeer s p]" and "en_setPeer E h2 = None"
    and "dialRaw E t ctx raddr h2 = (h3, Inr (RawConn n))"
  shows "upgrades n h' = upgrades n h + 1 \<and> closes n h' = closes n h \<or>
    upgrades n h' = upgrades n h \<and> closes n h < closes n h' \<and> isl r"
proof -
  have h3: "upgrades n h3 = upgrades n h" "closes n h3 = closes n h"
    using assms(2,4,6) by (auto elim!: dialRaw_Inr simp: upgrades_def)
  have send: "upgrades n (send_update E raddr u h3) = upgrades n h"
    "closes n (send_update E raddr u h3) = closes n h"
    using h3 by (auto simp: send_update_def upgrades_def)
  obtain h4 r4 where up: "upgradeDialed E t ctx (RawConn n) p s (send_update E raddr u h3) = Return (h4, r4)"
    using assms by (auto simp: DialWithUpdates_def dialWithScope_def Let_def split: outcome.splits)
  have "r = r4 \<and> h' = h4 @ (if isl r4 then [EvScopeDone s] else [])"
    using assms up
    by (cases r4) (auto simp: DialWithUpdates_def dialWithScope_def Let_def)
  with upgradeDialed_owned [OF up] send show ?thesis
    by (auto simp: upgrades_def)
qed

theorem dialled_connection_owned_witness:
  "\<exists>h' e. DialWithUpdates refusing_env demo_transport demo_ctx ''/ip4/1.2.3.4'' ''QmPeer'' True [] =
    Return (h', Inl e) \<and> (upgrades 7 h' = 1 \<or> 0 < closes 7 h')"
proof -
  obtain h' e where R: "DialWithUpdates refusing_env demo_transport demo_ctx ''/ip4/1.2.3.4'' ''QmPeer''
      True [] = Return (h', Inl e)"
    using demo_dial_refused by blast
  have o: "en_open refusing_env ([] @ [EvOpenConnection DirOutbound True ''/ip4/1.2.3.4'']) = Inr 1"
    "en_setPeer refusing_env hist = None" for hist
    by (simp_all add: demo_defs)
  have d: "\<exists>h3. dialRaw refusing_env demo_transport demo_ctx a hist = (h3, Inr (RawConn 7))" for a hist
    by (simp add: dialRaw_def demo_defs Let_def)
  show ?thesis
    using dialled_connection_owned [OF R refl o(1) refl o(2)] d R
    by (metis Nil_is_append_conv add.commute add_0 bot_nat_0.extremum_strict closes_simps(1) gr0I upgrades_simps(1))
qed

section \<open>The layers of a dialled connection\<close>

text \<open>C32 A successful dial is this sequence of calls and no other: scope, peer, connect, an optional progress
  update, socket tuning, then the TLS handshake, in the role of the dial's direction and under its
  deadline, over a fresh \<^verbatim>\<open>SpoofConn\<close> on the raw connection with the transport's own parameters,
  and last the upgrade of exactly that tunnel.\<close>

theorem successful_dial_layers:
  assumes "DialWithUpdates E t ctx raddr p u h = Return (h', Inr conn)"
  shows "\<exists>s n d dl upd tune dl' cfg. ct_camoConfig t = Some cfg \<and>
    (let raw = RawConn n;
         spoofed = Spoofed raw (NewSpoofConn (ct_fragmentSize t) (ct_handshakeLen t) (ct_maxDelay t) (ct_sni t));
         isClient = (dial_direction ctx = DirOutbound);
         top = (if isClient then ClientTLS spoofed else ServerTLS spoofed)
     in h' = h @ [EvOpenConnection DirOutbound True raddr, EvSetPeer s p, EvDial d raddr dl] @ upd @ tune @
          [EvSetDeadline spoofed (Some dl'), handshake_event spoofed isClient cfg, EvSetDeadline spoofed None,
           EvUpgrade \<lparr>cc_tlsConn = top, cc_rawConn = spoofed\<rparr> (dial_direction ctx) p s] \<and>
        upd \<in> {[], [EvDialUpdate raddr]} \<and> (\<not> u \<longrightarrow> upd = []) \<and> list_all (tuning raw) tune \<and>
        en_upgrade E h' = Inr conn)"
proof -
  let ?h1 = "h @ [EvOpenConnection DirOutbound True raddr]"
  obtain s where s: "en_open E ?h1 = Inr s"
    and w: "dialWithScope E t ctx raddr p s u ?h1 = Return (h', Inr conn)"
    using assms by (auto simp: DialWithUpdates_def Let_def split: sum.splits outcome.splits prod.splits)
  let ?h2 = "?h1 @ [EvSetPeer s p]"
  obtain h3 c where d: "dialRaw E t ctx raddr ?h2 = (h3, Inr c)"
    and up: "upgradeDialed E t ctx c p s (send_update E raddr u h3) = Return (h', Inr conn)"
    using w by (auto simp: dialWithScope_def Let_def split: option.splits prod.splits sum.splits)
  obtain n dk dl where c: "c = RawConn n" and h3: "h3 = ?h2 @ [EvDial dk raddr dl]"
    using d by (rule dialRaw_Inr)
  obtain upd where upd: "send_update E raddr u h3 = h3 @ upd" "upd \<in> {[], [EvDialUpdate raddr]}" "\<not> u \<longrightarrow> upd = []"
    by (cases "u \<and> en_updateReady E h3") (auto simp: send_update_def)
  show ?thesis
    using up
  proof (cases rule: upgradeDialed_cases)
    case (upgraded evs h4 cc cfg)
    with NewCamouflageConn_Inr [OF upgraded(3)] c h3 upd show ?thesis
      by (intro exI [of _ s] exI [of _ n] exI [of _ dk] exI [of _ dl] exI [of _ upd] exI [of _ evs]
          exI [of _ "en_now E (send_update E raddr u h3 @ evs) + cg_handshakeTimeout cfg"] exI [of _ cfg])
        (simp add: Let_def tunnel_def wrapConn_def)
  qed simp
qed

theorem successful_dial_layers_witness:
  "\<exists>h' conn. DialWithUpdates calm_env demo_transport demo_ctx ''/ip4/1.2.3.4'' ''QmPeer'' True [] =
    Return (h', Inr conn) \<and> hd h' = EvOpenConnection DirOutbound True ''/ip4/1.2.3.4'' \<and>
    (\<exists>cc s. last h' = EvUpgrade cc DirOutbound ''QmPeer'' s)"
proof -
  obtain h' where R: "DialWithUpdates calm_env demo_transport demo_ctx ''/ip4/1.2.3.4'' ''QmPeer''
      True [] = Return (h', Inr 5)"
    using demo_dial_ok by blast
  have "dial_direction demo_ctx = DirOutbound"
    by (simp add: dial_direction_def demo_ctx_def)
  with successful_dial_layers [OF R] R show ?thesis
    by (auto simp: Let_def)
qed

lemma upgraded_tunnel:
  assumes "upgradeDialed E t ctx c p s h = Return (h', Inr r)"
  shows "\<exists>cc. last h' = EvUpgrade cc (dial_direction ctx) p s \<and>
    cc_tlsConn cc = tunnel (wrapConn t c) (dial_direction ctx = DirOutbound)"
  using assms by (cases rule: upgradeDialed_cases) (use NewCamouflageConn_Inr in fastforce)+

text \<open>C40 When two peers dial each other at once and their contexts give them opposite roles, exactly one
  of them runs the client side of the TLS handshake, and each tells its upgrader the direction that
  matches its TLS role.\<close>

theorem simultaneous_connect_roles:
  assumes "dx_simultaneous ctx1 = Some isClient" and "dx_simultaneous ctx2 = Some (\<not> isClient)"
    and "upgradeDialed E1 t1 ctx1 c1 p1 s1 h1 = Return (h1', Inr r1)"
    and "upgradeDialed E2 t2 ctx2 c2 p2 s2 h2 = Return (h2', Inr r2)"
  shows "\<exists>cc1 cc2 d1 d2. last h1' = EvUpgrade cc1 d1 p1 s1 \<and> last h2' = EvUpgrade cc2 d2 p2 s2 \<and> d1 \<noteq> d2 \<and>
    (cc_tlsConn cc1 = ClientTLS (wrapConn t1 c1) \<and> d1 = DirOutbound \<and> cc_tlsConn cc2 = ServerTLS (wrapConn t2 c2) \<or>
     cc_tlsConn cc1 = ServerTLS (wrapConn t1 c1) \<and> d2 = DirOutbound \<and> cc_tlsConn cc2 = ClientTLS (wrapConn t2 c2))"
proof -
  show ?thesis
    using upgraded_tunnel [OF assms(3)] upgraded_tunnel [OF assms(4)] assms(1,2)
    by (cases isClient) (fastforce simp: dial_direction_def tunnel_def)+
qed

theorem simultaneous_connect_roles_witness:
  "\<exists>h1 h2. upgradeDialed calm_env demo_transport (demo_ctx\<lparr>dx_simultaneous := Some True\<rparr>) (RawConn 1) ''A'' 1 [] =
      Return (h1, Inr 5) \<and>
    upgradeDialed calm_env demo_transport (demo_ctx\<lparr>dx_simultaneous := Some False\<rparr>) (RawConn 2) ''B'' 2 [] =
      Return (h2, Inr 5) \<and>
    (\<exists>cc1 cc2 d1 d2. last h1 = EvUpgrade cc1 d1 ''A'' 1 \<and> last h2 = EvUpgrade cc2 d2 ''B'' 2 \<and> d1 \<noteq> d2)"
proof -
  obtain h1 where 1: "upgradeDialed calm_env demo_transport (demo_ctx\<lparr>dx_simultaneous := Some True\<rparr>)
      (RawConn 1) ''A'' 1 [] = Return (h1, Inr 5)"
    by (simp add: dial_defs demo_defs Let_def)
  obtain h2 where 2: "upgradeDialed calm_env demo_transport (demo_ctx\<lparr>dx_simultaneous := Some False\<rparr>)
      (RawConn 2) ''B'' 2 [] = Return (h2, Inr 5)"
    by (simp add: dial_defs demo_defs Let_def validateALPN_def defaultALPNProtos_def)
  show ?thesis
    using simultaneous_connect_roles [OF _ _ 1 2, of True] 1 2 by auto
qed

section \<open>Connecting\<close>

text \<open>The connect runs under a deadline no later than the transport's connect timeout from now and no
  later than the caller's own; it goes through the shared TCP manager when there is one, else
  through the reuse-port transport when available, else through a plain dialer; it is tried once.\<close>

theorem connect_bounded:
  assumes "0 < ct_connectTimeout t" and "dialRaw E t ctx raddr h = (h', r)"
  shows "\<exists>d dl. h' = h @ [EvDial d raddr (Some dl)] \<and> dl \<le> en_now E h + ct_connectTimeout t \<and>
    (\<forall>own. dx_deadline ctx = Some own \<longrightarrow> dl \<le> own) \<and>
    (d = SharedTCP \<longleftrightarrow> ct_sharedTCP t) \<and> (d = ReusePort \<longleftrightarrow> \<not> ct_sharedTCP t \<and> en_reuseport E) \<and>
    r = map_sum id RawConn (en_dial E h')"
  using assms
  by (auto simp: dialRaw_def Let_def WithTimeout_def split: sum.splits option.splits if_splits)

theorem connect_bounded_witness:
  "\<exists>h' r dl. dialRaw calm_env demo_transport (demo_ctx\<lparr>dx_deadline := Some 1200\<rparr>) ''/ip4/1.2.3.4'' [] = (h', r) \<and>
    h' = [EvDial ReusePort ''/ip4/1.2.3.4'' (Some dl)] \<and> dl \<le> 1200"
proof -
  have pos: "0 < ct_connectTimeout demo_transport"
    by (simp add: demo_defs)
  obtain h' r where R: "dialRaw calm_env demo_transport (demo_ctx\<lparr>dx_deadline := Some 1200\<rparr>)
      ''/ip4/1.2.3.4'' [] = (h', r)"
    by (metis surj_pair)
  from connect_bounded [OF pos R] R show ?thesis
    by (fastforce simp: demo_defs)
qed

text \<open>Progress updates cannot stall or change a dial: with a channel nobody is ready to receive on, the
  dial makes the same calls and returns the same result as without a channel, which is what \<^verbatim>\<open>Dial\<close>
  does.\<close>

theorem updates_never_block:
  assumes "\<And>hist. \<not> en_updateReady E hist"
  shows "DialWithUpdates E t ctx raddr p True h = Dial E t ctx raddr p h"
proof -
  have send: "send_update E raddr True = send_update E raddr False"
    using assms by (auto simp: send_update_def)
  have "dialWithScope E t ctx raddr p s True = dialWithScope E t ctx raddr p s False" for s
    by (intro ext) (simp only: dialWithScope_def send)
  then show ?thesis
    by (simp only: Dial_def DialWithUpdates_with_scope)
qed

theorem updates_never_block_witness:
  "DialWithUpdates (calm_env\<lparr>en_updateReady := \<lambda>_. False\<rparr>) demo_transport demo_ctx ''/ip4/1.2.3.4'' ''P'' True [] =
   Dial (calm_env\<lparr>en_updateReady := \<lambda>_. False\<rparr>) demo_transport demo_ctx ''/ip4/1.2.3.4'' ''P'' []"
  by (rule updates_never_block) simp

section \<open>The constructor\<close>

text \<open>C35 With the package's own options the constructor can fail only in its two library calls, and what it
  builds has every limit in range whatever values the options were given, a resource manager, an
  inner transport, and a TLS configuration for the very name the segments will be cut at.\<close>

theorem constructed_transport_ok:
  assumes "\<forall>opt \<in> set opts. package_option opt"
    and "NewCamouflageTransport K newTCP rcmgr sharedTCP opts w = (w', r)"
  shows "(\<forall>t. r = Inr t \<longrightarrow> limits_ok t \<and> ct_inner t \<noteq> None \<and> ct_sharedTCP t = sharedTCP \<and>
      ct_rcmgr t = (case rcmgr of None \<Rightarrow> NullResourceManager | Some m \<Rightarrow> m) \<and>
      (\<exists>cfg. ct_camoConfig t = Some cfg \<and> cg_sni cfg = ct_sni t \<and>
         cg_clientHelloID cfg = browserToHelloID (ct_browserFingerprint t) \<and>
         cg_handshakeTimeout cfg = ct_handshakeTimeout t)) \<and>
    (\<forall>e. r = Inl e \<longrightarrow> (\<exists>m v. newTCP m sharedTCP w = (v, Inl e)) \<or>
      (\<exists>sni b d v. BuildCamouflageConfig K sni b d v = (w', Inl e)))"
proof -
  obtain t0 where t0: "apply_options opts (initial_transport rcmgr sharedTCP) = Inr t0"
    and keeps: "option_keeps (initial_transport rcmgr sharedTCP) t0"
    using apply_package_options [OF assms(1)] by blast
  have base: "limits_ok t0" "ct_sharedTCP t0 = sharedTCP"
    "ct_rcmgr t0 = (case rcmgr of None \<Rightarrow> NullResourceManager | Some m \<Rightarrow> m)"
    using keeps initial_limits [of rcmgr sharedTCP]
    by (auto simp: option_keeps_def) (simp_all add: initial_transport_def)
  show ?thesis
  proof (cases r)
    case (Inr t)
    then show ?thesis
      using assms(2) t0 base
      by (auto elim!: NewCamouflageTransport_Inr dest!: BuildCamouflageConfig_Inr simp: limits_ok_def)
  next
    case (Inl e)
    then show ?thesis
      using assms(2) t0 by (auto simp: NewCamouflageTransport_def split: prod.splits sum.splits)
  qed
qed

text \<open>The inner TCP transport of the witnesses: it dials addresses that start with \<^verbatim>\<open>/ip4\<close>.\<close>

definition demo_tcp :: "rcmgr \<Rightarrow> bool \<Rightarrow> (int \<times> int, tcp_transport) act" where
  "demo_tcp m b = okE \<lparr>tt_CanDial = (\<lambda>a. take 4 a = ''/ip4''), tt_Protocols = [6]\<rparr>"

lemma demo_constructs:
  "\<forall>opt \<in> set opts. package_option opt \<Longrightarrow>
    \<exists>w' t. NewCamouflageTransport sym_crypto demo_tcp rcmgr b opts (0, 7) = (w', Inr t)"
proof -
  assume "\<forall>opt \<in> set opts. package_option opt"
  then obtain t0 where "apply_options opts (initial_transport rcmgr b) = Inr t0"
    using apply_package_options by blast
  moreover obtain w' cfg where "BuildCamouflageConfig sym_crypto (ct_sni t0) (ct_browserFingerprint t0)
      (ct_handshakeTimeout t0) (0, 7) = (w', Inr cfg)"
    using sym_builds by blast
  ultimately show ?thesis
    by (simp add: NewCamouflageTransport_def demo_tcp_def okE_def)
qed

theorem constructed_transport_ok_witness:
  "\<exists>w' t. NewCamouflageTransport sym_crypto demo_tcp None False [WithFragmentSize (-1), WithSNI ''example.org''] (0, 7) =
      (w', Inr t) \<and> 0 < ct_fragmentSize t \<and> (\<exists>cfg. ct_camoConfig t = Some cfg \<and> cg_sni cfg = ct_sni t)"
proof -
  have opts: "\<forall>opt \<in> set [WithFragmentSize (-1), WithSNI ''example.org'']. package_option opt"
    by (auto intro: package_option.intros)
  obtain w' t where R: "NewCamouflageTransport sym_crypto demo_tcp None False
      [WithFragmentSize (-1), WithSNI ''example.org''] (0, 7) = (w', Inr t)"
    using demo_constructs [OF opts] by blast
  from constructed_transport_ok [OF opts R] R show ?thesis
    by (auto simp: limits_ok_def)
qed

text \<open>Every method of a constructed transport runs without a nil dereference, for any options whatsoever:
  dialling always returns a connection or an error, and the delegated queries answer.\<close>

theorem constructed_transport_nil_safe:
  assumes "NewCamouflageTransport K newTCP rcmgr sharedTCP opts w = (w', Inr t)"
  shows "DialWithUpdates E t ctx raddr p u h \<noteq> Panic \<and> Dial E t ctx raddr p h \<noteq> Panic \<and>
    ct_CanDial t addr \<noteq> Panic \<and> ct_Protocols t \<noteq> Panic"
proof (rule NewCamouflageTransport_Inr [OF assms])
  fix t0 inner cfg w1
  assume "t = t0\<lparr>ct_inner := Some inner, ct_camoConfig := Some cfg\<rparr>"
  then have parts: "ct_inner t = Some inner" "ct_camoConfig t = Some cfg"
    by simp_all
  have "upgradeDialed E t ctx c p s hist \<noteq> Panic" for c s hist
    using parts by (auto simp: upgradeDialed_def Let_def split: prod.splits sum.splits)
  then have "dialWithScope E t ctx raddr p s v hist \<noteq> Panic" for s v hist
    by (auto simp: dialWithScope_def Let_def split: prod.splits sum.splits option.splits)
  then have "DialWithUpdates E t ctx raddr p v hist \<noteq> Panic" for v hist
    by (auto simp: DialWithUpdates_def Let_def split: prod.splits sum.splits outcome.splits)
  then show ?thesis
    using parts by (auto simp: Dial_def ct_CanDial_def ct_Protocols_def)
qed

theorem constructed_transport_nil_safe_witness:
  "\<exists>w' t. NewCamouflageTransport sym_crypto demo_tcp None False [] (0, 7) = (w', Inr t) \<and>
    Dial calm_env t demo_ctx ''/ip4/1.2.3.4'' ''P'' [] \<noteq> Panic \<and> ct_CanDial t ''/ip4/1.2.3.4'' \<noteq> Panic"
proof -
  obtain w' t where R: "NewCamouflageTransport sym_crypto demo_tcp None False [] (0, 7) = (w', Inr t)"
    using demo_constructs [of "[]" None False] by auto
  from constructed_transport_nil_safe [OF R] R show ?thesis
    by blast
qed

section \<open>Listening\<close>

text \<open>\<^verbatim>\<open>Listen\<close> makes one listen call, of the kind the shared manager and the platform dictate, gates
  only a listener of its own (the shared manager's is gated already), and on success hands the
  listener exactly the transport's parameters and a 64-place accept queue.\<close>

theorem listen_configuration:
  assumes "Listen E t laddr h = (h', r)"
  shows "\<exists>kind. (kind = SharedDemuxTLS \<longleftrightarrow> ct_sharedTCP t) \<and>
      (kind = ReusePortListen \<longleftrightarrow> \<not> ct_sharedTCP t \<and> en_reuseport E) \<and>
      (case en_listen E (h @ [EvListen kind laddr]) of
         Some err \<Rightarrow> r = Inl err \<and> h' = h @ [EvListen kind laddr]
       | None \<Rightarrow> h' = h @ EvListen kind laddr # (if ct_sharedTCP t then [] else [EvGateListener]) \<and>
           (\<exists>l. r = Inr l \<and> gl_queueCap l = 64 \<and> gl_camoConfig l = ct_camoConfig t \<and>
             NewSpoofConn (gl_fragmentSize l) (gl_handshakeLen l) (gl_maxDelay l) (gl_sni l) =
             NewSpoofConn (ct_fragmentSize t) (ct_handshakeLen t) (ct_maxDelay t) (ct_sni t)))"
  using assms
  by (auto simp: Listen_def Let_def newCamouflageGatedMaListener_def acceptQueueSize_def
      split: if_splits option.splits)

theorem listen_configuration_witness:
  "\<exists>h' r. Listen calm_env demo_transport ''/ip4/0.0.0.0'' [] = (h', r) \<and>
    (\<exists>l. r = Inr l \<and> gl_queueCap l = 64) \<and> h' \<noteq> []"
proof -
  obtain h' r where R: "Listen calm_env demo_transport ''/ip4/0.0.0.0'' [] = (h', r)"
    by (metis surj_pair)
  have "en_listen calm_env hist = None" for hist
    by (simp add: calm_env_def)
  with listen_configuration [OF R] R show ?thesis
    by auto
qed

end
