(* ===== verification/UnitTests.thy ===== *)
theory UnitTests
  imports TransportClaims SpoofClaims
begin

text \<open>
  The repository's unit tests of pure code (\<^verbatim>\<open>src/camouflage_test.go\<close>, \<^verbatim>\<open>src/dpi-spoof_test.go\<close> and
  \<^verbatim>\<open>TestBrowserToHelloID\<close> of \<^verbatim>\<open>src/tls-camouflage_test.go\<close>), replayed on the model: each theorem
  evaluates the definitions on the input of the test and states what the test asserts. They check that
  the model computes what the code is known to compute.
\<close>

section \<open>What the tests observe\<close>

definition fake_allBytes :: "'a fake_conn_scheme \<Rightarrow> byte list" where
  "fake_allBytes f = concat (fc_writes f)"

definition fake_writeCount :: "'a fake_conn_scheme \<Rightarrow> int" where
  "fake_writeCount f = int (length (fc_writes f))"

definition fake_writeSizes :: "'a fake_conn_scheme \<Rightarrow> int list" where
  "fake_writeSizes f = map (\<lambda>w. int (length w)) (fc_writes f)"

definition fake_Close :: "'a fake_conn_scheme \<Rightarrow> 'a fake_conn_scheme \<times> goerror option" where
  "fake_Close f = (f\<lparr>fc_closed := True\<rparr>, None)"

definition capture_containedInSingleWrite :: "'a fake_conn_scheme \<Rightarrow> byte list \<Rightarrow> bool" where
  "capture_containedInSingleWrite f needle = list_ex (\<lambda>w. contains w needle) (fc_writes f)"

text \<open>A \<^verbatim>\<open>SpoofConn\<close> over the connection of a test, with no delay.\<close>

definition test_Write :: "fake_world writer \<Rightarrow> fake_world \<times> spoof_conn \<Rightarrow> string \<Rightarrow>
    fake_world \<times> spoof_conn \<times> write_result" where
  "test_Write wr wc b = spoof_Write wr fake_rand fake_sleep (fst wc) (snd wc) (bytes_of b)"

definition test_conn :: "int \<Rightarrow> int \<Rightarrow> string \<Rightarrow> fake_world \<times> spoof_conn" where
  "test_conn fragmentSize handshakeLen sni = (fresh_fake [], NewSpoofConn fragmentSize handshakeLen 0 sni)"

lemmas test_simps = test_Write_def test_conn_def NewSpoofConn_def fresh_fake_def spoof_Write_def past_handshake_def
  fragmentedWrite_def frag_size_def defaultFragmentSize_def frag_loop.simps write_all.simps Let_def slice_to_def
  slice_from_def fake_Write_def short_Write_def zero_Write_def count_written_def fragment_pause_def pause_disabled
  bytes_of_def fake_allBytes_def fake_writeCount_def fake_writeSizes_def

section \<open>SpoofConn\<close>

theorem TestSpoofConn_FragmentsDuringHandshake:
  "\<exists>f c. test_Write fake_Write (test_conn 2 10 '''') ''HELLO_WORLD!'' = (f, c, Return (12, None)) \<and>
    fake_allBytes f = bytes_of ''HELLO_WORLD!'' \<and> fake_writeSizes f = [2, 2, 2, 2, 2, 2]"
  by (simp add: test_simps)

theorem TestSpoofConn_PassthroughAfterHandshake:
  "\<exists>f c. test_Write fake_Write (test_conn 1 4 '''') ''ABCD'' = (f, c, Return (4, None)) \<and> fake_writeCount f = 4 \<and>
    (\<exists>f' c'. test_Write fake_Write (f, c) (replicate 1024 (CHR ''X'')) = (f', c', Return (1024, None)) \<and>
      fake_writeCount f' = 5 \<and> fake_writeSizes f' ! 4 = 1024)"
proof -
  let ?f = "\<lparr>fc_writes = [bytes_of ''A'', bytes_of ''B'', bytes_of ''C'', bytes_of ''D''], fc_closed = False,
    fw_rands = [], fw_sleeps = []\<rparr>" and ?c = "(NewSpoofConn 1 4 0 '''')\<lparr>sc_bytesWritten := 4\<rparr>"
  have "test_Write fake_Write (test_conn 1 4 '''') ''ABCD'' = (?f, ?c, Return (4, None))"
    by (simp add: test_simps)
  moreover have "test_Write fake_Write (?f, ?c) (replicate 1024 (CHR ''X'')) =
      (?f\<lparr>fc_writes := fc_writes ?f @ [bytes_of (replicate 1024 (CHR ''X''))]\<rparr>, ?c, Return (1024, None))"
    by (simp add: test_Write_def spoof_Write_def past_handshake_def NewSpoofConn_def fake_Write_def)
  ultimately show ?thesis
    by (auto simp: fake_writeCount_def fake_writeSizes_def)
qed

theorem TestSpoofConn_PartialHandshakeAcrossWrites:
  "\<exists>f c. test_Write fake_Write (test_conn 3 8 '''') ''ABCDE'' = (f, c, Return (5, None)) \<and> fake_writeCount f = 2 \<and>
    (\<exists>f' c'. test_Write fake_Write (f, c) ''FGHIJK'' = (f', c', Return (6, None)) \<and>
      fake_allBytes f' = bytes_of ''ABCDEFGHIJK'')"
  by (simp add: test_simps)

theorem TestSpoofConn_FragmentSizeLargerThanData:
  "\<exists>f c. test_Write fake_Write (test_conn 100 200 '''') ''short'' = (f, c, Return (5, None)) \<and>
    fake_writeCount f = 1 \<and> fake_allBytes f = bytes_of ''short''"
  by (simp add: test_simps)

theorem TestSpoofConn_EmptyWrite:
  "\<exists>f c. test_Write fake_Write (test_conn 2 10 '''') [] = (f, c, Return (0, None)) \<and> fake_writeCount f = 0"
  by (simp add: test_simps)

theorem TestSpoofConn_ZeroFragmentSizeUsesDefault:
  "\<exists>f c. test_Write fake_Write (test_conn 0 10 '''') ''ABCDEF'' = (f, c, Return (6, None)) \<and>
    fake_allBytes f = bytes_of ''ABCDEF'' \<and> fake_writeSizes f = [2, 2, 2]"
  by (simp add: test_simps)

theorem TestSpoofConn_ShortWrite:
  "\<exists>f c. test_Write (short_Write 1) (test_conn 3 10 '''') ''ABCDEF'' = (f, c, Return (6, None)) \<and>
    fake_allBytes f = bytes_of ''ABCDEF''"
  by (simp add: test_simps)

theorem TestSpoofConn_ZeroWriteReturnsError:
  "\<exists>f c n err. test_Write zero_Write (test_conn 2 10 '''') ''AB'' = (f, c, Return (n, Some err)) \<and>
    errors_Is err (Sentinel ErrShortWrite)"
  by (simp add: test_simps)

text \<open>
  The two fragmentation tests, on a stand-in for the hello that uTLS makes: it names the server once, and
  leaves in two segments, neither of which holds the name.
\<close>

theorem TestFragmentation_SNINeverInOneSegment:
  "\<exists>f c r. test_Write fake_Write (test_conn DefaultFragmentSize DefaultHandshakeLen defaultSNI)
      (''hello '' @ defaultSNI @ '' hello'') = (f, c, r) \<and>
    fake_allBytes f = bytes_of (''hello '' @ defaultSNI @ '' hello'') \<and>
    \<not> capture_containedInSingleWrite f (bytes_of defaultSNI) \<and> fake_writeSizes f = [15, 15]"
proof -
  let ?hello = "bytes_of (''hello '' @ defaultSNI @ '' hello'')" and ?c = "snd (test_conn DefaultFragmentSize DefaultHandshakeLen defaultSNI)"
  have i: "bytes_Index ?hello (sc_sni ?c) = int 6"
    by (simp add: test_conn_def NewSpoofConn_def defaultSNI_def bytes_of_def)
  have len: "length (sc_sni ?c) = 18" "length ?hello = 30" "\<not> past_handshake ?c" "sc_sni ?c \<noteq> []"
    by (simp_all add: test_conn_def NewSpoofConn_def defaultSNI_def past_handshake_def default_defs)
  obtain f where f: "sniSplitWrite fake_Write fake_rand fake_sleep (fresh_fake []) ?c ?hello =
      (f, count_written ?c (int (length ?hello)), Return (int (length ?hello), None))"
    "fc_writes f = fc_writes (fresh_fake []) @ [take 15 ?hello, drop 15 ?hello]"
    using fake.sniSplitWrite_full [OF i, of 15 "fresh_fake []"] len by auto
  have "\<not> contains (take 15 ?hello) (bytes_of defaultSNI)" "\<not> contains (drop 15 ?hello) (bytes_of defaultSNI)"
    by (simp_all add: contains_code strings_Contains_def defaultSNI_def bytes_of_def)
  then show ?thesis
    using f len by (auto simp: test_Write_def spoof_Write_def test_conn_def fresh_fake_def fake_allBytes_def
        fake_writeSizes_def capture_containedInSingleWrite_def)
qed

section \<open>Options, delays, names of browsers\<close>

theorem TestOptions:
  fixes t :: "('key, 'der) transport"
  assumes "t = initial_transport None False"
    and "t2 = t\<lparr>ct_fragmentSize := 2, ct_handshakeLen := 512, ct_connectTimeout := 0, ct_handshakeTimeout := 0\<rparr>"
  shows "ct_fragmentSize (fst (WithFragmentSize 5 t)) = 5" and "ct_handshakeLen (fst (WithHandshakeLen 2048 t)) = 2048"
    and "ct_maxDelay (fst (WithMaxDelay 10000000 t)) = 10000000"
    and "ct_connectTimeout (fst (WithConnectTimeout (30 * time_Second) t)) = 30 * time_Second"
    and "ct_sni (fst (WithSNI ''custom.example.com'' t)) = ''custom.example.com''"
    and "ct_browserFingerprint (fst (WithBrowserFingerprint BrowserFirefox t)) = BrowserFirefox"
    and "ct_handshakeTimeout (fst (WithHandshakeTimeout (5 * time_Second) t)) = 5 * time_Second"
    and "ct_fragmentSize (fst (WithFragmentSize 0 t2)) = 2" and "ct_handshakeLen (fst (WithHandshakeLen (- 1) t2)) = 512"
    and "ct_connectTimeout (fst (WithConnectTimeout (- 1) t2)) = 0"
    and "ct_handshakeTimeout (fst (WithHandshakeTimeout 0 t2)) = 0"
  using assms by (simp_all add: option_defs time_Second_def)

theorem TestRandDuration:
  "randDuration rnd w 0 = (w, 0)" "randDuration rnd w (- 1) = (w, 0)"
  "0 \<le> snd (randDuration fake_rand f 10000000) \<and> snd (randDuration fake_rand f 10000000) < 10000000"
  using fake.randDuration_bounds [of 10000000 f] by (simp_all add: randDuration_def)

theorem TestBrowserToHelloID:
  "browserToHelloID BrowserChrome = HelloChrome_Auto" "browserToHelloID BrowserFirefox = HelloFirefox_Auto"
  "browserToHelloID BrowserSafari = HelloSafari_Auto" "browserToHelloID BrowserEdge = HelloEdge_Auto"
  "browserToHelloID ''unknown'' = HelloRandomized" "browserToHelloID '''' = HelloRandomized"
  by code_simp+

end
