(* ===== verification/Listener.thy ===== *)
theory Listener
  imports Transport GoStrings
begin

text \<open>
  \<^verbatim>\<open>src/camouflage.go\<close>, the gated listener: the accept loop \<^verbatim>\<open>run\<close>, one goroutine per handshake behind a
  bounded queue, delivery over \<^verbatim>\<open>connChan\<close> to \<^verbatim>\<open>Accept\<close>, and \<^verbatim>\<open>Close\<close>. The state holds the program
  counter of every goroutine; a step is what one goroutine does between two blocking points. The
  handshake of a connection touches that connection only and is one step, at its return.

  A \<^verbatim>\<open>select\<close> with several ready cases takes any of them: each is a rule. Timers are steps of their
  own. One caller runs \<^verbatim>\<open>Close\<close>; any number call \<^verbatim>\<open>Accept\<close>.
\<close>

section \<open>State\<close>

text \<open>The accept loop is in \<^verbatim>\<open>GatedMaListener.Accept\<close>, in the \<^verbatim>\<open>select\<close> of \<^verbatim>\<open>dispatch\<close>, or has returned.\<close>

datatype run_pc =
    RunAccept
  | RunDispatch nat "scope_id option" bool
  | RunExited

text \<open>
  A handshake goroutine: before \<^verbatim>\<open>NewCamouflageConn\<close> returns; in the last \<^verbatim>\<open>select\<close>, offering the tunnel;
  \<^verbatim>\<open>handshake\<close> returned, with \<^verbatim>\<open>cancel\<close> and \<^verbatim>\<open>wg.Done\<close> due; these done, with the queue token due.
\<close>

datatype task_phase =
    Handshaking
  | Offering camouflage_conn
  | Returned
  | Signalled

record task =
  tk_id :: nat
  tk_scope :: "scope_id option"
  tk_expired :: bool
  tk_phase :: task_phase

datatype close_pc = CloseIdle | CloseCancelled | CloseWaiting | CloseReturned

record listener =
  ls_cancelled :: bool
  ls_innerClosed :: bool
  ls_run :: run_pc
  ls_tasks :: "task list"
  ls_queue :: nat
  ls_wg :: int
  ls_close :: close_pc
  ls_next :: nat
  ls_hist :: history

definition initial_listener :: listener where
  "initial_listener =
     \<lparr>ls_cancelled = False, ls_innerClosed = False, ls_run = RunAccept, ls_tasks = [], ls_queue = 0,
      ls_wg = 1, ls_close = CloseIdle, ls_next = 0, ls_hist = []\<rparr>"

section \<open>The code of the goroutines\<close>

definition releaseScope :: "scope_id option \<Rightarrow> history \<Rightarrow> history" where
  "releaseScope scope h = (case scope of None \<Rightarrow> h | Some s \<Rightarrow> h @ [EvScopeDone s])"

definition discard :: "conn \<Rightarrow> scope_id option \<Rightarrow> history \<Rightarrow> history" where
  "discard c scope h = releaseScope scope h @ [EvClose c]"

text \<open>\<^verbatim>\<open>handshake\<close> up to its \<^verbatim>\<open>select\<close>; \<open>None\<close> when it failed, discarded the connection and returned.\<close>

definition handshake :: "env \<Rightarrow> ('key, 'der) gated_listener \<Rightarrow> conn \<Rightarrow> scope_id option \<Rightarrow> history \<Rightarrow>
    (history \<times> camouflage_conn option) outcome" where
  "handshake E G c scope h =
     (let h1 = tryKeepAlive E c True (setLinger E c 0 h);
          spoofed = Spoofed c (NewSpoofConn (gl_fragmentSize G) (gl_handshakeLen G) (gl_maxDelay G) (gl_sni G))
      in (case gl_camoConfig G of
            None \<Rightarrow> Panic
          | Some cfg \<Rightarrow>
              (case NewCamouflageConn E spoofed False cfg h1 of
                 (h2, Inl err) \<Rightarrow> Return (discard c scope h2, None)
               | (h2, Inr camouflaged) \<Rightarrow> Return (h2, Some camouflaged))))"

definition closed_text :: string where
  "closed_text = ''use of closed network connection''"

text \<open>
  The accept loop. \<open>run_accepted\<close>: \<^verbatim>\<open>Accept\<close> returned a connection, and \<^verbatim>\<open>dispatch\<close> starts its timeout.
  \<open>run_error\<close>: it returned an error, with or without a scope. New identities are numbered.
\<close>

definition fresh_scope :: "listener \<Rightarrow> bool \<Rightarrow> scope_id option" where
  "fresh_scope s scoped = (if scoped then Some (ls_next s) else None)"

definition run_accepted :: "bool \<Rightarrow> listener \<Rightarrow> listener" where
  "run_accepted scoped s =
     s\<lparr>ls_run := RunDispatch (ls_next s) (fresh_scope s scoped) False,
       ls_hist := ls_hist s @ [EvAccept (ls_next s) (fresh_scope s scoped)],
       ls_next := ls_next s + 1\<rparr>"

definition run_error :: "(string \<Rightarrow> string) \<Rightarrow> bool \<Rightarrow> goerror \<Rightarrow> listener \<Rightarrow> listener" where
  "run_error q scoped err s =
     (let s1 = s\<lparr>ls_hist := releaseScope (fresh_scope s scoped) (ls_hist s), ls_next := ls_next s + 1\<rparr>
      in if strings_HasSuffix (error_text q err) closed_text
         then s1\<lparr>ls_run := RunExited, ls_wg := ls_wg s1 - 1\<rparr>
         else s1)"

text \<open>The two cases of the \<^verbatim>\<open>select\<close> in \<^verbatim>\<open>dispatch\<close>.\<close>

definition dispatch_queued :: "nat \<Rightarrow> scope_id option \<Rightarrow> bool \<Rightarrow> listener \<Rightarrow> listener" where
  "dispatch_queued k scope expired s =
     s\<lparr>ls_queue := ls_queue s + 1,
       ls_wg := ls_wg s + 1,
       ls_tasks := ls_tasks s @ [\<lparr>tk_id = k, tk_scope = scope, tk_expired = expired, tk_phase = Handshaking\<rparr>],
       ls_run := RunAccept\<rparr>"

definition dispatch_dropped :: "nat \<Rightarrow> scope_id option \<Rightarrow> listener \<Rightarrow> listener" where
  "dispatch_dropped k scope s =
     s\<lparr>ls_hist := discard (RawConn k) scope (ls_hist s), ls_run := RunAccept\<rparr>"

text \<open>The steps of the handshake goroutine \<open>tk\<close>, which stands between \<open>as\<close> and \<open>bs\<close>.\<close>

definition set_task :: "task list \<Rightarrow> task \<Rightarrow> task list \<Rightarrow> listener \<Rightarrow> listener" where
  "set_task as tk bs s = s\<lparr>ls_tasks := as @ tk # bs\<rparr>"

definition task_delivered :: "task list \<Rightarrow> task \<Rightarrow> task list \<Rightarrow> camouflage_conn \<Rightarrow> listener \<Rightarrow> listener" where
  "task_delivered as tk bs cc s =
     (set_task as (tk\<lparr>tk_phase := Returned\<rparr>) bs s)\<lparr>ls_hist := ls_hist s @ [EvDeliver cc (tk_scope tk)]\<rparr>"

definition task_dropped :: "task list \<Rightarrow> task \<Rightarrow> task list \<Rightarrow> camouflage_conn \<Rightarrow> listener \<Rightarrow> listener" where
  "task_dropped as tk bs cc s =
     (set_task as (tk\<lparr>tk_phase := Returned\<rparr>) bs s)
       \<lparr>ls_hist := discard (cc_tlsConn cc) (tk_scope tk) (ls_hist s)\<rparr>"

definition task_signal :: "task list \<Rightarrow> task \<Rightarrow> task list \<Rightarrow> listener \<Rightarrow> listener" where
  "task_signal as tk bs s = (set_task as (tk\<lparr>tk_phase := Signalled\<rparr>) bs s)\<lparr>ls_wg := ls_wg s - 1\<rparr>"

definition task_release :: "task list \<Rightarrow> task list \<Rightarrow> listener \<Rightarrow> listener" where
  "task_release as bs s = s\<lparr>ls_tasks := as @ bs, ls_queue := ls_queue s - 1\<rparr>"

definition task_handshake :: "task list \<Rightarrow> task \<Rightarrow> task list \<Rightarrow> history \<Rightarrow> camouflage_conn option \<Rightarrow> listener \<Rightarrow> listener" where
  "task_handshake as tk bs h r s =
     (set_task as (tk\<lparr>tk_phase := (case r of None \<Rightarrow> Returned | Some cc \<Rightarrow> Offering cc)\<rparr>) bs s)\<lparr>ls_hist := h\<rparr>"

lemmas listener_ops = run_accepted_def run_error_def dispatch_queued_def dispatch_dropped_def
  set_task_def task_delivered_def task_dropped_def task_signal_def task_release_def task_handshake_def

lemma run_error_simps:
  "ls_tasks (run_error q b err s) = ls_tasks s"
  "ls_hist (run_error q b err s) = releaseScope (fresh_scope s b) (ls_hist s)"
  "ls_next (run_error q b err s) = ls_next s + 1"
  "ls_run (run_error q b err s) = (if strings_HasSuffix (error_text q err) closed_text then RunExited else ls_run s)"
  "ls_wg (run_error q b err s) = (if strings_HasSuffix (error_text q err) closed_text then ls_wg s - 1 else ls_wg s)"
  "ls_queue (run_error q b err s) = ls_queue s"
  "ls_close (run_error q b err s) = ls_close s"
  "ls_cancelled (run_error q b err s) = ls_cancelled s"
  "ls_innerClosed (run_error q b err s) = ls_innerClosed s"
  by (simp_all add: run_error_def Let_def)

section \<open>Steps\<close>

datatype label =
    AcceptOk bool
  | AcceptErr bool goerror
  | ExpireQueued
  | Enqueue
  | DropQueued
  | Expire nat
  | Handshake nat
  | Deliver nat
  | DropOffered nat
  | Signal nat
  | Release nat
  | AcceptClosed
  | CloseCancel
  | CloseInner
  | CloseReturn

inductive listener_step :: "(string \<Rightarrow> string) \<Rightarrow> env \<Rightarrow> ('key, 'der) gated_listener \<Rightarrow>
    listener \<Rightarrow> label \<Rightarrow> listener \<Rightarrow> bool" for q E G where
  accept_ok: "ls_run s = RunAccept \<Longrightarrow> listener_step q E G s (AcceptOk scoped) (run_accepted scoped s)"
| accept_err: "ls_run s = RunAccept \<Longrightarrow> listener_step q E G s (AcceptErr scoped err) (run_error q scoped err s)"
| expire_queued: "ls_run s = RunDispatch k sc False \<Longrightarrow>
    listener_step q E G s ExpireQueued (s\<lparr>ls_run := RunDispatch k sc True\<rparr>)"
| enqueue: "ls_run s = RunDispatch k sc ex \<Longrightarrow> ls_queue s < gl_queueCap G \<Longrightarrow>
    listener_step q E G s Enqueue (dispatch_queued k sc ex s)"
| drop_queued: "ls_run s = RunDispatch k sc ex \<Longrightarrow> ls_cancelled s \<or> ex \<Longrightarrow>
    listener_step q E G s DropQueued (dispatch_dropped k sc s)"
| expire: "ls_tasks s = as @ tk # bs \<Longrightarrow> \<not> tk_expired tk \<Longrightarrow>
    listener_step q E G s (Expire (tk_id tk)) (set_task as (tk\<lparr>tk_expired := True\<rparr>) bs s)"
| handshake: "ls_tasks s = as @ tk # bs \<Longrightarrow> tk_phase tk = Handshaking \<Longrightarrow>
    handshake E G (RawConn (tk_id tk)) (tk_scope tk) (ls_hist s) = Return (h, r) \<Longrightarrow>
    listener_step q E G s (Handshake (tk_id tk)) (task_handshake as tk bs h r s)"
| deliver: "ls_tasks s = as @ tk # bs \<Longrightarrow> tk_phase tk = Offering cc \<Longrightarrow>
    listener_step q E G s (Deliver (tk_id tk)) (task_delivered as tk bs cc s)"
| drop_offered: "ls_tasks s = as @ tk # bs \<Longrightarrow> tk_phase tk = Offering cc \<Longrightarrow> ls_cancelled s \<or> tk_expired tk \<Longrightarrow>
    listener_step q E G s (DropOffered (tk_id tk)) (task_dropped as tk bs cc s)"
| signal: "ls_tasks s = as @ tk # bs \<Longrightarrow> tk_phase tk = Returned \<Longrightarrow>
    listener_step q E G s (Signal (tk_id tk)) (task_signal as tk bs s)"
| release: "ls_tasks s = as @ tk # bs \<Longrightarrow> tk_phase tk = Signalled \<Longrightarrow>
    listener_step q E G s (Release (tk_id tk)) (task_release as bs s)"
| accept_closed: "ls_cancelled s \<Longrightarrow> listener_step q E G s AcceptClosed s"
| close_cancel: "ls_close s = CloseIdle \<Longrightarrow>
    listener_step q E G s CloseCancel (s\<lparr>ls_cancelled := True, ls_close := CloseCancelled\<rparr>)"
| close_inner: "ls_close s = CloseCancelled \<Longrightarrow>
    listener_step q E G s CloseInner (s\<lparr>ls_innerClosed := True, ls_close := CloseWaiting\<rparr>)"
| close_return: "ls_close s = CloseWaiting \<Longrightarrow> ls_wg s = 0 \<Longrightarrow>
    listener_step q E G s CloseReturn (s\<lparr>ls_close := CloseReturned\<rparr>)"

inductive_cases accept_ok_cases: "listener_step q E G s (AcceptOk b) t"
inductive_cases enqueue_cases: "listener_step q E G s Enqueue t"

text \<open>
  What a call of \<^verbatim>\<open>Accept\<close> may return now: the ready cases of its \<^verbatim>\<open>select\<close>. It blocks when there is none.
\<close>

definition offers :: "task \<Rightarrow> (camouflage_conn \<times> scope_id option) list" where
  "offers tk = (case tk_phase tk of Offering cc \<Rightarrow> [(cc, tk_scope tk)] | _ \<Rightarrow> [])"

definition Accept_ready :: "listener \<Rightarrow> (goerror + camouflage_conn \<times> scope_id option) list" where
  "Accept_ready s =
     map Inr (concat (map offers (ls_tasks s))) @
     (if ls_cancelled s then [Inl (Sentinel ErrListenerClosed)] else [])"

section \<open>An executable scheduler\<close>

text \<open>\<open>lstep\<close> performs the step of a label, if its goroutine is at that point; \<open>lrun\<close> a list of them.\<close>

fun pick :: "nat \<Rightarrow> task list \<Rightarrow> (task list \<times> task \<times> task list) option" where
  "pick k [] = None"
| "pick k (tk # ts) =
     (if tk_id tk = k then Some ([], tk, ts)
      else map_option (\<lambda>(as, tk', bs). (tk # as, tk', bs)) (pick k ts))"

definition on_task :: "listener \<Rightarrow> nat \<Rightarrow> (task list \<Rightarrow> task \<Rightarrow> task list \<Rightarrow> listener option) \<Rightarrow> listener option" where
  "on_task s k f = (case pick k (ls_tasks s) of None \<Rightarrow> None | Some (as, tk, bs) \<Rightarrow> f as tk bs)"

fun lstep :: "(string \<Rightarrow> string) \<Rightarrow> env \<Rightarrow> ('key, 'der) gated_listener \<Rightarrow> listener \<Rightarrow> label \<Rightarrow> listener option" where
  "lstep q E G s (AcceptOk scoped) = (if ls_run s = RunAccept then Some (run_accepted scoped s) else None)"
| "lstep q E G s (AcceptErr scoped err) = (if ls_run s = RunAccept then Some (run_error q scoped err s) else None)"
| "lstep q E G s ExpireQueued =
     (case ls_run s of RunDispatch k sc False \<Rightarrow> Some (s\<lparr>ls_run := RunDispatch k sc True\<rparr>) | _ \<Rightarrow> None)"
| "lstep q E G s Enqueue =
     (case ls_run s of
        RunDispatch k sc ex \<Rightarrow> (if ls_queue s < gl_queueCap G then Some (dispatch_queued k sc ex s) else None)
      | _ \<Rightarrow> None)"
| "lstep q E G s DropQueued =
     (case ls_run s of
        RunDispatch k sc ex \<Rightarrow> (if ls_cancelled s \<or> ex then Some (dispatch_dropped k sc s) else None)
      | _ \<Rightarrow> None)"
| "lstep q E G s (Expire k) = on_task s k (\<lambda>as tk bs.
     if tk_expired tk then None else Some (set_task as (tk\<lparr>tk_expired := True\<rparr>) bs s))"
| "lstep q E G s (Handshake k) = on_task s k (\<lambda>as tk bs.
     if tk_phase tk = Handshaking then
       (case handshake E G (RawConn (tk_id tk)) (tk_scope tk) (ls_hist s) of
          Panic \<Rightarrow> None
        | Return (h, r) \<Rightarrow> Some (task_handshake as tk bs h r s))
     else None)"
| "lstep q E G s (Deliver k) = on_task s k (\<lambda>as tk bs.
     case tk_phase tk of Offering cc \<Rightarrow> Some (task_delivered as tk bs cc s) | _ \<Rightarrow> None)"
| "lstep q E G s (DropOffered k) = on_task s k (\<lambda>as tk bs.
     case tk_phase tk of
       Offering cc \<Rightarrow> (if ls_cancelled s \<or> tk_expired tk then Some (task_dropped as tk bs cc s) else None)
     | _ \<Rightarrow> None)"
| "lstep q E G s (Signal k) = on_task s k (\<lambda>as tk bs.
     if tk_phase tk = Returned then Some (task_signal as tk bs s) else None)"
| "lstep q E G s (Release k) = on_task s k (\<lambda>as tk bs.
     if tk_phase tk = Signalled then Some (task_release as bs s) else None)"
| "lstep q E G s AcceptClosed = (if ls_cancelled s then Some s else None)"
| "lstep q E G s CloseCancel =
     (if ls_close s = CloseIdle then Some (s\<lparr>ls_cancelled := True, ls_close := CloseCancelled\<rparr>) else None)"
| "lstep q E G s CloseInner =
     (if ls_close s = CloseCancelled then Some (s\<lparr>ls_innerClosed := True, ls_close := CloseWaiting\<rparr>) else None)"
| "lstep q E G s CloseReturn =
     (if ls_close s = CloseWaiting \<and> ls_wg s = 0 then Some (s\<lparr>ls_close := CloseReturned\<rparr>) else None)"

fun lrun :: "(string \<Rightarrow> string) \<Rightarrow> env \<Rightarrow> ('key, 'der) gated_listener \<Rightarrow> listener \<Rightarrow> label list \<Rightarrow> listener option" where
  "lrun q E G s [] = Some s"
| "lrun q E G s (l # ls) = (case lstep q E G s l of None \<Rightarrow> None | Some t \<Rightarrow> lrun q E G t ls)"

lemma pick_split: "pick k ts = Some (as, tk, bs) \<Longrightarrow> ts = as @ tk # bs \<and> tk_id tk = k"
  by (induction ts arbitrary: as) (auto split: if_splits)

lemma lstep_sound: "lstep q E G s l = Some t \<Longrightarrow> listener_step q E G s l t"
  by (cases l)
    (auto simp: on_task_def intro: listener_step.intros dest!: pick_split
      split: if_splits option.splits run_pc.splits bool.splits task_phase.splits outcome.splits prod.splits)

lemma lrun_trace: "lrun q E G s ls = Some t \<Longrightarrow> trace (listener_step q E G) s ls t"
  by (induction ls arbitrary: s) (auto intro: trace.intros dest: lstep_sound split: option.splits)

lemma pick_unique: "distinct (map tk_id (as @ tk # bs)) \<Longrightarrow> pick (tk_id tk) (as @ tk # bs) = Some (as, tk, bs)"
  by (induction as) (auto simp: image_iff)

text \<open>With distinct identities the relation is this function: a label determines the step.\<close>

lemma lstep_complete:
  assumes "listener_step q E G s l t" and "distinct (map tk_id (ls_tasks s))"
  shows "lstep q E G s l = Some t"
  using assms by (cases rule: listener_step.cases) (auto simp: on_task_def pick_unique simp del: pick.simps)

end
