(* ===== verification/ListenerInv.thy ===== *)
theory ListenerInv
  imports Listener
begin

text \<open>
  The invariants of the listener: the counters (queue tokens, wait group) agree with the goroutines,
  and the ledger of connections (each accepted one is in flight and untouched, or settled: delivered
  and left open, or discarded with its scope released once).
\<close>

section \<open>Counters\<close>

definition unsignalled :: "task list \<Rightarrow> nat" where
  "unsignalled ts = length (filter (\<lambda>t. tk_phase t \<noteq> Signalled) ts)"

lemma unsignalled_simps [simp]:
  "unsignalled [] = 0"
  "unsignalled (t # ts) = (if tk_phase t = Signalled then 0 else 1) + unsignalled ts"
  "unsignalled (ts @ us) = unsignalled ts + unsignalled us"
  by (simp_all add: unsignalled_def)

definition inv_ids :: "listener \<Rightarrow> bool" where
  "inv_ids s \<longleftrightarrow> distinct (map tk_id (ls_tasks s)) \<and> (\<forall>t \<in> set (ls_tasks s). tk_id t < ls_next s) \<and>
     (\<forall>k sc ex. ls_run s = RunDispatch k sc ex \<longrightarrow> k < ls_next s \<and> k \<notin> tk_id ` set (ls_tasks s))"

definition inv_counts :: "nat \<Rightarrow> listener \<Rightarrow> bool" where
  "inv_counts cap s \<longleftrightarrow> ls_queue s = length (ls_tasks s) \<and> ls_queue s \<le> cap \<and>
     ls_wg s = (if ls_run s = RunExited then 0 else 1) + int (unsignalled (ls_tasks s)) \<and>
     (ls_close s = CloseReturned \<longrightarrow> ls_wg s = 0) \<and>
     (ls_cancelled s \<longleftrightarrow> ls_close s \<noteq> CloseIdle) \<and>
     (ls_innerClosed s \<longleftrightarrow> ls_close s \<in> {CloseWaiting, CloseReturned})"

lemma inv_ids_step: "listener_step q E G s l t \<Longrightarrow> inv_ids s \<Longrightarrow> inv_ids t"
proof (induction rule: listener_step.cases)
  case (accept_err s scoped err)
  then show ?case
    by (auto simp: inv_ids_def run_error_def Let_def)
qed (auto simp: inv_ids_def listener_ops)

lemma inv_counts_step:
  "listener_step q E G s l t \<Longrightarrow> inv_counts (gl_queueCap G) s \<Longrightarrow> inv_counts (gl_queueCap G) t"
proof (induction rule: listener_step.cases)
  case (accept_err s scoped err)
  then show ?case
    by (auto simp: inv_counts_def run_error_def Let_def)
next
  case (handshake s as tk bs h r)
  then show ?case
    by (cases r) (auto simp: inv_counts_def listener_ops split: if_splits)
qed (auto simp: inv_counts_def listener_ops split: if_splits)

lemma inv_initial: "inv_ids initial_listener" "inv_counts cap initial_listener"
  by (simp_all add: inv_ids_def inv_counts_def initial_listener_def)

interpretation ids: invariant_of "listener_step q E G" initial_listener inv_ids for q E G
  by unfold_locales (rule inv_initial, rule inv_ids_step)

interpretation counts: invariant_of "listener_step q E G" initial_listener "inv_counts (gl_queueCap G)" for q E G
  by unfold_locales (rule inv_initial, rule inv_counts_step)

section \<open>The ledger of connections\<close>

fun pending :: "task_phase \<Rightarrow> bool" where
  "pending Handshaking = True"
| "pending (Offering cc) = True"
| "pending _ = False"

text \<open>A connection is in flight: it waits in \<^verbatim>\<open>dispatch\<close>, or its goroutine has not let go of it.\<close>

definition live :: "listener \<Rightarrow> nat \<Rightarrow> bool" where
  "live s k \<longleftrightarrow> (case ls_run s of RunDispatch n sc ex \<Rightarrow> n = k | _ \<Rightarrow> False) \<or>
     (\<exists>t \<in> set (ls_tasks s). tk_id t = k \<and> pending (tk_phase t))"

definition untouched :: "nat \<Rightarrow> history \<Rightarrow> bool" where
  "untouched k h \<longleftrightarrow> delivers k h = 0 \<and> closes k h = 0 \<and> releases k h = 0"

definition settled :: "nat \<Rightarrow> scope_id option \<Rightarrow> history \<Rightarrow> bool" where
  "settled k sc h \<longleftrightarrow>
     delivers k h = 1 \<and> closes k h = 0 \<and> releases k h = 0 \<or>
     delivers k h = 0 \<and> 0 < closes k h \<and> releases k h = (if sc = None then 0 else 1)"

definition entry_ok :: "listener \<Rightarrow> nat \<Rightarrow> scope_id option \<Rightarrow> bool" where
  "entry_ok s k sc \<longleftrightarrow> k < ls_next s \<and> (sc = None \<or> sc = Some k) \<and> accepts k (ls_hist s) = 1 \<and>
     (if live s k then untouched k (ls_hist s) else settled k sc (ls_hist s))"

definition owners_ok :: "listener \<Rightarrow> bool" where
  "owners_ok s \<longleftrightarrow>
     (\<forall>k sc ex. ls_run s = RunDispatch k sc ex \<longrightarrow> EvAccept k sc \<in> set (ls_hist s)) \<and>
     (\<forall>t \<in> set (ls_tasks s). EvAccept (tk_id t) (tk_scope t) \<in> set (ls_hist s) \<and>
        (\<forall>cc. tk_phase t = Offering cc \<longrightarrow> raw_conn (cc_tlsConn cc) = tk_id t))"

definition inv_ledger :: "listener \<Rightarrow> bool" where
  "inv_ledger s \<longleftrightarrow> (\<forall>k sc. EvAccept k sc \<in> set (ls_hist s) \<longrightarrow> entry_ok s k sc) \<and>
     (\<forall>k \<ge> ls_next s. untouched k (ls_hist s)) \<and> owners_ok s"

lemma accepts_unique:
  assumes "accepts k h = 1" and "EvAccept k sc \<in> set h" and "EvAccept k sc' \<in> set h"
  shows "sc = sc'"
proof (rule ccontr)
  assume "sc \<noteq> sc'"
  have "{EvAccept k sc, EvAccept k sc'} \<subseteq> set (filter (accept_raw k) h)"
    using assms(2,3) by auto
  from card_mono [OF finite_set this] have "2 \<le> card (set (filter (accept_raw k) h))"
    using \<open>sc \<noteq> sc'\<close> by simp
  with card_length [of "filter (accept_raw k) h"] assms(1) show False
    by (simp add: accepts_def)
qed

lemma no_accept_no_event: "accepts k evs = 0 \<Longrightarrow> EvAccept k sc \<notin> set evs"
  using accepts_pos_iff [of k evs] by auto

text \<open>
  A step of one connection: it appends events that concern no other connection and accepts none,
  and leaves its own entry in order.
\<close>

lemma ledger_frame:
  assumes inv: "inv_ledger s" and hist: "ls_hist t = ls_hist s @ evs" and nxt: "ls_next t = ls_next s"
    and quiet: "\<And>n. accepts n evs = 0" "\<And>n. n \<noteq> k \<Longrightarrow> untouched n evs"
    and others: "\<And>n. n \<noteq> k \<Longrightarrow> live t n = live s n"
    and own: "\<And>sc. EvAccept k sc \<in> set (ls_hist s) \<Longrightarrow>
      if live t k then untouched k (ls_hist t) else settled k sc (ls_hist t)"
    and owned: "\<exists>sc. EvAccept k sc \<in> set (ls_hist s)" and owners: "owners_ok t"
  shows "inv_ledger t"
  unfolding inv_ledger_def
proof (intro conjI allI impI owners)
  fix n sc
  assume "EvAccept n sc \<in> set (ls_hist t)"
  then have "EvAccept n sc \<in> set (ls_hist s)"
    using hist no_accept_no_event [OF quiet(1)] by auto
  moreover from this inv have "entry_ok s n sc"
    by (simp add: inv_ledger_def)
  ultimately show "entry_ok t n sc"
    using own [of sc] others [of n] quiet(1) [of n] quiet(2) [of n]
    by (cases "n = k") (auto simp: entry_ok_def hist nxt untouched_def settled_def)
next
  fix n
  assume n: "ls_next t \<le> n"
  obtain sc where "EvAccept k sc \<in> set (ls_hist s)"
    using owned by blast
  then have "entry_ok s k sc"
    using inv by (simp add: inv_ledger_def)
  then have "n \<noteq> k"
    using n nxt by (simp add: entry_ok_def)
  then show "untouched n (ls_hist t)"
    using inv n quiet(2) [of n] by (simp add: inv_ledger_def hist nxt untouched_def)
qed

text \<open>A step that leaves history and connections in flight as they are.\<close>

lemma ledger_same:
  assumes "inv_ledger s" and "ls_hist t = ls_hist s" and "ls_next t = ls_next s"
    and "\<And>n. live t n = live s n" and "owners_ok t"
  shows "inv_ledger t"
  using assms by (simp add: inv_ledger_def entry_ok_def)

lemma live_split:
  "ls_tasks s = as @ tk # bs \<Longrightarrow> live s n \<longleftrightarrow>
     (case ls_run s of RunDispatch m sc ex \<Rightarrow> m = n | _ \<Rightarrow> False) \<or>
     (\<exists>t \<in> set as \<union> set bs. tk_id t = n \<and> pending (tk_phase t)) \<or> tk_id tk = n \<and> pending (tk_phase tk)"
  by (auto simp: live_def)

text \<open>When a goroutine lets go of its connection, nothing else holds it.\<close>

lemma live_alone:
  assumes "inv_ids s" and "ls_tasks s = as @ tk # bs"
    and "ls_tasks t = as @ tk\<lparr>tk_phase := ph\<rparr> # bs" and "ls_run t = ls_run s"
  shows "live t (tk_id tk) = pending ph" and "n \<noteq> tk_id tk \<Longrightarrow> live t n = live s n"
  using assms unfolding live_split [OF assms(2)] live_split [OF assms(3)]
  by (auto simp: inv_ids_def image_iff split: run_pc.splits)

lemma discard_events:
  obtains evs where "discard c sc h = h @ evs" and "\<And>n. accepts n evs = 0" and "\<And>n. delivers n evs = 0"
    and "\<And>n. closes n evs = (if n = raw_conn c then 1 else 0)"
    and "\<And>n. releases n evs = (if sc = Some n then 1 else 0)"
  by (cases sc) (force simp: discard_def releaseScope_def)+

lemma tuning_no_deal: "list_all (tuning c) evs \<Longrightarrow> accepts n evs = 0 \<and> delivers n evs = 0"
proof (induction evs)
  case (Cons e evs)
  then show ?case
    by (cases e) simp_all
qed simp

lemma handshake_event_quiet [simp]:
  "accept_raw n (handshake_event c b cfg) = False"
  "deliver_raw n (handshake_event c b cfg) = False"
  "handshake_event c b cfg \<noteq> EvScopeDone s"
  by (simp_all add: handshake_event_def split: option.split)

definition listener_spoof :: "('key, 'der) gated_listener \<Rightarrow> nat \<Rightarrow> conn" where
  "listener_spoof G k = Spoofed (RawConn k)
     (NewSpoofConn (gl_fragmentSize G) (gl_handshakeLen G) (gl_maxDelay G) (gl_sni G))"

lemma raw_listener_spoof [simp]: "raw_conn (listener_spoof G k) = k"
  by (simp add: listener_spoof_def)

lemma handshake_split:
  assumes "handshake E G (RawConn k) sc h = Return (h', r)"
  obtains tn cfg h2 r2 where "list_all (tuning (RawConn k)) tn" and "gl_camoConfig G = Some cfg"
    and "NewCamouflageConn E (listener_spoof G k) False cfg (h @ tn) = (h2, r2)"
    and "(h', r) = (case r2 of Inl err \<Rightarrow> (discard (RawConn k) sc h2, None) | Inr cc \<Rightarrow> (h2, Some cc))"
proof (rule tune_socket)
  fix tn
  assume tn: "tryKeepAlive E (RawConn k) True (setLinger E (RawConn k) 0 h) = h @ tn"
    "list_all (tuning (RawConn k)) tn"
  obtain cfg where cfg: "gl_camoConfig G = Some cfg"
    using assms by (auto simp: handshake_def Let_def split: option.splits)
  obtain h2 r2 where N: "NewCamouflageConn E (listener_spoof G k) False cfg (h @ tn) = (h2, r2)"
    by (metis surj_pair)
  show thesis
    using assms tn(1) cfg N
    by (intro that [OF tn(2) cfg N]) (auto simp: handshake_def Let_def listener_spoof_def split: sum.splits)
qed

lemma handshake_cases:
  assumes "handshake E G (RawConn k) sc h = Return (h', r)"
  obtains (offered) cc evs where "r = Some cc" and "h' = h @ evs" and "raw_conn (cc_tlsConn cc) = k"
      and "\<And>n. accepts n evs = 0" and "\<And>n. untouched n evs"
    | (failed) evs where "r = None" and "h' = h @ evs" and "\<And>n. accepts n evs = 0"
      and "\<And>n. delivers n evs = 0" and "\<And>n. 0 < closes n evs \<longleftrightarrow> n = k"
      and "\<And>n. releases n evs = (if sc = Some n then 1 else 0)"
  using assms
proof (rule handshake_split)
  fix tn cfg h2 r2
  assume tn: "list_all (tuning (RawConn k)) tn"
    and "NewCamouflageConn E (listener_spoof G k) False cfg (h @ tn) = (h2, r2)"
    and res: "(h', r) = (case r2 of Inl err \<Rightarrow> (discard (RawConn k) sc h2, None) | Inr cc \<Rightarrow> (h2, Some cc))"
  then obtain sp where N: "NewCamouflageConn E sp False cfg (h @ tn) = (h2, r2)" and sp: "raw_conn sp = k"
    using raw_listener_spoof by blast
  note quiet = tuning_quiet [OF tn] tuning_no_deal [OF tn]
  show thesis
  proof (cases r2)
    case (Inr cc)
    with NewCamouflageConn_Inr [of E sp False cfg "h @ tn" h2 cc] N res show thesis
      by (intro offered [of cc "tn @ [EvSetDeadline sp (Some (en_now E (h @ tn) + cg_handshakeTimeout cfg)),
          handshake_event sp False cfg, EvSetDeadline sp None]"])
        (auto simp: tunnel_def sp untouched_def quiet handshake_event_def split: option.splits)
  next
    case (Inl err)
    obtain ds where ds: "discard (RawConn k) sc h2 = h2 @ ds" "\<And>n. accepts n ds = 0" "\<And>n. delivers n ds = 0"
      "\<And>n. closes n ds = (if n = k then 1 else 0)" "\<And>n. releases n ds = (if sc = Some n then 1 else 0)"
      using discard_events [of "RawConn k" sc h2] by auto
    show thesis
    proof (rule NewCamouflageConn_Inl [OF N [unfolded Inl]])
      fix cause evs
      assume *: "h2 = (h @ tn) @ EvSetDeadline sp (Some (en_now E (h @ tn) + cg_handshakeTimeout cfg)) # evs"
        "evs = [] \<and> \<not> False \<and> cg_serverTLSConfig cfg = None \<and> cause = Sentinel ErrConfigNotInit \<or>
         evs = [handshake_event sp False cfg] \<or>
         evs = [handshake_event sp False cfg, EvClose (ServerTLS sp)] \<and> \<not> False \<and>
           errors_Is cause (Sentinel ErrALPNMismatch)"
      from *(2) have "accepts n evs = 0 \<and> delivers n evs = 0 \<and> releases n evs = 0 \<and> (n \<noteq> k \<longrightarrow> closes n evs = 0)" for n
        by (auto simp: sp handshake_event_def split: option.splits)
      with * ds res Inl quiet show thesis
        by (intro failed [of "tn @ EvSetDeadline sp (Some (en_now E (h @ tn) + cg_handshakeTimeout cfg)) # evs @ ds"]) auto
    qed
  qed
qed

section \<open>Every step keeps the ledger\<close>

lemma entry_of_task:
  assumes "inv_ledger s" and "ls_tasks s = as @ tk # bs"
  shows "EvAccept (tk_id tk) (tk_scope tk) \<in> set (ls_hist s)" and "entry_ok s (tk_id tk) (tk_scope tk)"
    and "EvAccept (tk_id tk) sc \<in> set (ls_hist s) \<Longrightarrow> sc = tk_scope tk"
proof -
  show ev: "EvAccept (tk_id tk) (tk_scope tk) \<in> set (ls_hist s)"
    using assms by (simp add: inv_ledger_def owners_ok_def)
  then show ok: "entry_ok s (tk_id tk) (tk_scope tk)"
    using assms(1) by (simp add: inv_ledger_def)
  show "sc = tk_scope tk" if "EvAccept (tk_id tk) sc \<in> set (ls_hist s)"
    using accepts_unique ev ok that by (auto simp: entry_ok_def)
qed

text \<open>The goroutine of a connection moves to another phase and appends events of that connection.\<close>

lemma ledger_task:
  assumes inv: "inv_ids s" "inv_ledger s" and tk: "ls_tasks s = as @ tk # bs"
    and t: "ls_tasks t = as @ tk\<lparr>tk_phase := ph\<rparr> # bs" "ls_run t = ls_run s" "ls_next t = ls_next s"
      "ls_hist t = ls_hist s @ evs"
    and quiet: "\<And>n. accepts n evs = 0" "\<And>n. n \<noteq> tk_id tk \<Longrightarrow> untouched n evs"
    and own: "if pending ph then untouched (tk_id tk) (ls_hist t) else settled (tk_id tk) (tk_scope tk) (ls_hist t)"
    and off: "\<And>cc. ph = Offering cc \<Longrightarrow> raw_conn (cc_tlsConn cc) = tk_id tk"
  shows "inv_ledger t"
proof (rule ledger_frame [OF inv(2) t(4,3) quiet])
  note entry = entry_of_task [OF inv(2) tk]
  show "live t n = live s n" if "n \<noteq> tk_id tk" for n
    using live_alone(2) [OF inv(1) tk t(1,2) that] .
  show "if live t (tk_id tk) then untouched (tk_id tk) (ls_hist t) else settled (tk_id tk) sc (ls_hist t)"
    if "EvAccept (tk_id tk) sc \<in> set (ls_hist s)" for sc
    using own entry(3) [OF that] live_alone(1) [OF inv(1) tk t(1,2)] by simp
  show "\<exists>sc. EvAccept (tk_id tk) sc \<in> set (ls_hist s)"
    using entry(1) by blast
  show "owners_ok t"
    using inv(2) tk t off by (auto simp: inv_ledger_def owners_ok_def)
qed

lemma live_task: "ls_tasks s = as @ tk # bs \<Longrightarrow> pending (tk_phase tk) \<Longrightarrow> live s (tk_id tk)"
  by (auto simp: live_def)

lemma task_untouched:
  assumes "inv_ledger s" and "ls_tasks s = as @ tk # bs" and "pending (tk_phase tk)"
  shows "untouched (tk_id tk) (ls_hist s)"
  using entry_of_task(2) [OF assms(1,2)] live_task [OF assms(2,3)] by (simp add: entry_ok_def)

lemma scope_own: "inv_ledger s \<Longrightarrow> EvAccept k sc \<in> set (ls_hist s) \<Longrightarrow> sc = None \<or> sc = Some k"
  by (auto simp: inv_ledger_def entry_ok_def)

lemma ledger_accept:
  assumes "inv_ids s" and "inv_ledger s" and "ls_run s = RunAccept"
  shows "inv_ledger (run_accepted scoped s)"
proof -
  let ?t = "run_accepted scoped s"
  have new: "\<And>sc. EvAccept (ls_next s) sc \<notin> set (ls_hist s)" "untouched (ls_next s) (ls_hist s)"
    using assms(2) by (auto simp: inv_ledger_def entry_ok_def)
  then have "accepts (ls_next s) (ls_hist s) = 0"
    using accepts_pos_iff by (metis gr0I)
  moreover have live: "live ?t n = (n = ls_next s \<or> live s n)" for n
    using assms(3) by (auto simp: live_def run_accepted_def)
  ultimately have here: "entry_ok ?t (ls_next s) (fresh_scope s scoped)"
    using new by (simp add: entry_ok_def run_accepted_def fresh_scope_def untouched_def)
  have "untouched n (ls_hist ?t) = untouched n (ls_hist s)" "settled n sc (ls_hist ?t) = settled n sc (ls_hist s)"
    "n < ls_next s \<Longrightarrow> accepts n (ls_hist ?t) = accepts n (ls_hist s)" for n sc
    by (simp_all add: run_accepted_def untouched_def settled_def)
  then have there: "entry_ok ?t n sc" if "entry_ok s n sc" for n sc
    using that live by (simp add: entry_ok_def) (simp add: run_accepted_def)
  have "owners_ok ?t"
    using assms by (auto simp: inv_ledger_def owners_ok_def run_accepted_def)
  moreover have "untouched n (ls_hist ?t)" if "ls_next ?t \<le> n" for n
    using assms(2) that by (simp add: inv_ledger_def run_accepted_def untouched_def)
  ultimately show ?thesis
    using assms(2) here there
    by (auto simp: inv_ledger_def) (auto simp: run_accepted_def)
qed

lemma ledger_error:
  assumes "inv_ledger s" and "ls_run s = RunAccept"
  shows "inv_ledger (run_error q scoped err s)"
proof -
  let ?t = "run_error q scoped err s"
  define evs where "evs = (if scoped then [EvScopeDone (ls_next s)] else [])"
  have hist: "ls_hist ?t = ls_hist s @ evs" and next': "ls_next ?t = ls_next s + 1"
    by (auto simp: evs_def run_error_def Let_def releaseScope_def fresh_scope_def)
  have evs: "\<And>n. n < ls_next s \<Longrightarrow> untouched n evs" "\<And>n. accepts n evs = 0"
    "\<And>n. ls_next ?t \<le> n \<Longrightarrow> untouched n evs"
    by (auto simp: evs_def next' untouched_def)
  have tasks: "ls_tasks ?t = ls_tasks s"
    and run: "ls_run ?t \<in> {RunAccept, RunExited}"
    using assms(2) by (auto simp: run_error_def Let_def)
  have live: "live ?t n = live s n" for n
    using run assms(2) by (auto simp: live_def tasks)
  have "EvAccept n sc \<in> set (ls_hist s)" if "EvAccept n sc \<in> set (ls_hist ?t)" for n sc
    using that hist no_accept_no_event [OF evs(2)] by auto
  moreover have "entry_ok ?t n sc" if "entry_ok s n sc" for n sc
    using that evs(1) [of n] evs(2) by (auto simp: entry_ok_def hist next' live untouched_def settled_def)
  moreover have "owners_ok ?t"
    using assms run by (auto simp: inv_ledger_def owners_ok_def hist tasks)
  moreover have "untouched n (ls_hist ?t)" if "ls_next ?t \<le> n" for n
    using assms(1) that evs(3) [OF that] by (simp add: inv_ledger_def hist next' untouched_def)
  ultimately show ?thesis
    using assms(1) by (auto simp: inv_ledger_def)
qed

lemma ledger_drop_queued:
  assumes ids: "inv_ids s" and inv: "inv_ledger s" and run: "ls_run s = RunDispatch k sc ex"
    and t: "t = dispatch_dropped k sc s"
  shows "inv_ledger t"
proof -
  have ev: "EvAccept k sc \<in> set (ls_hist s)" and u: "untouched k (ls_hist s)"
    using inv run by (auto simp: inv_ledger_def owners_ok_def entry_ok_def live_def)
  have free: "\<not> live t k" "\<And>n. n \<noteq> k \<Longrightarrow> live t n = live s n"
    using ids run by (auto simp: t live_def inv_ids_def dispatch_dropped_def)
  have uniq: "sc' = sc" if "EvAccept k sc' \<in> set (ls_hist s)" for sc'
    using accepts_unique [OF _ that ev] inv ev by (auto simp: inv_ledger_def entry_ok_def)
  have own: "sc = None \<or> sc = Some k"
    using scope_own [OF inv ev] .
  obtain evs where hist: "ls_hist t = ls_hist s @ evs" and quiet: "\<And>n. accepts n evs = 0" "\<And>n. delivers n evs = 0"
    "\<And>n. closes n evs = (if n = k then 1 else 0)" "\<And>n. releases n evs = (if sc = Some n then 1 else 0)"
    using discard_events [of "RawConn k" sc "ls_hist s"] by (auto simp: t dispatch_dropped_def)
  show ?thesis
  proof (rule ledger_frame [OF inv hist _ quiet(1)])
    show "ls_next t = ls_next s"
      by (simp add: t dispatch_dropped_def)
    show "untouched n evs" if "n \<noteq> k" for n
      using own quiet that by (auto simp: untouched_def)
    show "if live t k then untouched k (ls_hist t) else settled k sc' (ls_hist t)"
      if "EvAccept k sc' \<in> set (ls_hist s)" for sc'
      using uniq [OF that] u free(1) own quiet by (auto simp: hist untouched_def settled_def)
    show "owners_ok t"
      using inv hist by (simp add: t inv_ledger_def owners_ok_def dispatch_dropped_def)
  qed (use free(2) ev in blast)+
qed

lemma ledger_handshake:
  assumes ids: "inv_ids s" and inv: "inv_ledger s" and tk: "ls_tasks s = as @ tk # bs" "tk_phase tk = Handshaking"
    and run: "handshake E G (RawConn (tk_id tk)) (tk_scope tk) (ls_hist s) = Return (h, r)"
    and t: "t = task_handshake as tk bs h r s"
  shows "inv_ledger t"
proof -
  have u: "untouched (tk_id tk) (ls_hist s)"
    using task_untouched [OF inv tk(1)] tk(2) by simp
  note own = scope_own [OF inv entry_of_task(1) [OF inv tk(1)]]
  from run show ?thesis
  proof (cases rule: handshake_cases)
    case (offered cc evs)
    with u show ?thesis
      by (intro ledger_task [OF ids inv tk(1), where ph = "Offering cc" and evs = evs])
        (auto simp: t task_handshake_def set_task_def untouched_def)
  next
    case (failed evs)
    with u own show ?thesis
      by (intro ledger_task [OF ids inv tk(1), where ph = Returned and evs = evs])
        (auto simp: t task_handshake_def set_task_def untouched_def settled_def)
  qed
qed

lemma ledger_offered:
  assumes ids: "inv_ids s" and inv: "inv_ledger s" and tk: "ls_tasks s = as @ tk # bs" "tk_phase tk = Offering cc"
  shows "inv_ledger (task_delivered as tk bs cc s)" and "inv_ledger (task_dropped as tk bs cc s)"
proof -
  have u: "untouched (tk_id tk) (ls_hist s)"
    using task_untouched [OF inv tk(1)] tk(2) by simp
  have raw: "raw_conn (cc_tlsConn cc) = tk_id tk"
    using inv tk by (auto simp: inv_ledger_def owners_ok_def)
  note own = scope_own [OF inv entry_of_task(1) [OF inv tk(1)]]
  show "inv_ledger (task_delivered as tk bs cc s)"
    using u raw
    by (intro ledger_task [OF ids inv tk(1), where ph = Returned and evs = "[EvDeliver cc (tk_scope tk)]"])
      (auto simp: task_delivered_def set_task_def untouched_def settled_def)
  obtain evs where "discard (cc_tlsConn cc) (tk_scope tk) (ls_hist s) = ls_hist s @ evs"
    "\<And>n. accepts n evs = 0" "\<And>n. delivers n evs = 0"
    "\<And>n. closes n evs = (if n = tk_id tk then 1 else 0)" "\<And>n. releases n evs = (if tk_scope tk = Some n then 1 else 0)"
    using discard_events [of "cc_tlsConn cc" "tk_scope tk" "ls_hist s"] raw by auto
  with u own show "inv_ledger (task_dropped as tk bs cc s)"
    by (intro ledger_task [OF ids inv tk(1), where ph = Returned and evs = evs])
      (auto simp: task_dropped_def set_task_def untouched_def settled_def)
qed

lemma ledger_flags:
  "inv_ledger (s\<lparr>ls_close := c\<rparr>) = inv_ledger s"
  "inv_ledger (s\<lparr>ls_cancelled := b\<rparr>) = inv_ledger s"
  "inv_ledger (s\<lparr>ls_innerClosed := b\<rparr>) = inv_ledger s"
  by (simp_all add: inv_ledger_def entry_ok_def live_def owners_ok_def)

lemma inv_ledger_step:
  assumes "listener_step q E G s l t" and ids: "inv_ids s" and inv: "inv_ledger s"
  shows "inv_ledger t"
  using assms(1)
proof (cases rule: listener_step.cases)
  case (handshake as tk bs h r)
  with ledger_handshake [OF ids inv] show ?thesis by blast
next
  case (enqueue k sc ex)
  with inv show ?thesis
    by (intro ledger_same [OF inv]) (auto simp: live_def inv_ledger_def owners_ok_def dispatch_queued_def)
next
  case (signal as tk bs)
  with inv show ?thesis
    by (intro ledger_same [OF inv]) (auto simp: live_def inv_ledger_def owners_ok_def listener_ops)
next
  case (release as tk bs)
  with inv show ?thesis
    by (intro ledger_same [OF inv]) (auto simp: live_def inv_ledger_def owners_ok_def listener_ops)
next
  case (expire as tk bs)
  with inv show ?thesis
    by (intro ledger_same [OF inv]) (auto simp: live_def inv_ledger_def owners_ok_def listener_ops)
next
  case (expire_queued k sc)
  with inv show ?thesis
    by (intro ledger_same [OF inv]) (auto simp: live_def inv_ledger_def owners_ok_def)
qed (use ids inv in \<open>simp_all add: ledger_accept ledger_error ledger_drop_queued [OF ids inv] ledger_offered
      ledger_flags\<close>)

lemma ledger_initial: "inv_ids initial_listener \<and> inv_ledger initial_listener"
  by (intro conjI inv_initial) (simp add: inv_ledger_def owners_ok_def untouched_def initial_listener_def)

interpretation ledger: invariant_of "listener_step q E G" initial_listener "\<lambda>s. inv_ids s \<and> inv_ledger s" for q E G
  by unfold_locales (rule ledger_initial, auto intro: inv_ids_step inv_ledger_step)

end
