(* ===== verification/ListenerProgress.thy ===== *)
theory ListenerProgress
  imports ListenerInv
begin

text \<open>
  What the listener hands out, and how it comes to an end: only authenticated tunnels are offered
  and delivered; after \<^verbatim>\<open>Close\<close> every step brings it nearer to its end and none of its goroutines is
  ever stuck; and the abstract ledger that the steps implement.
\<close>

section \<open>Only tunnels are delivered\<close>

text \<open>
  The tunnel over connection \<open>k\<close> with the listener's parameters, whose TLS handshake is in the history
  and was answered with a protocol the ALPN check allows.
\<close>

definition tunnel_ok :: "env \<Rightarrow> ('key, 'der) gated_listener \<Rightarrow> nat \<Rightarrow> camouflage_conn \<Rightarrow> history \<Rightarrow> bool" where
  "tunnel_ok E G k cc h \<longleftrightarrow>
     cc = \<lparr>cc_tlsConn = ServerTLS (listener_spoof G k), cc_rawConn = listener_spoof G k\<rparr> \<and>
     (\<exists>cfg scfg h0 h1 p. gl_camoConfig G = Some cfg \<and> cg_serverTLSConfig cfg = Some scfg \<and>
        h = (h0 @ [EvTlsHandshake (listener_spoof G k) (tl_NextProtos scfg) (tl_MinVersion scfg)
                (cg_handshakeTimeout cfg)]) @ h1 \<and>
        en_tls E (h0 @ [EvTlsHandshake (listener_spoof G k) (tl_NextProtos scfg) (tl_MinVersion scfg)
                (cg_handshakeTimeout cfg)]) = Inr p \<and>
        (p = [] \<or> p \<in> set (cg_alpnProtos cfg)))"

lemma tunnel_ok_append: "tunnel_ok E G k cc h \<Longrightarrow> tunnel_ok E G k cc (h @ evs)"
  unfolding tunnel_ok_def by (metis append.assoc)

lemma server_handshake_tunnel:
  assumes "NewCamouflageConn E (listener_spoof G k) False cfg h = (h', Inr cc)" and "gl_camoConfig G = Some cfg"
  shows "tunnel_ok E G k cc h'"
proof -
  let ?c = "listener_spoof G k"
  let ?dl = "EvSetDeadline ?c (Some (en_now E h + cg_handshakeTimeout cfg))"
  obtain scfg p where "cg_serverTLSConfig cfg = Some scfg"
    and "en_tls E ((h @ [?dl]) @ [EvTlsHandshake ?c (tl_NextProtos scfg) (tl_MinVersion scfg)
      (cg_handshakeTimeout cfg)]) = Inr p" and "p = [] \<or> p \<in> set (cg_alpnProtos cfg)"
    and "h' = ((h @ [?dl]) @ [EvTlsHandshake ?c (tl_NextProtos scfg) (tl_MinVersion scfg)
      (cg_handshakeTimeout cfg)]) @ [EvSetDeadline ?c None]"
    and "cc = \<lparr>cc_tlsConn = ServerTLS ?c, cc_rawConn = ?c\<rparr>"
    using assms(1)
    by (auto simp: NewCamouflageConn_def serverTLSHandshake_def Let_def validateALPN_iff
        split: option.splits sum.splits if_splits)
  then show ?thesis
    using assms(2) unfolding tunnel_ok_def by blast
qed

lemma handshake_offers:
  assumes "handshake E G (RawConn k) sc h = Return (h', Some cc)"
  shows "tunnel_ok E G k cc h'"
  using assms
proof (rule handshake_split)
  fix tn cfg h2 r2
  assume "gl_camoConfig G = Some cfg"
    and "NewCamouflageConn E (listener_spoof G k) False cfg (h @ tn) = (h2, r2)"
    and "(h', Some cc) = (case r2 of Inl err \<Rightarrow> (discard (RawConn k) sc h2, None) | Inr cc \<Rightarrow> (h2, Some cc))"
  then show ?thesis
    by (cases r2) (auto intro: server_handshake_tunnel)
qed

definition inv_tunnel :: "env \<Rightarrow> ('key, 'der) gated_listener \<Rightarrow> listener \<Rightarrow> bool" where
  "inv_tunnel E G s \<longleftrightarrow>
     (\<forall>t \<in> set (ls_tasks s). \<forall>cc. tk_phase t = Offering cc \<longrightarrow> tunnel_ok E G (tk_id t) cc (ls_hist s)) \<and>
     (\<forall>cc sc. EvDeliver cc sc \<in> set (ls_hist s) \<longrightarrow>
        (\<exists>k. tunnel_ok E G k cc (ls_hist s) \<and> EvAccept k sc \<in> set (ls_hist s)))"

lemma no_deliver_event: "(\<And>n. delivers n evs = 0) \<Longrightarrow> EvDeliver cc sc \<notin> set evs"
proof
  assume "\<And>n. delivers n evs = 0" and "EvDeliver cc sc \<in> set evs"
  then have "filter (deliver_raw (raw_conn (cc_tlsConn cc))) evs = []"
    by (simp add: delivers_def)
  then have "\<not> deliver_raw (raw_conn (cc_tlsConn cc)) (EvDeliver cc sc)"
    using \<open>EvDeliver cc sc \<in> set evs\<close> unfolding filter_empty_conv by blast
  then show False
    by simp
qed

text \<open>A step that delivers nothing keeps the invariant when the tunnels it offers are in order.\<close>

lemma inv_tunnel_frame:
  assumes "inv_tunnel E G s" and "ls_hist t = ls_hist s @ evs" and "\<And>n. delivers n evs = 0"
    and "\<And>tk cc. tk \<in> set (ls_tasks t) \<Longrightarrow> tk_phase tk = Offering cc \<Longrightarrow>
      tunnel_ok E G (tk_id tk) cc (ls_hist t) \<or> (\<exists>tk' \<in> set (ls_tasks s). tk_id tk' = tk_id tk \<and> tk_phase tk' = Offering cc)"
  shows "inv_tunnel E G t"
  unfolding inv_tunnel_def
proof (intro conjI ballI allI impI)
  fix tk cc
  assume "tk \<in> set (ls_tasks t)" "tk_phase tk = Offering cc"
  from assms(4) [OF this] assms(1) show "tunnel_ok E G (tk_id tk) cc (ls_hist t)"
    unfolding inv_tunnel_def assms(2) by (metis tunnel_ok_append)
next
  fix cc sc
  assume "EvDeliver cc sc \<in> set (ls_hist t)"
  then have "EvDeliver cc sc \<in> set (ls_hist s)"
    using assms(2) no_deliver_event [OF assms(3)] by auto
  then show "\<exists>k. tunnel_ok E G k cc (ls_hist t) \<and> EvAccept k sc \<in> set (ls_hist t)"
    using assms(1) unfolding inv_tunnel_def assms(2) set_append by (metis UnI1 tunnel_ok_append)
qed

lemma discard_no_deliver: "\<exists>evs. discard c sc h = h @ evs \<and> (\<forall>n. delivers n evs = 0)"
  using discard_events by metis

lemma inv_tunnel_step:
  assumes step: "listener_step q E G s l t" and inv: "inv_tunnel E G s" and led: "inv_ledger s"
  shows "inv_tunnel E G t"
  using step
proof (cases rule: listener_step.cases)
  case (handshake as tk bs h r)
  obtain evs where evs: "h = ls_hist s @ evs" "\<And>n. delivers n evs = 0"
    using handshake(5) by (cases rule: handshake_cases) (auto simp: untouched_def)
  show ?thesis
    using handshake evs handshake_offers [of E G "tk_id tk" "tk_scope tk" "ls_hist s" h]
    by (intro inv_tunnel_frame [OF inv, where evs = evs])
      (auto simp: task_handshake_def set_task_def split: option.splits)
next
  case (deliver as tk bs cc)
  have ok: "tunnel_ok E G (tk_id tk) cc (ls_hist s)" "EvAccept (tk_id tk) (tk_scope tk) \<in> set (ls_hist s)"
    using inv led deliver by (auto simp: inv_tunnel_def inv_ledger_def owners_ok_def)
  then show ?thesis
    using inv deliver unfolding inv_tunnel_def task_delivered_def set_task_def
    by (auto intro: tunnel_ok_append) (metis tunnel_ok_append)
next
  case (drop_offered as tk bs cc)
  obtain evs where "discard (cc_tlsConn cc) (tk_scope tk) (ls_hist s) = ls_hist s @ evs" "\<And>n. delivers n evs = 0"
    using discard_no_deliver by metis
  with drop_offered show ?thesis
    by (intro inv_tunnel_frame [OF inv, where evs = evs]) (auto simp: task_dropped_def set_task_def)
next
  case (drop_queued k sc ex)
  obtain evs where "discard (RawConn k) sc (ls_hist s) = ls_hist s @ evs" "\<And>n. delivers n evs = 0"
    using discard_no_deliver by metis
  with drop_queued show ?thesis
    by (intro inv_tunnel_frame [OF inv, where evs = evs]) (auto simp: dispatch_dropped_def)
next
  case (accept_err scoped err)
  then show ?thesis
    by (intro inv_tunnel_frame [OF inv, where evs = "if scoped then [EvScopeDone (ls_next s)] else []"])
      (auto simp: run_error_simps releaseScope_def fresh_scope_def)
next
  case (accept_ok scoped)
  then show ?thesis
    by (intro inv_tunnel_frame [OF inv, where evs = "[EvAccept (ls_next s) (fresh_scope s scoped)]"])
      (auto simp: run_accepted_def)
qed (intro inv_tunnel_frame [OF inv, where evs = "[]"]; force simp: listener_ops)+

lemma inv_tunnel_initial: "inv_tunnel E G initial_listener"
  by (simp add: inv_tunnel_def initial_listener_def)

interpretation tunnels: invariant_of "listener_step q E G" initial_listener
  "\<lambda>s. (inv_ids s \<and> inv_ledger s) \<and> inv_tunnel E G s" for q E G
  by unfold_locales (use ledger_initial inv_tunnel_initial ledger.inv_step inv_tunnel_step in blast)+

section \<open>The accept loop ends on one error text only\<close>

definition ends_run :: "(string \<Rightarrow> string) \<Rightarrow> label \<Rightarrow> bool" where
  "ends_run q l = (case l of AcceptErr b err \<Rightarrow> strings_HasSuffix (error_text q err) closed_text | _ \<Rightarrow> False)"

lemma run_goes_on:
  assumes "listener_step q E G s l t" and "ls_run s \<noteq> RunExited" and "\<not> ends_run q l"
  shows "ls_run t \<noteq> RunExited"
  using assms by (cases rule: listener_step.cases) (auto simp: listener_ops ends_run_def run_error_simps)

lemma run_goes_on_trace:
  "trace (listener_step q E G) s ls t \<Longrightarrow> ls_run s \<noteq> RunExited \<Longrightarrow> list_all (\<lambda>l. \<not> ends_run q l) ls \<Longrightarrow>
    ls_run t \<noteq> RunExited"
  by (induction rule: trace.induct) (auto dest: run_goes_on)

section \<open>Draining after Close\<close>

text \<open>
  The steps that may happen once the inner listener is closed, deliveries to a caller of \<^verbatim>\<open>Accept\<close>
  included: all but new connections, transient errors, and calls of \<^verbatim>\<open>Accept\<close> that find the listener
  closed, which change nothing.
\<close>

definition draining :: "(string \<Rightarrow> string) \<Rightarrow> label \<Rightarrow> bool" where
  "draining q l = (case l of AcceptOk b \<Rightarrow> False | AcceptErr b err \<Rightarrow> ends_run q l | AcceptClosed \<Rightarrow> False | _ \<Rightarrow> True)"

fun phase_weight :: "task_phase \<Rightarrow> nat" where
  "phase_weight Handshaking = 4"
| "phase_weight (Offering cc) = 3"
| "phase_weight Returned = 2"
| "phase_weight Signalled = 1"

definition task_weight :: "task \<Rightarrow> nat" where
  "task_weight t = phase_weight (tk_phase t) + (if tk_expired t then 0 else 1)"

fun run_weight :: "run_pc \<Rightarrow> nat" where
  "run_weight RunAccept = 1"
| "run_weight (RunDispatch k sc ex) = 6 + (if ex then 0 else 1)"
| "run_weight RunExited = 0"

fun close_weight :: "close_pc \<Rightarrow> nat" where
  "close_weight CloseIdle = 3"
| "close_weight CloseCancelled = 2"
| "close_weight CloseWaiting = 1"
| "close_weight CloseReturned = 0"

definition drain_measure :: "listener \<Rightarrow> nat" where
  "drain_measure s = run_weight (ls_run s) + sum_list (map task_weight (ls_tasks s)) + close_weight (ls_close s)"

lemma drain_decreases:
  "listener_step q E G s l t \<Longrightarrow> draining q l \<Longrightarrow> drain_measure t < drain_measure s"
proof (induction rule: listener_step.cases)
  case (handshake s as tk bs h r)
  then show ?case
    by (cases r) (auto simp: drain_measure_def listener_ops task_weight_def)
qed (auto simp: drain_measure_def listener_ops task_weight_def draining_def ends_run_def Let_def)

lemma task_weight_le: "task_weight t \<le> 5"
  by (cases "tk_phase t") (auto simp: task_weight_def)

lemma drain_measure_le:
  assumes "inv_counts cap s"
  shows "drain_measure s \<le> 5 * cap + 10"
proof -
  have "sum_list (map task_weight ts) \<le> 5 * length ts" for ts
    by (induction ts) (use task_weight_le in \<open>auto intro: add_mono\<close>)
  then have "sum_list (map task_weight (ls_tasks s)) \<le> 5 * cap"
    using assms by (metis inv_counts_def le_trans mult_le_mono2)
  moreover have "run_weight (ls_run s) \<le> 7" "close_weight (ls_close s) \<le> 3"
    by (cases "ls_run s"; simp) (cases "ls_close s"; simp)
  ultimately show ?thesis
    by (simp add: drain_measure_def)
qed

text \<open>
  Those of them that need nobody's help: a delivery needs a caller of \<^verbatim>\<open>Accept\<close>, and the expiry of a
  context needs its timer. What is left are the steps of the listener's own goroutines, with the
  accept loop's one on the error of the closed inner listener.
\<close>

definition unaided :: "(string \<Rightarrow> string) \<Rightarrow> label \<Rightarrow> bool" where
  "unaided q l = (case l of Deliver k \<Rightarrow> False | Expire k \<Rightarrow> False | ExpireQueued \<Rightarrow> False | _ \<Rightarrow> draining q l)"

lemma unaided_draining: "unaided q l \<Longrightarrow> draining q l"
  by (auto simp: unaided_def split: label.splits)

lemma unaidedI: "listener_step q E G s l t \<Longrightarrow> unaided q l \<Longrightarrow> \<exists>l t. unaided q l \<and> listener_step q E G s l t"
  by blast

text \<open>No goroutine is ever stuck after \<^verbatim>\<open>Close\<close> has cancelled the context, though nobody calls \<^verbatim>\<open>Accept\<close>.\<close>

lemma handshake_returns:
  assumes "gl_camoConfig G \<noteq> None"
  shows "\<exists>h' r. handshake E G c sc h = Return (h', r)"
proof -
  have "handshake E G c sc h \<noteq> Panic"
    using assms by (auto simp: handshake_def Let_def split: prod.splits sum.splits)
  then show ?thesis
    by (metis outcome.exhaust surj_pair)
qed

lemma task_not_stuck:
  assumes "ls_tasks s = as @ tk # bs" and "ls_cancelled s" and "gl_camoConfig G \<noteq> None"
  shows "\<exists>l t. unaided q l \<and> listener_step q E G s l t"
proof (cases "tk_phase tk")
  case Handshaking
  obtain h r where "handshake E G (RawConn (tk_id tk)) (tk_scope tk) (ls_hist s) = Return (h, r)"
    using handshake_returns [OF assms(3)] by blast
  from listener_step.handshake [OF assms(1) Handshaking this] show ?thesis
    by (rule unaidedI) (simp add: unaided_def draining_def)
next
  case (Offering cc)
  show ?thesis
    by (rule unaidedI [OF listener_step.drop_offered [OF assms(1) Offering]])
      (simp_all add: unaided_def draining_def assms)
next
  case Returned
  show ?thesis
    by (rule unaidedI [OF listener_step.signal [OF assms(1) Returned]]) (simp add: unaided_def draining_def)
next
  case Signalled
  show ?thesis
    by (rule unaidedI [OF listener_step.release [OF assms(1) Signalled]]) (simp add: unaided_def draining_def)
qed

lemma closed_ends_run: "ends_run q (AcceptErr b (External closed_text))"
  by (simp add: ends_run_def strings_HasSuffix_def)

lemma closing_not_stuck:
  assumes "inv_counts (gl_queueCap G) s" and "ls_close s = CloseWaiting" and "gl_camoConfig G \<noteq> None"
  shows "\<exists>l t. unaided q l \<and> listener_step q E G s l t"
proof (cases "ls_run s")
  case RunAccept
  have "listener_step q E G s (AcceptErr False (External closed_text))
      (run_error q False (External closed_text) s)"
    using RunAccept by (rule listener_step.accept_err)
  then show ?thesis
    by (rule unaidedI) (simp add: unaided_def draining_def closed_ends_run)
next
  case (RunDispatch k sc ex)
  show ?thesis
    by (rule unaidedI [OF listener_step.drop_queued [OF RunDispatch]])
      (use assms in \<open>simp_all add: unaided_def draining_def inv_counts_def\<close>)
next
  case RunExited
  show ?thesis
  proof (cases "ls_tasks s")
    case Nil
    then have "ls_wg s = 0"
      using RunExited assms(1) by (simp add: inv_counts_def)
    then show ?thesis
      by (rule unaidedI [OF listener_step.close_return [OF assms(2)]]) (simp_all add: unaided_def draining_def)
  next
    case (Cons tk bs)
    then show ?thesis
      using task_not_stuck [of s "[]" tk bs G q E] assms by (simp add: inv_counts_def)
  qed
qed

text \<open>While it drains, \<^verbatim>\<open>Close\<close> waits or has returned.\<close>

lemma closing_stays:
  assumes "listener_step q E G s l t" and "ls_close s \<in> {CloseWaiting, CloseReturned}"
  shows "ls_close t \<in> {CloseWaiting, CloseReturned}"
  using assms by (cases rule: listener_step.cases) (auto simp: listener_ops Let_def)

lemma closing_stays_trace:
  "trace (listener_step q E G) s ls t \<Longrightarrow> ls_close s \<in> {CloseWaiting, CloseReturned} \<Longrightarrow>
    ls_close t \<in> {CloseWaiting, CloseReturned}"
  by (induction rule: trace.induct) (auto dest: closing_stays)

text \<open>So its own goroutines bring \<^verbatim>\<open>Close\<close> to its end.\<close>

lemma closing_completes:
  assumes "reach (listener_step q E G) initial_listener s" and "ls_close s \<in> {CloseWaiting, CloseReturned}"
    and "gl_camoConfig G \<noteq> None"
  shows "\<exists>ls u. trace (listener_step q E G) s ls u \<and> list_all (unaided q) ls \<and> ls_close u = CloseReturned"
  using assms(1,2)
proof (induction "drain_measure s" arbitrary: s rule: less_induct)
  case less
  show ?case
  proof (cases "ls_close s = CloseReturned")
    case True
    then show ?thesis
      by (intro exI [of _ "[]"] exI [of _ s]) (simp add: trace_Nil)
  next
    case False
    then obtain l t where l: "unaided q l" and st: "listener_step q E G s l t"
      using closing_not_stuck [OF counts.reach_inv [OF less.prems(1)] _ assms(3)] less.prems(2) by blast
    obtain ls u where "trace (listener_step q E G) t ls u" "list_all (unaided q) ls" "ls_close u = CloseReturned"
      using less.hyps [OF drain_decreases [OF st unaided_draining [OF l]]] reach_step [OF less.prems(1) st]
        closing_stays [OF st less.prems(2)] by blast
    with l st show ?thesis
      by (intro exI [of _ "l # ls"] exI [of _ u]) (simp add: trace_Cons)
  qed
qed

end
