(* ===== verification/ListenerSpec.thy ===== *)
theory ListenerSpec
  imports ListenerProgress
begin

text \<open>
  The abstract specification of the listener: a ledger that knows of each connection only whether it
  is in flight, delivered or discarded, and the refinement: every step of the goroutines is a step
  of the ledger or invisible in it.
\<close>

section \<open>The ledger\<close>

datatype fate = InFlight | Delivered | Discarded

type_synonym ledger = "nat \<Rightarrow> fate option"

inductive ledger_step :: "ledger \<Rightarrow> label \<Rightarrow> ledger \<Rightarrow> bool" where
  ledger_accept: "m k = None \<Longrightarrow> ledger_step m (AcceptOk b) (m(k \<mapsto> InFlight))"
| ledger_deliver: "m k = Some InFlight \<Longrightarrow> ledger_step m (Deliver k) (m(k \<mapsto> Delivered))"
| ledger_discard: "m k = Some InFlight \<Longrightarrow> l \<in> {DropQueued, Handshake k, DropOffered k} \<Longrightarrow>
    ledger_step m l (m(k \<mapsto> Discarded))"
| ledger_internal: "l \<notin> range AcceptOk \<union> range Deliver \<union> range DropOffered \<union> {DropQueued} \<Longrightarrow> ledger_step m l m"

text \<open>In the ledger a fate is final, and nothing is forgotten.\<close>

lemma ledger_final:
  assumes "ledger_step m l m'" and "m k \<noteq> None"
  shows "m' k = m k \<or> m k = Some InFlight \<and> m' k \<in> {Some Delivered, Some Discarded}"
  using assms by (cases rule: ledger_step.cases) auto

text \<open>What the ledger sees of a listener.\<close>

definition ledger_of :: "listener \<Rightarrow> ledger" where
  "ledger_of s k =
     (if live s k then Some InFlight
      else if accepts k (ls_hist s) = 0 then None
      else if delivers k (ls_hist s) = 0 then Some Discarded
      else Some Delivered)"

section \<open>The refinement\<close>

lemma ledger_of_frame:
  assumes "ls_hist t = ls_hist s @ evs" and "\<And>n. n \<noteq> k \<Longrightarrow> accepts n evs = 0"
    and "\<And>n. n \<noteq> k \<Longrightarrow> delivers n evs = 0" and "\<And>n. n \<noteq> k \<Longrightarrow> live t n = live s n"
    and "ledger_of t k = f"
  shows "ledger_of t = (ledger_of s)(k := f)"
  using assms by (auto simp: ledger_of_def fun_eq_iff)

lemma ledger_of_same:
  assumes "ls_hist t = ls_hist s @ evs" and "\<And>n. accepts n evs = 0" and "\<And>n. delivers n evs = 0"
    and "\<And>n. live t n = live s n"
  shows "ledger_of t = ledger_of s"
  using assms by (auto simp: ledger_of_def fun_eq_iff)

lemma discard_quiet: "\<exists>evs. discard c sc h = h @ evs \<and> (\<forall>n. accepts n evs = 0) \<and> (\<forall>n. delivers n evs = 0)"
  using discard_events by metis

text \<open>A goroutine changes phase: its entry alone may change, and only from in flight.\<close>

lemma ledger_of_task:
  assumes inv: "inv_ids s" "inv_ledger s" and tk: "ls_tasks s = as @ tk # bs" "pending (tk_phase tk)"
    and t: "ls_tasks t = as @ tk\<lparr>tk_phase := ph\<rparr> # bs" "ls_run t = ls_run s" "ls_hist t = ls_hist s @ evs"
    and quiet: "\<And>n. accepts n evs = 0" "\<And>n. n \<noteq> tk_id tk \<Longrightarrow> delivers n evs = 0"
  shows "ledger_of s (tk_id tk) = Some InFlight"
    and "ledger_of t = (ledger_of s)(tk_id tk \<mapsto>
      (if pending ph then InFlight else if delivers (tk_id tk) evs = 0 then Discarded else Delivered))"
proof -
  have live: "live s (tk_id tk)"
    using live_task [OF tk] .
  then show "ledger_of s (tk_id tk) = Some InFlight"
    by (simp add: ledger_of_def)
  note now = live_alone [OF inv(1) tk(1) t(1,2)]
  have "accepts (tk_id tk) (ls_hist s) = 1" "delivers (tk_id tk) (ls_hist s) = 0"
    using entry_of_task(2) [OF inv(2) tk(1)] live by (simp_all add: entry_ok_def untouched_def)
  then have "ledger_of t (tk_id tk) = Some (if pending ph then InFlight
      else if delivers (tk_id tk) evs = 0 then Discarded else Delivered)"
    using now(1) quiet(1) t(3) by (simp add: ledger_of_def)
  then show "ledger_of t = (ledger_of s)(tk_id tk \<mapsto>
      (if pending ph then InFlight else if delivers (tk_id tk) evs = 0 then Discarded else Delivered))"
    using t(3) quiet now(2) by (intro ledger_of_frame [where evs = evs]) auto
qed

lemma refine_accept:
  assumes "inv_ids s" and "inv_ledger s" and "ls_run s = RunAccept"
  shows "ledger_step (ledger_of s) (AcceptOk b) (ledger_of (run_accepted b s))"
proof -
  have "accepts (ls_next s) (ls_hist s) = 0"
    using assms(2) accepts_pos_iff by (metis entry_ok_def gr0I inv_ledger_def less_irrefl)
  moreover have "\<not> live s (ls_next s)"
    using assms(1,3) by (auto simp: live_def inv_ids_def)
  ultimately have "ledger_of s (ls_next s) = None"
    by (simp add: ledger_of_def)
  moreover have "ledger_of (run_accepted b s) = (ledger_of s)(ls_next s \<mapsto> InFlight)"
    using assms(3)
    by (intro ledger_of_frame [where evs = "[EvAccept (ls_next s) (fresh_scope s b)]"])
      (auto simp: run_accepted_def live_def ledger_of_def)
  ultimately show ?thesis
    by (simp add: ledger_accept)
qed

lemma refine_drop_queued:
  assumes ids: "inv_ids s" and inv: "inv_ledger s" and run: "ls_run s = RunDispatch k sc ex"
  shows "ledger_step (ledger_of s) DropQueued (ledger_of (dispatch_dropped k sc s))"
proof -
  let ?t = "dispatch_dropped k sc s"
  have live: "live s k"
    using run by (simp add: live_def)
  have "EvAccept k sc \<in> set (ls_hist s)"
    using inv run by (simp add: inv_ledger_def owners_ok_def)
  then have "entry_ok s k sc"
    using inv by (simp add: inv_ledger_def)
  with live have one: "accepts k (ls_hist s) = 1" "delivers k (ls_hist s) = 0"
    by (simp_all add: entry_ok_def untouched_def)
  have free: "\<not> live ?t k" "\<And>n. n \<noteq> k \<Longrightarrow> live ?t n = live s n"
    using ids run by (auto simp: live_def inv_ids_def dispatch_dropped_def)
  obtain evs where evs: "ls_hist ?t = ls_hist s @ evs" "\<And>n. accepts n evs = 0" "\<And>n. delivers n evs = 0"
    using discard_quiet [of "RawConn k" sc "ls_hist s"] by (auto simp: dispatch_dropped_def)
  have "ledger_of ?t = (ledger_of s)(k \<mapsto> Discarded)"
    using one free evs by (intro ledger_of_frame [OF evs(1)]) (simp_all add: ledger_of_def)
  then show ?thesis
    using live by (simp add: ledger_of_def ledger_discard)
qed

lemma refine_handshake:
  assumes ids: "inv_ids s" and inv: "inv_ledger s" and tk: "ls_tasks s = as @ tk # bs" "tk_phase tk = Handshaking"
    and run: "handshake E G (RawConn (tk_id tk)) (tk_scope tk) (ls_hist s) = Return (h, r)"
  shows "ledger_step (ledger_of s) (Handshake (tk_id tk)) (ledger_of (task_handshake as tk bs h r s))"
  using run
proof (cases rule: handshake_cases)
  case (offered cc evs)
  have "ledger_of (task_handshake as tk bs h r s) = ledger_of s"
    using ledger_of_task [OF ids inv tk(1), of "task_handshake as tk bs h r s" "Offering cc" evs] tk(2) offered
    by (auto simp: task_handshake_def set_task_def untouched_def fun_upd_idem)
  then show ?thesis
    by (auto intro: ledger_internal)
next
  case (failed evs)
  have "ledger_of s (tk_id tk) = Some InFlight"
    "ledger_of (task_handshake as tk bs h r s) = (ledger_of s)(tk_id tk \<mapsto> Discarded)"
    using ledger_of_task [OF ids inv tk(1), of "task_handshake as tk bs h r s" Returned evs] tk(2) failed
    by (auto simp: task_handshake_def set_task_def)
  then show ?thesis
    by (simp add: ledger_discard)
qed

lemma refine_offered:
  assumes ids: "inv_ids s" and inv: "inv_ledger s" and tk: "ls_tasks s = as @ tk # bs" "tk_phase tk = Offering cc"
  shows "ledger_step (ledger_of s) (Deliver (tk_id tk)) (ledger_of (task_delivered as tk bs cc s))"
    and "ledger_step (ledger_of s) (DropOffered (tk_id tk)) (ledger_of (task_dropped as tk bs cc s))"
proof -
  have raw: "raw_conn (cc_tlsConn cc) = tk_id tk"
    using inv tk by (auto simp: inv_ledger_def owners_ok_def)
  note task = ledger_of_task [OF ids inv tk(1)]
  show "ledger_step (ledger_of s) (Deliver (tk_id tk)) (ledger_of (task_delivered as tk bs cc s))"
    using task [of "task_delivered as tk bs cc s" Returned "[EvDeliver cc (tk_scope tk)]"] tk(2) raw
    by (auto simp: task_delivered_def set_task_def intro: ledger_deliver)
  obtain evs where "discard (cc_tlsConn cc) (tk_scope tk) (ls_hist s) = ls_hist s @ evs"
    "\<And>n. accepts n evs = 0" "\<And>n. delivers n evs = 0"
    using discard_quiet by metis
  then show "ledger_step (ledger_of s) (DropOffered (tk_id tk)) (ledger_of (task_dropped as tk bs cc s))"
    using task [of "task_dropped as tk bs cc s" Returned evs] tk(2)
    by (auto simp: task_dropped_def set_task_def intro: ledger_discard)
qed

text \<open>The other steps move no connection.\<close>

lemma refine_quiet:
  assumes "ls_hist t = ls_hist s @ evs" and "\<And>n. accepts n evs = 0" and "\<And>n. delivers n evs = 0"
    and "\<And>n. live t n = live s n" and "l \<notin> range AcceptOk \<union> range Deliver \<union> range DropOffered \<union> {DropQueued}"
  shows "ledger_step (ledger_of s) l (ledger_of t)"
  using ledger_of_same [OF assms(1-4)] assms(5) by (auto intro: ledger_internal)

lemma listener_refines:
  assumes "listener_step q E G s l t" and ids: "inv_ids s" and inv: "inv_ledger s"
  shows "ledger_step (ledger_of s) l (ledger_of t)"
  using assms(1)
proof (cases rule: listener_step.cases)
  case (handshake as tk bs h r)
  with refine_handshake [OF ids inv] show ?thesis by blast
next
  case (accept_err b err)
  then show ?thesis
    by (intro refine_quiet [where evs = "if b then [EvScopeDone (ls_next s)] else []"])
      (auto simp: run_error_simps releaseScope_def fresh_scope_def live_def)
next
  case (enqueue k sc ex)
  then show ?thesis
    by (intro refine_quiet [where evs = "[]"]) (auto simp: live_def dispatch_queued_def)
next
  case (expire as tk bs)
  then show ?thesis
    by (intro refine_quiet [where evs = "[]"]) (auto simp: live_def listener_ops)
next
  case (expire_queued k sc)
  then show ?thesis
    by (intro refine_quiet [where evs = "[]"]) (auto simp: live_def)
next
  case (signal as tk bs)
  then show ?thesis
    by (intro refine_quiet [where evs = "[]"]) (auto simp: live_def listener_ops)
next
  case (release as tk bs)
  then show ?thesis
    by (intro refine_quiet [where evs = "[]"]) (auto simp: live_def listener_ops)
next
  case close_cancel
  then show ?thesis
    by (intro refine_quiet [where evs = "[]"]) (auto simp: live_def)
next
  case close_inner
  then show ?thesis
    by (intro refine_quiet [where evs = "[]"]) (auto simp: live_def)
next
  case close_return
  then show ?thesis
    by (intro refine_quiet [where evs = "[]"]) (auto simp: live_def)
next
  case accept_closed
  then show ?thesis
    by (intro refine_quiet [where evs = "[]"]) auto
qed (use ids inv in \<open>simp_all add: refine_accept refine_drop_queued [OF ids inv] refine_offered\<close>)

lemma ledger_of_initial [simp]: "ledger_of initial_listener = (\<lambda>_. None)"
  by (simp add: fun_eq_iff ledger_of_def live_def initial_listener_def)

lemma trace_refines:
  "trace (listener_step q E G) s ls t \<Longrightarrow> reach (listener_step q E G) initial_listener s \<Longrightarrow>
    trace ledger_step (ledger_of s) ls (ledger_of t)"
proof (induction rule: trace.induct)
  case (trace_Cons s l t ls u)
  then have "ledger_step (ledger_of s) l (ledger_of t)"
    using listener_refines ledger.reach_inv by blast
  with trace_Cons show ?case
    by (auto intro: trace.intros reach.intros)
qed (rule trace_Nil)

end
