(* ===== verification/ListenerClaims.thy ===== *)
theory ListenerClaims
  imports ListenerProgress ListenerSpec TransportClaims
begin

text \<open>
  The properties of the listener (\<^verbatim>\<open>src/camouflage.go\<close>), over every interleaving of its goroutines, its
  timers, the callers of \<^verbatim>\<open>Accept\<close> and the one of \<^verbatim>\<open>Close\<close>. The witnesses are runs of the scheduler
  \<open>lrun\<close> on the listener of the demo transport.
\<close>

section \<open>Runs for the witnesses\<close>

definition demo_G :: "(int, sym_der) gated_listener" where
  "demo_G = newCamouflageGatedMaListener demo_transport"

lemma demo_G_simps [simp]:
  "gl_queueCap demo_G = 64" "gl_camoConfig demo_G = Some demo_config"
  by (simp_all add: demo_G_def newCamouflageGatedMaListener_def acceptQueueSize_def demo_transport_def)

lemma lrun_reach: "lrun q E G initial_listener ls = Some t \<Longrightarrow> reach (listener_step q E G) initial_listener t"
  using trace_reach [OF lrun_trace reach_init] .

lemma demo_handshake:
  "handshake calm_env demo_G (RawConn k) sc h =
    Return (h @ [EvSetLinger (RawConn k) 0, EvSetKeepAlive (RawConn k) True,
      EvSetKeepAlivePeriod (RawConn k) (30 * time_Second), EvSetDeadline (listener_spoof demo_G k) (Some 1050),
      EvTlsHandshake (listener_spoof demo_G k) defaultALPNProtos VersionTLS12 50,
      EvSetDeadline (listener_spoof demo_G k) None],
      Some \<lparr>cc_tlsConn = ServerTLS (listener_spoof demo_G k), cc_rawConn = listener_spoof demo_G k\<rparr>)"
  by (simp add: handshake_def tryKeepAlive_def setLinger_def NewCamouflageConn_def serverTLSHandshake_def
      calm_env_def demo_config_def validateALPN_def defaultALPNProtos_def Let_def listener_spoof_def)

lemmas lrun_defs = initial_listener_def listener_ops on_task_def fresh_scope_def demo_handshake

lemma demo_delivery:
  obtains s where "lrun id calm_env demo_G initial_listener
      [AcceptOk True, Enqueue, AcceptOk False, Handshake 0, Deliver 0, ExpireQueued, DropQueued] = Some s"
    and "EvAccept 0 (Some 0) \<in> set (ls_hist s)" and "EvAccept 1 None \<in> set (ls_hist s)"
    and "\<not> live s 0" and "\<not> live s 1" and "delivers 0 (ls_hist s) = 1" and "closes 1 (ls_hist s) = 1"
    and "\<exists>cc. EvDeliver cc (Some 0) \<in> set (ls_hist s)"
  by (rule that) (auto simp: lrun_defs live_def dispatch_dropped_def discard_def releaseScope_def)

lemma demo_closing:
  obtains s where "lrun id calm_env demo_G initial_listener
      [AcceptOk True, Enqueue, CloseCancel, CloseInner] = Some s"
    and "ls_close s = CloseWaiting" and "ls_wg s = 2"
  by (rule that) (auto simp: lrun_defs)

lemma demo_closed:
  obtains s where "lrun id calm_env demo_G initial_listener
      [AcceptOk True, Enqueue, CloseCancel, CloseInner, AcceptErr False (External closed_text), Handshake 0,
       DropOffered 0, Signal 0, CloseReturn] = Some s"
    and "ls_close s = CloseReturned" and "EvAccept 0 (Some 0) \<in> set (ls_hist s)"
    and "delivers 0 (ls_hist s) = 0"
  by (rule that) (auto simp: lrun_defs strings_HasSuffix_def discard_def releaseScope_def)

lemma demo_pending:
  obtains s where "lrun id calm_env demo_G initial_listener [AcceptOk True, Enqueue, Handshake 0, CloseCancel] = Some s"
    and "ls_cancelled s" and "length (Accept_ready s) = 2"
  by (rule that) (auto simp: lrun_defs Accept_ready_def offers_def)

section \<open>Connections and their scopes\<close>

text \<open>C1 Whatever the interleaving, a connection accepted from the kernel has one fate: while in flight it is
  untouched; after that it was either delivered to \<^verbatim>\<open>Accept\<close> exactly once, and left open with its scope
  held, or never delivered, closed, and its resource scope (if it has one) released exactly once.\<close>

theorem accepted_connection_fate:
  assumes "reach (listener_step q E G) initial_listener s" and "EvAccept k sc \<in> set (ls_hist s)"
  shows "if live s k
    then delivers k (ls_hist s) = 0 \<and> closes k (ls_hist s) = 0 \<and> releases k (ls_hist s) = 0
    else delivers k (ls_hist s) = 1 \<and> closes k (ls_hist s) = 0 \<and> releases k (ls_hist s) = 0 \<or>
      delivers k (ls_hist s) = 0 \<and> 0 < closes k (ls_hist s) \<and> releases k (ls_hist s) = (if sc = None then 0 else 1)"
proof -
  have "entry_ok s k sc"
    using ledger.reach_inv [OF assms(1)] assms(2) by (simp add: inv_ledger_def)
  then show ?thesis
    by (auto simp: entry_ok_def untouched_def settled_def)
qed

theorem accepted_connection_fate_witness:
  "\<exists>s. reach (listener_step id calm_env demo_G) initial_listener s \<and> delivers 0 (ls_hist s) = 1 \<and>
    closes 0 (ls_hist s) = 0 \<and> releases 0 (ls_hist s) = 0"
proof (rule demo_delivery)
  fix s
  assume s: "lrun id calm_env demo_G initial_listener
      [AcceptOk True, Enqueue, AcceptOk False, Handshake 0, Deliver 0, ExpireQueued, DropQueued] = Some s"
    and ev: "EvAccept 0 (Some 0) \<in> set (ls_hist s)" and "\<not> live s 0" "delivers 0 (ls_hist s) = 1"
  with accepted_connection_fate [OF lrun_reach [OF s] ev] lrun_reach [OF s] show ?thesis
    by auto
qed

text \<open>C2 The listener implements its ledger: read through \<open>ledger_of\<close>, every run is, label for label, a run of
  the abstract ledger from the empty one, in which a connection enters in flight and leaves once, for
  good, delivered by the step that delivers it or discarded by one that may discard.\<close>

theorem listener_implements_ledger:
  assumes "trace (listener_step q E G) initial_listener ls s"
  shows "trace ledger_step (\<lambda>_. None) ls (ledger_of s)"
  using trace_refines [OF assms reach_init] by simp

theorem listener_implements_ledger_witness:
  "\<exists>s. ledger_of s 0 = Some Delivered \<and> trace ledger_step (\<lambda>_. None)
    [AcceptOk True, Enqueue, AcceptOk False, Handshake 0, Deliver 0, ExpireQueued, DropQueued] (ledger_of s)"
proof (rule demo_delivery)
  fix s
  assume s: "lrun id calm_env demo_G initial_listener
      [AcceptOk True, Enqueue, AcceptOk False, Handshake 0, Deliver 0, ExpireQueued, DropQueued] = Some s"
    and "EvAccept 0 (Some 0) \<in> set (ls_hist s)" "\<not> live s 0" "delivers 0 (ls_hist s) = 1"
  then have "ledger_of s 0 = Some Delivered"
    using accepts_pos_iff [of 0 "ls_hist s"] by (auto simp: ledger_of_def)
  with listener_implements_ledger [OF lrun_trace [OF s]] show ?thesis
    by blast
qed

text \<open>C9 Nothing reaches the upper layers but authenticated tunnels: whatever \<^verbatim>\<open>Accept\<close> hands over is the
  server end of a TLS tunnel over a \<^verbatim>\<open>SpoofConn\<close> with the listener's parameters on an accepted
  connection, its TLS handshake succeeded under the configured timeout with no protocol or an
  allowed one, and it comes with the scope of that very connection.\<close>

theorem delivered_is_tunnel:
  assumes "reach (listener_step q E G) initial_listener s" and "EvDeliver cc sc \<in> set (ls_hist s)"
  shows "\<exists>k cfg scfg h0 h1 p. EvAccept k sc \<in> set (ls_hist s) \<and>
    (let spoofed = Spoofed (RawConn k) (NewSpoofConn (gl_fragmentSize G) (gl_handshakeLen G) (gl_maxDelay G) (gl_sni G));
         tried = h0 @ [EvTlsHandshake spoofed (tl_NextProtos scfg) (tl_MinVersion scfg) (cg_handshakeTimeout cfg)]
     in cc = \<lparr>cc_tlsConn = ServerTLS spoofed, cc_rawConn = spoofed\<rparr> \<and> ls_hist s = tried @ h1 \<and>
        gl_camoConfig G = Some cfg \<and> cg_serverTLSConfig cfg = Some scfg \<and> en_tls E tried = Inr p \<and>
        validateALPN p (cg_alpnProtos cfg))"
proof -
  have "\<exists>k. tunnel_ok E G k cc (ls_hist s) \<and> EvAccept k sc \<in> set (ls_hist s)"
    using tunnels.reach_inv [OF assms(1)] assms(2) unfolding inv_tunnel_def by blast
  then show ?thesis
    unfolding tunnel_ok_def listener_spoof_def Let_def validateALPN_iff by blast
qed

theorem delivered_is_tunnel_witness:
  "\<exists>s cc k. reach (listener_step id calm_env demo_G) initial_listener s \<and> EvDeliver cc (Some 0) \<in> set (ls_hist s) \<and>
    EvAccept k (Some 0) \<in> set (ls_hist s) \<and> raw_conn (cc_tlsConn cc) = k"
proof (rule demo_delivery)
  fix s
  assume s: "lrun id calm_env demo_G initial_listener
      [AcceptOk True, Enqueue, AcceptOk False, Handshake 0, Deliver 0, ExpireQueued, DropQueued] = Some s"
    and "\<exists>cc. EvDeliver cc (Some 0) \<in> set (ls_hist s)"
  then obtain cc where cc: "EvDeliver cc (Some 0) \<in> set (ls_hist s)"
    by blast
  from delivered_is_tunnel [OF lrun_reach [OF s] cc] lrun_reach [OF s] cc show ?thesis
    by (fastforce simp: Let_def)
qed

section \<open>Bounds\<close>

text \<open>C21 However fast connections arrive, at most 64 handshakes of a listener made by \<^verbatim>\<open>Listen\<close> are under way
  at once: every handshake goroutine holds one of the queue's places until it has finished, and the
  number of taken places is exactly the number of goroutines.\<close>

theorem handshakes_bounded:
  assumes "reach (listener_step q E (newCamouflageGatedMaListener t)) initial_listener s"
  shows "length (ls_tasks s) \<le> 64 \<and> ls_queue s = length (ls_tasks s) \<and> distinct (map tk_id (ls_tasks s))"
  using counts.reach_inv [OF assms] ids.reach_inv [OF assms]
  by (simp add: inv_counts_def inv_ids_def newCamouflageGatedMaListener_def acceptQueueSize_def)

theorem handshakes_bounded_witness:
  "\<exists>s. reach (listener_step id calm_env demo_G) initial_listener s \<and> ls_wg s = 2 \<and> length (ls_tasks s) \<le> 64"
proof (rule demo_closing)
  fix s
  assume s: "lrun id calm_env demo_G initial_listener [AcceptOk True, Enqueue, CloseCancel, CloseInner] = Some s"
    and "ls_wg s = 2"
  with handshakes_bounded [OF lrun_reach [OF s, unfolded demo_G_def]] lrun_reach [OF s] show ?thesis
    by blast
qed

text \<open>C23 The wait group is used as it must be: its counter is never negative, counts the accept loop and the
  handshakes still to finish, and is only ever raised from a positive value, so an \<^verbatim>\<open>Add\<close> cannot race with
  a \<^verbatim>\<open>Wait\<close> that sees zero.\<close>

theorem waitgroup_discipline:
  assumes "reach (listener_step q E G) initial_listener s" and "listener_step q E G s l t"
  shows "0 \<le> ls_wg s \<and> 0 \<le> ls_wg t \<and>
    ls_wg s = (if ls_run s = RunExited then 0 else 1) +
      int (length (filter (\<lambda>tk. tk_phase tk \<noteq> Signalled) (ls_tasks s))) \<and>
    (ls_wg s < ls_wg t \<longrightarrow> 0 < ls_wg s \<and> ls_wg t = ls_wg s + 1 \<and> ls_close s \<noteq> CloseReturned)"
proof -
  have c: "inv_counts (gl_queueCap G) s" "inv_counts (gl_queueCap G) t"
    using counts.reach_step_inv [OF assms] by simp_all
  have "0 < ls_wg s \<and> ls_wg t = ls_wg s + 1 \<and> ls_close s \<noteq> CloseReturned" if "ls_wg s < ls_wg t"
    using assms(2) that c(1)
    by (cases rule: listener_step.cases)
      (auto simp: listener_ops Let_def inv_counts_def split: if_splits)
  then show ?thesis
    using c by (auto simp: inv_counts_def unsignalled_def)
qed

theorem waitgroup_discipline_witness:
  "\<exists>s t. reach (listener_step id calm_env demo_G) initial_listener s \<and>
    listener_step id calm_env demo_G s (AcceptOk True) t \<and> 0 \<le> ls_wg t \<and> ls_wg s = 2"
proof (rule demo_closing)
  fix s
  assume s: "lrun id calm_env demo_G initial_listener [AcceptOk True, Enqueue, CloseCancel, CloseInner] = Some s"
    and wg: "ls_wg s = 2"
  have "ls_run s = RunAccept"
    using s by (auto simp: lrun_defs)
  then have st: "listener_step id calm_env demo_G s (AcceptOk True) (run_accepted True s)"
    by (rule listener_step.accept_ok)
  from waitgroup_discipline [OF lrun_reach [OF s] st] lrun_reach [OF s] st wg show ?thesis
    by blast
qed

section \<open>Silent peers\<close>

text \<open>C12 A silent peer does not block the next one: with fewer than 64 handshakes under way, however long they
  have been hanging, a new connection whose own handshake succeeds goes from the kernel to \<^verbatim>\<open>Accept\<close> in
  four steps of the accept loop and of its own goroutine. No other handshake has to move.\<close>

theorem no_head_of_line_blocking:
  assumes "reach (listener_step q E (newCamouflageGatedMaListener tr)) initial_listener s"
    and "ls_run s = RunAccept" and "length (ls_tasks s) < 64"
    and "handshake E (newCamouflageGatedMaListener tr) (RawConn (ls_next s)) (fresh_scope s scoped)
      (ls_hist s @ [EvAccept (ls_next s) (fresh_scope s scoped)]) = Return (h, Some cc)"
  shows "\<exists>t tk. trace (listener_step q E (newCamouflageGatedMaListener tr)) s
      [AcceptOk scoped, Enqueue, Handshake (ls_next s), Deliver (ls_next s)] t \<and>
    ls_tasks t = ls_tasks s @ [tk] \<and> tk_id tk = ls_next s \<and> tk_phase tk = Returned \<and>
    ls_hist t = h @ [EvDeliver cc (fresh_scope s scoped)]"
proof -
  let ?G = "newCamouflageGatedMaListener tr" and ?k = "ls_next s" and ?sc = "fresh_scope s scoped"
  let ?step = "listener_step q E ?G"
  define tk where "tk = \<lparr>tk_id = ?k, tk_scope = ?sc, tk_expired = False, tk_phase = Handshaking\<rparr>"
  define s1 where "s1 = run_accepted scoped s"
  define s2 where "s2 = dispatch_queued ?k ?sc False s1"
  define s3 where "s3 = task_handshake (ls_tasks s) tk [] h (Some cc) s2"
  define s4 where "s4 = task_delivered (ls_tasks s) (tk\<lparr>tk_phase := Offering cc\<rparr>) [] cc s3"
  note defs = s1_def s2_def s3_def s4_def tk_def run_accepted_def dispatch_queued_def task_handshake_def
    task_delivered_def set_task_def
  have cap: "ls_queue s < gl_queueCap ?G"
    using counts.reach_inv [OF assms(1)] assms(3)
    by (simp add: inv_counts_def newCamouflageGatedMaListener_def acceptQueueSize_def)
  have "?step s (AcceptOk scoped) s1"
    unfolding s1_def using assms(2) by (rule listener_step.accept_ok)
  moreover have "?step s1 Enqueue s2"
    unfolding s2_def by (rule listener_step.enqueue) (use cap in \<open>simp_all add: s1_def run_accepted_def\<close>)
  moreover have "?step s2 (Handshake ?k) s3"
    using listener_step.handshake [of s2 "ls_tasks s" tk "[]" E ?G h "Some cc" q] assms(4)
    by (simp add: defs)
  moreover have "?step s3 (Deliver ?k) s4"
    using listener_step.deliver [of s3 "ls_tasks s" "tk\<lparr>tk_phase := Offering cc\<rparr>" "[]" cc q E ?G]
    by (simp add: defs)
  ultimately have "trace ?step s [AcceptOk scoped, Enqueue, Handshake ?k, Deliver ?k] s4"
    by (meson trace.intros)
  moreover have "ls_tasks s4 = ls_tasks s @ [tk\<lparr>tk_phase := Returned\<rparr>]" "ls_hist s4 = h @ [EvDeliver cc ?sc]"
    by (simp_all add: defs)
  ultimately show ?thesis
    by (intro exI [of _ s4] exI [of _ "tk\<lparr>tk_phase := Returned\<rparr>"]) (simp add: tk_def)
qed

theorem no_head_of_line_blocking_witness:
  "\<exists>s t tk. lrun id calm_env demo_G initial_listener [AcceptOk True, Enqueue] = Some s \<and>
    map tk_phase (ls_tasks s) = [Handshaking] \<and> map tk_phase (ls_tasks t) = [Handshaking, Returned] \<and>
    trace (listener_step id calm_env demo_G) s [AcceptOk True, Enqueue, Handshake 1, Deliver 1] t"
proof -
  obtain s where s: "lrun id calm_env demo_G initial_listener [AcceptOk True, Enqueue] = Some s"
    and run: "ls_run s = RunAccept" and tks: "map tk_phase (ls_tasks s) = [Handshaking]" and k: "ls_next s = 1"
    by (simp add: lrun_defs)
  have few: "length (ls_tasks s) < 64"
    using arg_cong [OF tks, of length] by simp
  from no_head_of_line_blocking [OF lrun_reach [OF s, unfolded demo_G_def] run few demo_handshake [unfolded demo_G_def]]
  obtain t tk where "trace (listener_step id calm_env demo_G) s [AcceptOk True, Enqueue, Handshake 1, Deliver 1] t"
    "ls_tasks t = ls_tasks s @ [tk]" "tk_phase tk = Returned"
    unfolding demo_G_def k by blast
  with s tks show ?thesis
    by (intro exI [of _ s] exI [of _ t] exI [of _ tk]) simp
qed

section \<open>Closing\<close>

text \<open>C10 When \<^verbatim>\<open>Close\<close> has returned, nothing is left behind: the accept loop has exited, no handshake is under
  way and none can start, and every connection ever accepted was delivered, or closed with its
  scope released.\<close>

theorem close_leaves_nothing:
  assumes "reach (listener_step q E G) initial_listener s" and "ls_close s = CloseReturned"
  shows "ls_run s = RunExited \<and> (\<forall>tk \<in> set (ls_tasks s). tk_phase tk = Signalled) \<and>
    (\<forall>k sc. EvAccept k sc \<in> set (ls_hist s) \<longrightarrow>
      delivers k (ls_hist s) = 1 \<or>
      0 < closes k (ls_hist s) \<and> releases k (ls_hist s) = (if sc = None then 0 else 1)) \<and>
    (\<forall>l t. listener_step q E G s l t \<longrightarrow> l = AcceptClosed \<or> (\<exists>k. l = Expire k \<or> l = Release k))"
proof -
  have "inv_counts (gl_queueCap G) s" "inv_ledger s"
    using counts.reach_inv [OF assms(1)] ledger.reach_inv [OF assms(1)] by simp_all
  then have run: "ls_run s = RunExited" and sig: "unsignalled (ls_tasks s) = 0" and led: "inv_ledger s"
    using assms(2) by (auto simp: inv_counts_def split: if_splits)
  have sigs: "\<forall>tk \<in> set (ls_tasks s). tk_phase tk = Signalled"
    using sig by (simp add: unsignalled_def filter_empty_conv)
  then have "\<not> live s k" for k
    using run by (force simp: live_def)
  then have "\<forall>k sc. EvAccept k sc \<in> set (ls_hist s) \<longrightarrow> settled k sc (ls_hist s)"
    using led by (simp add: inv_ledger_def entry_ok_def)
  moreover have "l = AcceptClosed \<or> (\<exists>k. l = Expire k \<or> l = Release k)" if "listener_step q E G s l t" for l t
    using that run sigs assms(2) by (cases rule: listener_step.cases) auto
  ultimately show ?thesis
    using run sigs unfolding settled_def by blast
qed

theorem close_leaves_nothing_witness:
  "\<exists>s. reach (listener_step id calm_env demo_G) initial_listener s \<and> ls_close s = CloseReturned \<and>
    0 < closes 0 (ls_hist s) \<and> releases 0 (ls_hist s) = 1"
proof (rule demo_closed)
  fix s
  assume s: "lrun id calm_env demo_G initial_listener
      [AcceptOk True, Enqueue, CloseCancel, CloseInner, AcceptErr False (External closed_text), Handshake 0,
       DropOffered 0, Signal 0, CloseReturn] = Some s"
    and c: "ls_close s = CloseReturned" and ev: "EvAccept 0 (Some 0) \<in> set (ls_hist s)"
    and d: "delivers 0 (ls_hist s) = 0"
  have "delivers 0 (ls_hist s) = 1 \<or> 0 < closes 0 (ls_hist s) \<and> releases 0 (ls_hist s) = 1"
    using close_leaves_nothing [OF lrun_reach [OF s] c] ev by fastforce
  with d c lrun_reach [OF s] show ?thesis
    by auto
qed

text \<open>C4 \<^verbatim>\<open>Close\<close> returns: once it waits, and as long as the closed inner listener yields no new connection and
  no error but the one documented for it, at most 330 steps remain under any schedule. Wherever such a
  schedule has got to, and though nobody calls \<^verbatim>\<open>Accept\<close> and no context of a handshake expires any more,
  the listener's own goroutines can go on until \<^verbatim>\<open>Close\<close> has returned: \<open>unaided\<close> steps are neither
  deliveries nor timers. A handshake is one step, which ends as its deadline makes it end.\<close>

theorem close_terminates:
  assumes "reach (listener_step q E (newCamouflageGatedMaListener tr)) initial_listener s"
    and "ct_camoConfig tr \<noteq> None" and "ls_close s = CloseWaiting"
    and "trace (listener_step q E (newCamouflageGatedMaListener tr)) s ls t" and "list_all (draining q) ls"
  shows "length ls \<le> 330 \<and>
    (ls_close t = CloseReturned \<or>
     (\<exists>l u. unaided q l \<and> listener_step q E (newCamouflageGatedMaListener tr) t l u)) \<and>
    (\<exists>ls' u. trace (listener_step q E (newCamouflageGatedMaListener tr)) t ls' u \<and> list_all (unaided q) ls' \<and>
       ls_close u = CloseReturned)"
proof -
  let ?G = "newCamouflageGatedMaListener tr"
  have G: "gl_queueCap ?G = 64" "gl_camoConfig ?G \<noteq> None"
    using assms(2) by (simp_all add: newCamouflageGatedMaListener_def acceptQueueSize_def)
  have "length ls + drain_measure t \<le> drain_measure s"
    using trace_length_le [where m = drain_measure, OF drain_decreases assms(4,5)] .
  moreover have "drain_measure s \<le> 330"
    using drain_measure_le [OF counts.reach_inv [OF assms(1)]] G(1) by simp
  moreover have "ls_close t = CloseWaiting \<or> ls_close t = CloseReturned"
    using closing_stays_trace [OF assms(4)] assms(3) by simp
  moreover have "inv_counts (gl_queueCap ?G) t"
    using counts.reach_inv trace_reach [OF assms(4,1)] by blast
  then have "ls_close t = CloseWaiting \<Longrightarrow> \<exists>l u. unaided q l \<and> listener_step q E ?G t l u"
    using closing_not_stuck [of ?G t q E] G(2) by blast
  moreover have "\<exists>ls' u. trace (listener_step q E ?G) t ls' u \<and> list_all (unaided q) ls' \<and> ls_close u = CloseReturned"
    using closing_completes [OF trace_reach [OF assms(4,1)] _ G(2)] calculation(3) by simp
  ultimately show ?thesis
    by (metis add_leD1 le_trans)
qed

theorem close_terminates_witness:
  "\<exists>s ls u. reach (listener_step id calm_env demo_G) initial_listener s \<and> ls_close s = CloseWaiting \<and>
    ls_wg s = 2 \<and> trace (listener_step id calm_env demo_G) s ls u \<and> list_all (unaided id) ls \<and> ls_close u = CloseReturned"
proof (rule demo_closing)
  fix s
  assume s: "lrun id calm_env demo_G initial_listener [AcceptOk True, Enqueue, CloseCancel, CloseInner] = Some s"
    and c: "ls_close s = CloseWaiting" and wg: "ls_wg s = 2"
  have "ct_camoConfig demo_transport \<noteq> None"
    by (simp add: demo_transport_def)
  from close_terminates [OF lrun_reach [OF s, unfolded demo_G_def] this c trace_Nil] c wg lrun_reach [OF s]
  show ?thesis
    by (auto simp: demo_G_def)
qed

text \<open>C22 The accept loop survives every error but one: it exits only on an error whose text ends in
  \<^verbatim>\<open>use of closed network connection\<close>. A probe or a transient failure cannot stop the listener; but an
  inner listener that reports its own end in other words, such as
  \<^verbatim>\<open>transport.ErrListenerClosed\<close>, keeps the loop running and \<^verbatim>\<open>Close\<close> waiting for ever.\<close>

theorem accept_loop_exit:
  assumes "trace (listener_step q E G) initial_listener ls s"
    and "\<And>b err. AcceptErr b err \<in> set ls \<Longrightarrow>
      \<not> strings_HasSuffix (error_text q err) ''use of closed network connection''"
  shows "ls_run s \<noteq> RunExited \<and> 0 < ls_wg s \<and> ls_close s \<noteq> CloseReturned"
proof -
  have "list_all (\<lambda>l. \<not> ends_run q l) ls"
    using assms(2) by (auto simp: list_all_iff ends_run_def closed_text_def split: label.split)
  then have "ls_run s \<noteq> RunExited"
    using run_goes_on_trace [OF assms(1)] by (simp add: initial_listener_def)
  moreover have "inv_counts (gl_queueCap G) s"
    using counts.reach_inv trace_reach [OF assms(1) reach_init] by blast
  ultimately show ?thesis
    by (auto simp: inv_counts_def)
qed

theorem accept_loop_exit_witness:
  "\<exists>s. trace (listener_step id calm_env demo_G) initial_listener
      [CloseCancel, CloseInner, AcceptErr False (Sentinel ErrListenerClosed)] s \<and>
    ls_close s = CloseWaiting \<and> 0 < ls_wg s"
proof -
  obtain s where s: "lrun id calm_env demo_G initial_listener
      [CloseCancel, CloseInner, AcceptErr False (Sentinel ErrListenerClosed)] = Some s"
    and c: "ls_close s = CloseWaiting"
    by (auto simp: lrun_defs Let_def)
  have texts: "\<And>b err. AcceptErr b err \<in> set [CloseCancel, CloseInner, AcceptErr False (Sentinel ErrListenerClosed)] \<Longrightarrow>
    \<not> strings_HasSuffix (error_text id err) ''use of closed network connection''"
    by (simp add: strings_HasSuffix_def)
  from accept_loop_exit [OF lrun_trace [OF s]] texts lrun_trace [OF s] c show ?thesis
    by blast
qed

text \<open>A caller of \<^verbatim>\<open>Accept\<close> never blocks once the listener is closed, and never sees \<^verbatim>\<open>ErrListenerClosed\<close>
  before; any connection it may receive is one a handshake goroutine is offering, and taking it is a
  step that records exactly this delivery.\<close>

theorem accept_ready_correct:
  assumes "reach (listener_step q E G) initial_listener s"
  shows "(Inl (Sentinel ErrListenerClosed) \<in> set (Accept_ready s) \<longleftrightarrow> ls_close s \<noteq> CloseIdle) \<and>
    (\<forall>e. Inl e \<in> set (Accept_ready s) \<longrightarrow> e = Sentinel ErrListenerClosed) \<and>
    (\<forall>cc sc. Inr (cc, sc) \<in> set (Accept_ready s) \<longrightarrow>
      (\<exists>k t. listener_step q E G s (Deliver k) t \<and> ls_hist t = ls_hist s @ [EvDeliver cc sc]))"
proof -
  have "ls_cancelled s \<longleftrightarrow> ls_close s \<noteq> CloseIdle"
    using counts.reach_inv [OF assms] by (simp add: inv_counts_def)
  moreover have "\<exists>k t. listener_step q E G s (Deliver k) t \<and> ls_hist t = ls_hist s @ [EvDeliver cc sc]"
    if mem: "Inr (cc, sc) \<in> set (Accept_ready s)" for cc sc
  proof -
    obtain tk where "tk \<in> set (ls_tasks s)" "tk_phase tk = Offering cc" "sc = tk_scope tk"
      using mem by (auto simp: Accept_ready_def offers_def split: task_phase.splits if_splits)
    moreover from this(1) obtain as bs where "ls_tasks s = as @ tk # bs"
      by (meson split_list)
    ultimately show ?thesis
      using listener_step.deliver [of s as tk bs cc q E G]
      by (intro exI [of _ "tk_id tk"] exI [of _ "task_delivered as tk bs cc s"])
        (simp add: task_delivered_def set_task_def)
  qed
  ultimately show ?thesis
    by (auto simp: Accept_ready_def)
qed

theorem accept_ready_correct_witness:
  "\<exists>s. reach (listener_step id calm_env demo_G) initial_listener s \<and> length (Accept_ready s) = 2 \<and>
    Inl (Sentinel ErrListenerClosed) \<in> set (Accept_ready s)"
proof (rule demo_pending)
  fix s
  assume s: "lrun id calm_env demo_G initial_listener [AcceptOk True, Enqueue, Handshake 0, CloseCancel] = Some s"
    and "ls_cancelled s" and n: "length (Accept_ready s) = 2"
  then have "ls_close s \<noteq> CloseIdle"
    by (auto simp: lrun_defs)
  with accept_ready_correct [OF lrun_reach [OF s]] lrun_reach [OF s] n show ?thesis
    by blast
qed

end
