(* ===== verification/GoText.thy ===== *)
theory GoText
  imports GoStrings
begin

text \<open>
  Go's \<^verbatim>\<open>strings\<close> and \<^verbatim>\<open>strconv\<close> as the lab programs use them: decimal numbers and their parser,
  joining, splitting and trimming. A string is its bytes; the white space \<^verbatim>\<open>strings.TrimSpace\<close>
  removes is given by its UTF-8 encodings, so text outside ASCII is covered.
\<close>

section \<open>Decimal numbers\<close>

text \<open>The verb \<^verbatim>\<open>%d\<close>.\<close>

fun digits :: "nat \<Rightarrow> string" where
  "digits n = (if n < 10 then [char_of (48 + n)] else digits (n div 10) @ [char_of (48 + n mod 10)])"

declare digits.simps [simp del]

definition itoa :: "int \<Rightarrow> string" where
  "itoa i = (if i < 0 then CHR ''-'' # digits (nat (- i)) else digits (nat i))"

text \<open>\<^verbatim>\<open>strconv.Atoi\<close>: an optional sign, at least one digit, nothing else, and a value that fits in
  64 bits; \<open>None\<close> is the error.\<close>

definition is_digit :: "char \<Rightarrow> bool" where
  "is_digit c \<longleftrightarrow> 48 \<le> (of_char c :: nat) \<and> (of_char c :: nat) \<le> 57"

definition digits_value :: "string \<Rightarrow> int" where
  "digits_value s = foldl (\<lambda>v c. 10 * v + (of_char c - 48)) 0 s"

definition parse_digits :: "string \<Rightarrow> int option" where
  "parse_digits s = (if s \<noteq> [] \<and> list_all is_digit s then Some (digits_value s) else None)"

definition in_int64 :: "int \<Rightarrow> bool" where
  "in_int64 v \<longleftrightarrow> - (2 ^ 63) \<le> v \<and> v < 2 ^ 63"

definition strconv_Atoi :: "string \<Rightarrow> int option" where
  "strconv_Atoi s =
     (let v = (case s of
                 [] \<Rightarrow> None
               | c # r \<Rightarrow>
                   if c = CHR ''-'' then map_option uminus (parse_digits r)
                   else if c = CHR ''+'' then parse_digits r
                   else parse_digits s)
      in case v of None \<Rightarrow> None | Some i \<Rightarrow> (if in_int64 i then Some i else None))"

lemma of_char_digit: "k < 10 \<Longrightarrow> (of_char (char_of (48 + k) :: char) :: int) = 48 + int k"
  using of_nat_of_char [of "char_of (48 + k) :: char", where 'a = int] by simp

lemma digits_ok: "digits n \<noteq> [] \<and> list_all is_digit (digits n) \<and> digits_value (digits n) = int n"
proof (induction n rule: digits.induct)
  case (1 n)
  have lt: "n mod 10 < 10"
    by simp
  show ?case
  proof (cases "n < 10")
    case True
    then show ?thesis
      by (simp add: digits.simps [of n] is_digit_def digits_value_def of_char_digit)
  next
    case False
    have d: "digits n = digits (n div 10) @ [char_of (48 + n mod 10)]"
      using False by (simp add: digits.simps [of n])
    have "digits_value (digits n) = 10 * digits_value (digits (n div 10)) + int (n mod 10)"
      unfolding d using lt by (simp add: digits_value_def of_char_digit)
    also have "\<dots> = int n"
      using 1 [OF False] by presburger
    finally show ?thesis
      using 1 [OF False] lt by (simp add: d is_digit_def)
  qed
qed

lemma parse_digits_itoa: "parse_digits (digits n) = Some (int n)"
  using digits_ok [of n] by (simp add: parse_digits_def)

lemma Atoi_itoa: "in_int64 i \<Longrightarrow> strconv_Atoi (itoa i) = Some i"
proof -
  assume r: "in_int64 i"
  show ?thesis
  proof (cases "i < 0")
    case True
    then show ?thesis
      using r by (simp add: strconv_Atoi_def itoa_def parse_digits_itoa)
  next
    case False
    obtain c s where d: "digits (nat i) = c # s" "is_digit c"
      using digits_ok [of "nat i"] by (cases "digits (nat i)") auto
    then have "c \<noteq> CHR ''-''" "c \<noteq> CHR ''+''"
      by (auto simp: is_digit_def)
    then show ?thesis
      using False r d(1) parse_digits_itoa [of "nat i"] by (simp add: strconv_Atoi_def itoa_def)
  qed
qed

section \<open>Joining, splitting, trimming\<close>

fun strings_Join :: "string list \<Rightarrow> string \<Rightarrow> string" where
  "strings_Join [] sep = []"
| "strings_Join [s] sep = s"
| "strings_Join (s # ss) sep = s @ sep @ strings_Join ss sep"

text \<open>\<^verbatim>\<open>strings.Split(s, "c")\<close> for one byte \<open>c\<close>, and the first piece of \<^verbatim>\<open>strings.SplitN\<close>.\<close>

fun strings_Split :: "char \<Rightarrow> string \<Rightarrow> string list" where
  "strings_Split c [] = [[]]"
| "strings_Split c (x # s) =
     (if x = c then [] # strings_Split c s
      else (case strings_Split c s of p # ps \<Rightarrow> (x # p) # ps | [] \<Rightarrow> [[x]]))"

definition split_first :: "char \<Rightarrow> string \<Rightarrow> string" where
  "split_first c s = takeWhile (\<lambda>x. x \<noteq> c) s"

text \<open>\<^verbatim>\<open>strings.Trim(s, cutset)\<close>.\<close>

definition strings_Trim :: "string \<Rightarrow> string \<Rightarrow> string" where
  "strings_Trim s cutset = rev (dropWhile (\<lambda>x. x \<in> set cutset) (rev (dropWhile (\<lambda>x. x \<in> set cutset) s)))"

text \<open>
  \<^verbatim>\<open>strings.TrimSpace\<close>. The code points with the property White\_Space, encoded; no encoding is a
  prefix of another, and none ends inside another, so a space at either end is one of these byte
  sequences there.
\<close>

definition utf8_spaces :: "string list" where
  "utf8_spaces =
     [[CHR 0x09], [CHR 0x0A], [CHR 0x0B], [CHR 0x0C], [CHR 0x0D], [CHR 0x20],
      [CHR 0xC2, CHR 0x85], [CHR 0xC2, CHR 0xA0], [CHR 0xE1, CHR 0x9A, CHR 0x80],
      [CHR 0xE2, CHR 0x80, CHR 0x80], [CHR 0xE2, CHR 0x80, CHR 0x81], [CHR 0xE2, CHR 0x80, CHR 0x82],
      [CHR 0xE2, CHR 0x80, CHR 0x83], [CHR 0xE2, CHR 0x80, CHR 0x84], [CHR 0xE2, CHR 0x80, CHR 0x85],
      [CHR 0xE2, CHR 0x80, CHR 0x86], [CHR 0xE2, CHR 0x80, CHR 0x87], [CHR 0xE2, CHR 0x80, CHR 0x88],
      [CHR 0xE2, CHR 0x80, CHR 0x89], [CHR 0xE2, CHR 0x80, CHR 0x8A], [CHR 0xE2, CHR 0x80, CHR 0xA8],
      [CHR 0xE2, CHR 0x80, CHR 0xA9], [CHR 0xE2, CHR 0x80, CHR 0xAF], [CHR 0xE2, CHR 0x81, CHR 0x9F],
      [CHR 0xE3, CHR 0x80, CHR 0x80]]"

definition starts_with :: "string \<Rightarrow> string \<Rightarrow> bool" where
  "starts_with s p \<longleftrightarrow> p \<noteq> [] \<and> take (length p) s = p"

function drop_prefixes :: "string list \<Rightarrow> string \<Rightarrow> string" where
  "drop_prefixes ps s =
     (case find (starts_with s) ps of None \<Rightarrow> s | Some p \<Rightarrow> drop_prefixes ps (drop (length p) s))"
  by pat_completeness auto
termination
proof (relation "measure (\<lambda>(ps, s). length s)")
  fix ps s p
  assume "find (starts_with s) ps = Some p"
  then have "starts_with s p"
    by (auto simp: find_Some_iff)
  then show "((ps, drop (length p) s), (ps, s)) \<in> measure (\<lambda>(ps, s). length s)"
    by (cases s) (auto simp: starts_with_def)
qed simp

declare drop_prefixes.simps [simp del]

definition strings_TrimSpace :: "string \<Rightarrow> string" where
  "strings_TrimSpace s = rev (drop_prefixes (map rev utf8_spaces) (rev (drop_prefixes utf8_spaces s)))"

text \<open>A line written with a final newline is read back without it.\<close>

lemma find_cong_set: "(\<And>p. p \<in> set ps \<Longrightarrow> f p = g p) \<Longrightarrow> find f ps = find g ps"
  by (induction ps) auto

lemma utf8_spaces_newline:
  "p \<in> set utf8_spaces \<Longrightarrow> last p = CHR 0x0A \<Longrightarrow> p = [CHR 0x0A]"
  by (auto simp: utf8_spaces_def)

lemma starts_with_snoc:
  assumes "p \<in> set utf8_spaces" and "s \<noteq> []"
  shows "starts_with (s @ [CHR 0x0A]) p = starts_with s p"
proof (cases "length p \<le> length s")
  case True
  then show ?thesis
    by (simp add: starts_with_def)
next
  case False
  have "p = s @ [CHR 0x0A]" if "take (length p) (s @ [CHR 0x0A]) = p"
    using that False by simp
  then have "take (length p) (s @ [CHR 0x0A]) \<noteq> p"
    using utf8_spaces_newline [OF assms(1)] assms(2) by auto
  then show ?thesis
    using False by (auto simp: starts_with_def)
qed

lemma drop_prefixes_newline:
  "drop_prefixes utf8_spaces (s @ [CHR 0x0A]) =
    (if drop_prefixes utf8_spaces s = [] then [] else drop_prefixes utf8_spaces s @ [CHR 0x0A])"
proof (induction "length s" arbitrary: s rule: less_induct)
  case less
  show ?case
  proof (cases s)
    case Nil
    have "drop_prefixes utf8_spaces [CHR 0x0A] = []" "drop_prefixes utf8_spaces [] = []"
      by code_simp+
    then show ?thesis
      by (simp add: Nil)
  next
    case (Cons c t)
    have same: "find (starts_with (s @ [CHR 0x0A])) utf8_spaces = find (starts_with s) utf8_spaces"
      by (rule find_cong_set) (rule starts_with_snoc, assumption, simp add: Cons)
    have ne: "s \<noteq> []"
      by (simp add: Cons)
    show ?thesis
    proof (cases "find (starts_with s) utf8_spaces")
      case None
      then show ?thesis
        using same by (simp add: drop_prefixes.simps [of _ s] drop_prefixes.simps [of _ "s @ _"] ne)
    next
      case (Some p)
      then have p: "starts_with s p"
        by (auto simp: find_Some_iff)
      then have "length p \<le> length s" "p \<noteq> []"
        by (metis starts_with_def length_take min.absorb_iff2 min.commute, simp add: starts_with_def)
      moreover from this have "length (drop (length p) s) < length s"
        using ne by (cases p) auto
      ultimately show ?thesis
        using same Some less [of "drop (length p) s"]
        by (simp add: drop_prefixes.simps [of _ s] drop_prefixes.simps [of _ "s @ _"])
    qed
  qed
qed

lemma TrimSpace_newline: "strings_TrimSpace (s @ [CHR 0x0A]) = strings_TrimSpace s"
proof -
  have "find (starts_with (CHR 0x0A # r)) (map rev utf8_spaces) = Some [CHR 0x0A]" for r
    by (simp add: utf8_spaces_def starts_with_def)
  then have "drop_prefixes (map rev utf8_spaces) (CHR 0x0A # r) = drop_prefixes (map rev utf8_spaces) r" for r
    by (simp add: drop_prefixes.simps [of _ "CHR 0x0A # r"])
  then show ?thesis
    by (simp add: strings_TrimSpace_def drop_prefixes_newline)
qed

text \<open>Trimming keeps every byte that no white space contains, and changes nothing where there is no other.\<close>

definition space_bytes :: "char set" where
  "space_bytes = (\<Union>p \<in> set utf8_spaces. set p)"

lemma drop_prefixes_keeps:
  "c \<in> set s \<Longrightarrow> \<forall>p \<in> set ps. c \<notin> set p \<Longrightarrow> c \<in> set (drop_prefixes ps s)"
proof (induction ps s rule: drop_prefixes.induct)
  case (1 ps s)
  show ?case
  proof (cases "find (starts_with s) ps")
    case None
    then show ?thesis
      using "1.prems" by (simp add: drop_prefixes.simps [of ps s])
  next
    case (Some p)
    then have p: "p \<in> set ps" "take (length p) s = p"
      by (auto simp: find_Some_iff starts_with_def)
    have "set s = set (take (length p) s) \<union> set (drop (length p) s)"
      by (metis append_take_drop_id set_append)
    then have "c \<in> set (drop (length p) s)"
      using p "1.prems" by auto
    then show ?thesis
      using "1.IH" [OF Some] "1.prems"(2) Some by (simp add: drop_prefixes.simps [of ps s])
  qed
qed

lemma drop_prefixes_none: "\<forall>p \<in> set ps. set p \<inter> set s = {} \<Longrightarrow> drop_prefixes ps s = s"
proof -
  assume d: "\<forall>p \<in> set ps. set p \<inter> set s = {}"
  have "\<not> starts_with s p" if "p \<in> set ps" for p
  proof
    assume "starts_with s p"
    then have "p \<noteq> []" "set p \<subseteq> set s"
      unfolding starts_with_def by (simp, metis set_take_subset)
    with d that show False
      by (metis Int_absorb2 set_empty2)
  qed
  then have "find (starts_with s) ps = None"
    by (simp add: find_None_iff)
  then show ?thesis
    by (simp add: drop_prefixes.simps [of ps s])
qed

lemma TrimSpace_keeps: "c \<in> set s \<Longrightarrow> c \<notin> space_bytes \<Longrightarrow> c \<in> set (strings_TrimSpace s)"
  unfolding strings_TrimSpace_def space_bytes_def by (simp add: drop_prefixes_keeps)

lemma TrimSpace_none: "set s \<inter> space_bytes = {} \<Longrightarrow> strings_TrimSpace s = s"
proof -
  assume s: "set s \<inter> space_bytes = {}"
  then have "drop_prefixes utf8_spaces s = s"
    by (intro drop_prefixes_none) (auto simp: space_bytes_def)
  moreover have "drop_prefixes (map rev utf8_spaces) (rev s) = rev s"
    using s by (intro drop_prefixes_none) (auto simp: space_bytes_def)
  ultimately show ?thesis
    by (simp add: strings_TrimSpace_def)
qed

text \<open>Only the ends matter.\<close>

lemma drop_prefixes_head:
  assumes "s \<noteq> []" and "\<forall>p \<in> set ps. hd s \<notin> set p"
  shows "drop_prefixes ps s = s"
proof -
  have "\<not> starts_with s p" if "p \<in> set ps" for p
  proof
    assume "starts_with s p"
    then have "p \<noteq> []" "hd p = hd s"
      unfolding starts_with_def by (simp, metis hd_take length_greater_0_conv)
    then have "hd s \<in> set p"
      by (metis hd_in_set)
    with assms(2) that show False
      by blast
  qed
  then have "find (starts_with s) ps = None"
    by (simp add: find_None_iff)
  then show ?thesis
    by (simp add: drop_prefixes.simps [of ps s])
qed

lemma TrimSpace_ends:
  assumes "s \<noteq> []" and "hd s \<notin> space_bytes" and "last s \<notin> space_bytes"
  shows "strings_TrimSpace s = s"
proof -
  have "drop_prefixes utf8_spaces s = s"
    using assms by (intro drop_prefixes_head) (auto simp: space_bytes_def)
  moreover have "drop_prefixes (map rev utf8_spaces) (rev s) = rev s"
    using assms by (intro drop_prefixes_head) (auto simp: space_bytes_def hd_rev)
  ultimately show ?thesis
    by (simp add: strings_TrimSpace_def)
qed

lemma slash_not_space: "CHR ''/'' \<notin> space_bytes"
  by (simp add: space_bytes_def utf8_spaces_def)

lemma digit_not_space: "is_digit c \<Longrightarrow> c \<notin> space_bytes"
proof -
  have "list_all (\<lambda>p. list_all (\<lambda>c. \<not> is_digit c) p) utf8_spaces"
    by (simp add: utf8_spaces_def is_digit_def)
  then show "is_digit c \<Longrightarrow> c \<notin> space_bytes"
    by (auto simp: space_bytes_def list_all_iff)
qed

lemma TrimSpace_itoa: "strings_TrimSpace (itoa i) = itoa i"
proof (rule TrimSpace_none)
  have "c \<notin> space_bytes" if "c \<in> set (digits n)" for c n
    using that digits_ok [of n] digit_not_space by (auto simp: list_all_iff)
  moreover have "CHR ''-'' \<notin> space_bytes"
    by (simp add: space_bytes_def utf8_spaces_def)
  ultimately show "set (itoa i) \<inter> space_bytes = {}"
    by (auto simp: itoa_def)
qed

lemma itoa_not_Nil [simp]: "itoa i \<noteq> []"
  using digits_ok [of "nat i"] by (auto simp: itoa_def)

end
