(* ===== verification/DpiVerify.thy ===== *)
theory DpiVerify
  imports GoText "HOL-Library.Char_ord" "HOL-Library.List_Lexorder"
begin

text \<open>
  \<^verbatim>\<open>src/dpilab/verify.go\<close>: the verdict over the flows nDPI classified. A Go map is the list of its
  entries in the order one iteration meets them, with distinct keys. Reading the files (\<^verbatim>\<open>os.Open\<close>
  with \<^verbatim>\<open>bufio.Scanner\<close>, \<^verbatim>\<open>os.ReadFile\<close>) and decoding JSON are parameters; so are the verbs
  \<^verbatim>\<open>%q\<close> and \<^verbatim>\<open>%v\<close>. What is printed is the text in front of the result.
\<close>

section \<open>Maps and numbers\<close>

text \<open>Reading a string-valued map: an absent key gives the empty string.\<close>

definition go_lookup :: "(string \<times> string) list \<Rightarrow> string \<Rightarrow> string" where
  "go_lookup m k = (case map_of m k of None \<Rightarrow> [] | Some v \<Rightarrow> v)"

text \<open>Addition of Go's 64-bit signed integers.\<close>

definition add64 :: "int \<Rightarrow> int \<Rightarrow> int" where
  "add64 a b = (a + b + 2 ^ 63) mod 2 ^ 64 - 2 ^ 63"

section \<open>Flows\<close>

record flow_risk =
  fr_Risk :: string
  fr_Severity :: string

record 'any ndpi_flow =
  nf_SrcIP :: string
  nf_DstIP :: string
  nf_SrcPort :: int
  nf_DstPort :: int
  nf_L4 :: string
  nf_Src2DstBytes :: int
  nf_Dst2SrcBytes :: int
  nf_Src2DstSyn :: int
  nf_Proto :: string
  nf_ProtoID :: string
  nf_Category :: string
  nf_Breed :: string
  nf_Encrypted :: int
  nf_Hostname :: string
  nf_Confidence :: "(string \<times> string) list"
  nf_FlowRisk :: "(string \<times> flow_risk) list"
  nf_TLS :: "(string \<times> 'any) list"

section \<open>The tables\<close>

definition tellRisks :: "(string \<times> string) list" where
  "tellRisks =
    [(''56'', ''nDPI flagged the flow as obfuscated traffic''),
     (''15'', ''nDPI decided this TLS is not carrying HTTPS''),
     (''35'', ''payload entropy does not look like TLS records''),
     (''17'', ''malformed packets - the camouflage produced invalid TLS''),
     (''24'', ''no SNI: browsers always send one''),
     (''52'', ''ALPN does not match the SNI''),
     (''31'', ''uncommon TLS ALPN for a browser''),
     (''33'', ''suspicious TLS extension''),
     (''34'', ''TLS fatal alert - the handshake was rejected''),
     (''6'', ''self-signed certificate''),
     (''10'', ''certificate does not match the SNI''),
     (''32'', ''certificate validity too long for a public CA''),
     (''9'', ''certificate expired''),
     (''41'', ''certificate about to expire''),
     (''7'', ''obsolete TLS version''),
     (''8'', ''weak TLS cipher''),
     (''16'', ''SNI looks machine-generated (DGA)''),
     (''12'', ''numeric SNI''),
     (''28'', ''malicious fingerprint''),
     (''29'', ''malicious certificate fingerprint''),
     (''55'', ''nDPI flagged the flow as a probing attempt''),
     (''39'', ''non-printable characters where a protocol expects text'')]"

definition deploymentRisks :: "(string \<times> string) list" where
  "deploymentRisks =
    [(''5'', ''TLS on a non-standard port (relay port, not a transport artifact)''),
     (''51'', ''SNI does not resolve (the lab has no DNS)''),
     (''48'', ''periodic flow (the lab dials on a fixed interval)''),
     (''50'', ''TCP connection issues (teardown races the end of the capture)''),
     (''49'', ''minor issues''),
     (''46'', ''unidirectional traffic (flow cut off by the end of the capture)'')]"

definition browserLabels :: "string list" where
  "browserLabels = [''[Chrome]'', ''[Firefox]'', ''[Safari]'', ''[Microsoft Edge]'', ''[Edge]'', ''[Opera]'']"

section \<open>Reading a flow\<close>

definition onLabWire :: "'any ndpi_flow \<Rightarrow> string \<Rightarrow> string \<Rightarrow> int \<Rightarrow> bool" where
  "onLabWire f wireA wireB port =
     (if nf_L4 f \<noteq> ''TCP'' then False
      else if nf_SrcPort f \<noteq> port \<and> nf_DstPort f \<noteq> port then False
      else nf_SrcIP f = wireA \<and> nf_DstIP f = wireB \<or> nf_SrcIP f = wireB \<and> nf_DstIP f = wireA)"

definition masterProto :: "'any ndpi_flow \<Rightarrow> string" where
  "masterProto f = split_first (CHR ''.'') (nf_Proto f)"

definition confidenceOf :: "'any ndpi_flow \<Rightarrow> string" where
  "confidenceOf f =
     (if nf_Confidence f = [] then ''none''
      else strings_Join (sort (map snd (nf_Confidence f))) '','')"

definition risksOf :: "'any ndpi_flow \<Rightarrow> string" where
  "risksOf f =
     (if nf_FlowRisk f = [] then ''none''
      else strings_Join
        (map (\<lambda>i. i @ ''/'' @ (case map_of (nf_FlowRisk f) i of Some r \<Rightarrow> fr_Risk r | None \<Rightarrow> []))
          (sort (map fst (nf_FlowRisk f)))) '', '')"

definition nonEmpty :: "string \<Rightarrow> string" where
  "nonEmpty s = (if s = [] then ''(none)'' else s)"

definition tls_keys :: "string list" where
  "tls_keys = [''version'', ''negotiated_alpn'', ''advertised_alpns'', ''ja3s'', ''ja4'', ''cipher'', ''subjectDN'']"

definition tls_item :: "('any \<Rightarrow> string) \<Rightarrow> 'any ndpi_flow \<Rightarrow> string \<Rightarrow> string list" where
  "tls_item fmtv f k =
     (case map_of (nf_TLS f) k of
        None \<Rightarrow> []
      | Some v \<Rightarrow>
          (let s = fmtv v
           in if s = [] \<or> s = ''0'' then []
              else [k @ ''='' @ (if 60 < length s then take 57 s @ ''...'' else s)]))"

definition tlsSummary :: "('any \<Rightarrow> string) \<Rightarrow> 'any ndpi_flow \<Rightarrow> string" where
  "tlsSummary fmtv f =
     (let out = concat (map (tls_item fmtv f) tls_keys)
      in if out = [] then ''tls: (nothing extracted)'' else strings_Join out '' '')"

section \<open>The verdict\<close>

record 'any verdict =
  vd_flows :: "'any ndpi_flow list"
  vd_fails :: "string list"
  vd_notes :: "string list"

definition vd_check :: "bool \<Rightarrow> string \<Rightarrow> 'any verdict \<Rightarrow> 'any verdict" where
  "vd_check ok failure v = (if \<not> ok then v\<lparr>vd_fails := vd_fails v @ [failure]\<rparr> else v)"

definition vd_note :: "string \<Rightarrow> 'any verdict \<Rightarrow> 'any verdict" where
  "vd_note s v = v\<lparr>vd_notes := vd_notes v @ [s]\<rparr>"

text \<open>One entry of a flow's risk map, in the loop of \<^verbatim>\<open>runVerify\<close>.\<close>

definition judge_risk :: "(string \<Rightarrow> string) \<Rightarrow> string \<Rightarrow> string \<times> flow_risk \<Rightarrow> 'any verdict \<Rightarrow> 'any verdict" where
  "judge_risk q tag entry v =
     (case entry of (i, r) \<Rightarrow>
        if go_lookup tellRisks i \<noteq> [] then
          vd_check False (tag @ '': risk '' @ i @ '' '' @ q (fr_Risk r) @ '' - '' @ go_lookup tellRisks i) v
        else if go_lookup deploymentRisks i \<noteq> [] then
          vd_note (tag @ '': risk '' @ i @ '' '' @ q (fr_Risk r) @ '' allowed - '' @ go_lookup deploymentRisks i) v
        else vd_check False (tag @ '': untriaged risk '' @ i @ '' '' @ q (fr_Risk r)) v)"

definition flow_tag :: "nat \<Rightarrow> 'any ndpi_flow \<Rightarrow> string" where
  "flow_tag i f = ''flow '' @ itoa (int i + 1) @ '' ('' @ nf_SrcIP f @ '':'' @ itoa (nf_SrcPort f) @ '' -> '' @
     nf_DstIP f @ '':'' @ itoa (nf_DstPort f) @ '')''"

definition judge_flow :: "(string \<Rightarrow> string) \<Rightarrow> nat \<times> 'any ndpi_flow \<Rightarrow> 'any verdict \<Rightarrow> 'any verdict" where
  "judge_flow q entry v =
     (case entry of (i, f) \<Rightarrow>
       (let tag = flow_tag i f;
            v1 = vd_check (masterProto f = ''TLS'')
              (tag @ '': nDPI called it '' @ nonEmpty (nf_Proto f) @ '', browsing is TLS'') v;
            v2 = vd_check (strings_Contains (confidenceOf f) ''DPI'')
              (tag @ '': classified as '' @ nf_Proto f @ '' by '' @ confidenceOf f @ '', not by DPI'') v1
        in fold (judge_risk q tag) (nf_FlowRisk f) v2))"

definition count_syns :: "'any ndpi_flow list \<Rightarrow> int" where
  "count_syns fs = foldl (\<lambda>n f. add64 n (nf_Src2DstSyn f)) 0 fs"

text \<open>The printed lines.\<close>

definition flow_lines :: "('any \<Rightarrow> string) \<Rightarrow> (string \<Rightarrow> string) \<Rightarrow> nat \<times> 'any ndpi_flow \<Rightarrow> string" where
  "flow_lines fmtv q entry =
     (case entry of (i, f) \<Rightarrow>
        ''  flow '' @ itoa (int i + 1) @ ''  '' @ nf_SrcIP f @ '':'' @ itoa (nf_SrcPort f) @ '' -> '' @ nf_DstIP f @ '':'' @
        itoa (nf_DstPort f) @ ''  '' @ nf_L4 f @ ''  proto='' @ nonEmpty (nf_Proto f) @ '' confidence='' @ confidenceOf f @
        '' category='' @ nonEmpty (nf_Category f) @ [CHR 0x0A] @
        ''            bytes='' @ itoa (nf_Src2DstBytes f) @ ''/'' @ itoa (nf_Dst2SrcBytes f) @ '' syns='' @
        itoa (nf_Src2DstSyn f) @ '' sni='' @ q (nf_Hostname f) @ '' '' @ tlsSummary fmtv f @ [CHR 0x0A] @
        ''            risks: '' @ risksOf f @ [CHR 0x0A])"

definition list_lines :: "string \<Rightarrow> string list \<Rightarrow> string" where
  "list_lines header items =
     (if items = [] then []
      else [CHR 0x0A] @ header @ [CHR 0x0A] @ concat (map (\<lambda>n. ''  - '' @ n @ [CHR 0x0A]) items))"

definition report :: "(string \<Rightarrow> string) \<Rightarrow> string \<Rightarrow> 'any verdict \<Rightarrow> string \<times> goerror option" where
  "report q expect v =
     (let fails = sort (vd_fails v);
          out = list_lines ''allowed (deployment, not camouflage):'' (vd_notes v) @
            list_lines ''distinguishers found:'' fails
      in if expect = ''browsing'' then
           (if 0 < length fails
            then (out, Some (External (''VERDICT: DISTINGUISHABLE - '' @ itoa (int (length fails)) @ '' finding(s)'')))
            else (out @ [CHR 0x0A] @ ''VERDICT: INDISTINGUISHABLE FROM BROWSING - '' @ itoa (int (length (vd_flows v))) @
              '' flows classified as TLS by DPI, no telltale risks'' @ [CHR 0x0A], None))
         else if expect = ''not-browsing'' then
           (if length fails = 0
            then (out, Some (External (''VERDICT: control arm also looks like browsing - the checks cannot tell camouflaged '' @
              ''traffic from plain libp2p, so a green camouflage arm proves nothing'')))
            else (out @ [CHR 0x0A] @ ''VERDICT: CONTROL ARM IS DISTINGUISHABLE as expected - '' @
              itoa (int (length fails)) @ '' finding(s), the checks do bite'' @ [CHR 0x0A], None))
         else (out, Some (External (''unknown -expect '' @ q expect))))"

text \<open>\<open>body\<close> is the result of \<^verbatim>\<open>os.ReadFile\<close>.\<close>

fun label_in_line :: "string \<Rightarrow> string list \<Rightarrow> string option" where
  "label_in_line line [] = None"
| "label_in_line line (label # labels) =
     (if strings_Contains line label then Some (strings_Trim label ''[]'') else label_in_line line labels)"

fun label_in_lines :: "string \<Rightarrow> string \<Rightarrow> string list \<Rightarrow> string" where
  "label_in_lines wireA wireB [] = []"
| "label_in_lines wireA wireB (line # lines) =
     (if \<not> strings_Contains line wireA \<or> \<not> strings_Contains line wireB then label_in_lines wireA wireB lines
      else (case label_in_line line browserLabels of
              Some l \<Rightarrow> l
            | None \<Rightarrow> label_in_lines wireA wireB lines))"

definition browserLabel :: "goerror + string \<Rightarrow> string \<Rightarrow> string \<Rightarrow> goerror + string" where
  "browserLabel body wireA wireB =
     (case body of
        Inl err \<Rightarrow> Inl err
      | Inr text \<Rightarrow> Inr (label_in_lines wireA wireB (strings_Split (CHR 0x0A) text)))"

text \<open>
  \<open>scan\<close> is \<^verbatim>\<open>os.Open\<close> and \<^verbatim>\<open>bufio.Scanner\<close>: an error, or the lines and the scanner's final error;
  \<open>decode\<close> is \<^verbatim>\<open>json.Unmarshal\<close>.
\<close>

fun decode_lines :: "(string \<Rightarrow> goerror + 'any ndpi_flow) \<Rightarrow> string \<Rightarrow> string list \<Rightarrow>
    goerror option \<Rightarrow> 'any ndpi_flow list \<Rightarrow> 'any ndpi_flow list \<times> goerror option" where
  "decode_lines decode path [] scanErr flows = (flows, scanErr)"
| "decode_lines decode path (text # lines) scanErr flows =
     (let line = strings_TrimSpace text
      in if line = [] then decode_lines decode path lines scanErr flows
         else (case decode line of
                 Inl err \<Rightarrow> ([], Some (Errorf (path @ '': '') err))
               | Inr fl \<Rightarrow> decode_lines decode path lines scanErr (flows @ [fl])))"

definition loadFlows :: "(string \<Rightarrow> goerror + 'any ndpi_flow) \<Rightarrow>
    (string \<Rightarrow> goerror + string list \<times> goerror option) \<Rightarrow> string \<Rightarrow> 'any ndpi_flow list \<times> goerror option" where
  "loadFlows decode scan path =
     (case scan path of
        Inl err \<Rightarrow> ([], Some err)
      | Inr (lines, scanErr) \<Rightarrow> decode_lines decode path lines scanErr [])"

text \<open>The findings of \<^verbatim>\<open>runVerify\<close> on the loaded flows, before the client fingerprint is looked at.\<close>

definition judge_flows :: "(string \<Rightarrow> string) \<Rightarrow> int \<Rightarrow> int \<Rightarrow> 'any ndpi_flow list \<Rightarrow> 'any verdict" where
  "judge_flows q minFlows minHandshakes fs =
     (let v = \<lparr>vd_flows = fs, vd_fails = [], vd_notes = []\<rparr>;
          v1 = vd_check (minFlows \<le> int (length fs))
            (''expected at least '' @ itoa minFlows @ '' lab flows in the capture, got '' @ itoa (int (length fs))) v;
          handshakes = count_syns fs;
          v2 = vd_check (minHandshakes \<le> handshakes)
            (''expected at least '' @ itoa minHandshakes @ '' handshakes on the lab wire, counted '' @
             itoa handshakes @ '' SYNs'') v1
      in fold (judge_flow q) (List.enumerate 0 fs) v2)"

definition runVerify :: "(string \<Rightarrow> string) \<Rightarrow> ('any \<Rightarrow> string) \<Rightarrow> 'any ndpi_flow list \<times> goerror option \<Rightarrow>
    goerror + string \<Rightarrow> string \<Rightarrow> string \<Rightarrow> string \<Rightarrow> string \<Rightarrow> int \<Rightarrow> int \<Rightarrow> int \<Rightarrow> string \<Rightarrow> string \<times> goerror option" where
  "runVerify q fmtv loaded logBody path ndpiLog wireA wireB port minFlows minHandshakes expect =
     (case loaded of
        (_, Some err) \<Rightarrow> ([], Some err)
      | (flows, None) \<Rightarrow>
          (let fs = filter (\<lambda>f. onLabWire f wireA wireB port) flows;
               out = [CHR 0x0A] @ itoa (int (length fs)) @ '' of '' @ itoa (int (length flows)) @ '' flows in '' @ path @
                 '' are lab traffic ('' @ wireA @ '' <-> '' @ wireB @ '' port '' @ itoa port @ '')'' @ [CHR 0x0A] @
                 concat (map (flow_lines fmtv q) (List.enumerate 0 fs));
               v = judge_flows q minFlows minHandshakes fs
           in if ndpiLog = [] then
                (case report q expect v of (tail, r) \<Rightarrow> (out @ tail, r))
              else
                (case browserLabel logBody wireA wireB of
                   Inl err \<Rightarrow> (out, Some err)
                 | Inr label \<Rightarrow>
                     (let v' = vd_check (label \<noteq> [])
                            (''nDPI'' @ [CHR 0x27] @ ''s fingerprint database did not recognise the TLS client as a browser'') v;
                          out' = (if label \<noteq> []
                            then out @ [CHR 0x0A] @ ''nDPI identified the client as '' @ label @ '' from its TLS fingerprint'' @ [CHR 0x0A]
                            else out)
                      in (case report q expect v' of (tail, r) \<Rightarrow> (out' @ tail, r))))))"

end
