(* ===== verification/DpiClaims.thy ===== *)
theory DpiClaims
  imports DpiVerify "HOL-Library.Multiset"
begin

text \<open>
  The properties of the lab's verdict (\<^verbatim>\<open>src/dpilab/verify.go\<close>): what exactly a green arm certifies,
  that the two arms are complementary, and that the verdict does not depend on the order in which Go
  iterates over the maps of a flow.
\<close>

section \<open>Findings are appended\<close>

text \<open>What one risk, one flow and the totals contribute, independent of what was found before.\<close>

definition blank :: "'any verdict" where
  "blank = \<lparr>vd_flows = [], vd_fails = [], vd_notes = []\<rparr>"

definition risk_fails :: "(string \<Rightarrow> string) \<Rightarrow> string \<Rightarrow> string \<times> flow_risk \<Rightarrow> string list" where
  "risk_fails q tag e = vd_fails (judge_risk q tag e (blank :: unit verdict))"

definition flow_fails :: "(string \<Rightarrow> string) \<Rightarrow> nat \<times> 'any ndpi_flow \<Rightarrow> string list" where
  "flow_fails q e = vd_fails (judge_flow q e blank)"

definition risk_notes :: "(string \<Rightarrow> string) \<Rightarrow> string \<Rightarrow> string \<times> flow_risk \<Rightarrow> string list" where
  "risk_notes q tag e = vd_notes (judge_risk q tag e (blank :: unit verdict))"

definition flow_notes :: "(string \<Rightarrow> string) \<Rightarrow> nat \<times> 'any ndpi_flow \<Rightarrow> string list" where
  "flow_notes q e = vd_notes (judge_flow q e blank)"

lemma vd_check_simps [simp]:
  "vd_fails (vd_check ok s v) = vd_fails v @ (if ok then [] else [s])"
  "vd_notes (vd_check ok s v) = vd_notes v" "vd_flows (vd_check ok s v) = vd_flows v"
  by (simp_all add: vd_check_def)

lemma vd_note_simps [simp]:
  "vd_fails (vd_note s v) = vd_fails v" "vd_notes (vd_note s v) = vd_notes v @ [s]"
  "vd_flows (vd_note s v) = vd_flows v"
  by (simp_all add: vd_note_def)

lemma blank_simps [simp]: "vd_fails blank = []" "vd_notes blank = []" "vd_flows blank = []"
  by (simp_all add: blank_def)

lemma judge_risk_appends:
  "vd_fails (judge_risk q tag e v) = vd_fails v @ risk_fails q tag e"
  "vd_notes (judge_risk q tag e v) = vd_notes v @ risk_notes q tag e"
  "vd_flows (judge_risk q tag e v) = vd_flows v"
  by (simp_all add: judge_risk_def risk_fails_def risk_notes_def split: prod.split)

lemma fold_appends:
  assumes "\<And>x v. vd_fails (g x v) = vd_fails v @ a x" and "\<And>x v. vd_notes (g x v) = vd_notes v @ b x"
    and "\<And>x v. vd_flows (g x v) = vd_flows v"
  shows "vd_fails (fold g xs v) = vd_fails v @ concat (map a xs)"
    and "vd_notes (fold g xs v) = vd_notes v @ concat (map b xs)"
    and "vd_flows (fold g xs v) = vd_flows v"
  by (induction xs arbitrary: v) (simp_all add: assms)

lemmas fold_risks = fold_appends [OF judge_risk_appends]

lemma judge_flow_appends:
  "vd_fails (judge_flow q e v) = vd_fails v @ flow_fails q e"
  "vd_notes (judge_flow q e v) = vd_notes v @ flow_notes q e"
  "vd_flows (judge_flow q e v) = vd_flows v"
  by (simp_all add: judge_flow_def flow_fails_def flow_notes_def Let_def fold_risks split: prod.split)

lemmas fold_flows = fold_appends [OF judge_flow_appends]

lemma judge_flows_parts:
  "vd_flows (judge_flows q n k fs) = fs"
  "vd_notes (judge_flows q n k fs) = concat (map (flow_notes q) (List.enumerate 0 fs))"
  "vd_fails (judge_flows q n k fs) = [] \<longleftrightarrow> n \<le> int (length fs) \<and> k \<le> count_syns fs \<and>
     (\<forall>e \<in> set (List.enumerate 0 fs). flow_fails q e = [])"
  by (simp_all add: judge_flows_def Let_def fold_flows)

section \<open>When a flow is clean\<close>

definition allowed_risks :: "string set" where
  "allowed_risks = {''5'', ''51'', ''48'', ''50'', ''49'', ''46''}"

definition flow_ok :: "'any ndpi_flow \<Rightarrow> bool" where
  "flow_ok f \<longleftrightarrow> masterProto f = ''TLS'' \<and> strings_Contains (confidenceOf f) ''DPI'' \<and>
     fst ` set (nf_FlowRisk f) \<subseteq> allowed_risks"

lemma go_lookup_present: "\<forall>e \<in> set m. snd e \<noteq> [] \<Longrightarrow> go_lookup m i \<noteq> [] \<longleftrightarrow> i \<in> fst ` set m"
  by (force simp: go_lookup_def map_of_eq_None_iff dest: map_of_SomeD split: option.split)

lemma risk_triage:
  "risk_fails q tag e = [] \<longleftrightarrow> fst e \<in> allowed_risks"
  "length (risk_fails q tag e) + length (risk_notes q tag e) = 1"
proof -
  have "list_all (\<lambda>i. go_lookup tellRisks i = []) (map fst deploymentRisks)"
    by code_simp
  then have tell: "i \<in> allowed_risks \<Longrightarrow> go_lookup tellRisks i = []" for i
    by (simp add: allowed_risks_def deploymentRisks_def) blast
  have "\<forall>e \<in> set deploymentRisks. snd e \<noteq> []" and "fst ` set deploymentRisks = allowed_risks"
    by (simp_all add: deploymentRisks_def allowed_risks_def)
  then have dep: "go_lookup deploymentRisks i \<noteq> [] \<longleftrightarrow> i \<in> allowed_risks" for i
    using go_lookup_present by metis
  show "risk_fails q tag e = [] \<longleftrightarrow> fst e \<in> allowed_risks"
    using tell dep by (auto simp: risk_fails_def judge_risk_def split: prod.split)
  show "length (risk_fails q tag e) + length (risk_notes q tag e) = 1"
    by (simp add: risk_fails_def risk_notes_def judge_risk_def split: prod.split)
qed

lemma flow_fails_Nil_iff: "flow_fails q (i, f) = [] \<longleftrightarrow> flow_ok f"
  by (auto simp: flow_fails_def judge_flow_def Let_def fold_risks flow_ok_def risk_triage)

lemma judge_flows_clean:
  "vd_fails (judge_flows q n k fs) = [] \<longleftrightarrow>
     n \<le> int (length fs) \<and> k \<le> count_syns fs \<and> (\<forall>f \<in> set fs. flow_ok f)"
proof -
  have "(\<forall>e \<in> set (List.enumerate 0 fs). flow_fails q e = []) \<longleftrightarrow> (\<forall>f \<in> snd ` set (List.enumerate 0 fs). flow_ok f)"
    by (auto simp: flow_fails_Nil_iff)
  also have "snd ` set (List.enumerate 0 fs) = set fs"
    by (metis list.set_map map_snd_enumerate)
  finally show ?thesis
    by (simp add: judge_flows_parts(3))
qed

section \<open>The client fingerprint\<close>

definition recognised :: "string \<Rightarrow> string \<Rightarrow> string \<Rightarrow> bool" where
  "recognised body wireA wireB \<longleftrightarrow>
     (\<exists>line \<in> set (strings_Split (CHR 0x0A) body). strings_Contains line wireA \<and> strings_Contains line wireB \<and>
        (\<exists>label \<in> set browserLabels. strings_Contains line label))"

lemma label_in_line_None: "label_in_line line ls = None \<longleftrightarrow> (\<forall>l \<in> set ls. \<not> strings_Contains line l)"
  by (induction ls) auto

lemma label_in_line_Some: "label_in_line line ls = Some x \<Longrightarrow> \<exists>l \<in> set ls. x = strings_Trim l ''[]''"
  by (induction ls) (auto split: if_splits)

lemma browserLabels_trim: "l \<in> set browserLabels \<Longrightarrow> strings_Trim l ''[]'' \<noteq> []"
proof -
  have "list_all (\<lambda>l. strings_Trim l ''[]'' \<noteq> []) browserLabels"
    by code_simp
  then show "l \<in> set browserLabels \<Longrightarrow> strings_Trim l ''[]'' \<noteq> []"
    by (simp add: list_all_iff)
qed

lemma label_in_lines_iff:
  "label_in_lines wireA wireB ls \<noteq> [] \<longleftrightarrow>
     (\<exists>line \<in> set ls. strings_Contains line wireA \<and> strings_Contains line wireB \<and>
        (\<exists>label \<in> set browserLabels. strings_Contains line label))"
proof (induction ls)
  case (Cons line ls)
  show ?case
  proof (cases "label_in_line line browserLabels")
    case None
    then show ?thesis
      using Cons label_in_line_None [of line browserLabels] by simp
  next
    case (Some x)
    then have "x \<noteq> []" "\<exists>label \<in> set browserLabels. strings_Contains line label"
      using label_in_line_Some [OF Some] browserLabels_trim label_in_line_None [of line browserLabels] by auto
    then show ?thesis
      using Cons Some by (cases "strings_Contains line wireA \<and> strings_Contains line wireB") auto
  qed
qed simp

section \<open>The exit status\<close>

text \<open>All findings of a run on flows that loaded, with a readable log or none.\<close>

definition findings :: "(string \<Rightarrow> string) \<Rightarrow> 'any ndpi_flow list \<Rightarrow> string \<Rightarrow> string \<Rightarrow> string \<Rightarrow> string \<Rightarrow> int \<Rightarrow>
    int \<Rightarrow> int \<Rightarrow> 'any verdict" where
  "findings q flows body ndpiLog wireA wireB port minFlows minHandshakes =
     (let v = judge_flows q minFlows minHandshakes (filter (\<lambda>f. onLabWire f wireA wireB port) flows)
      in if ndpiLog = [] then v
         else vd_check (label_in_lines wireA wireB (strings_Split (CHR 0x0A) body) \<noteq> [])
           (''nDPI'' @ [CHR 0x27] @ ''s fingerprint database did not recognise the TLS client as a browser'') v)"

lemma sort_Nil_iff [simp]: "sort xs = [] \<longleftrightarrow> xs = []"
  by (metis length_0_conv length_sort)

lemma report_result:
  "snd (report q ''browsing'' v) = None \<longleftrightarrow> vd_fails v = []"
  "snd (report q ''not-browsing'' v) = None \<longleftrightarrow> vd_fails v \<noteq> []"
  by (simp_all add: report_def Let_def)

lemma runVerify_result:
  assumes "ndpiLog \<noteq> [] \<Longrightarrow> logBody = Inr body"
  shows "snd (runVerify q fmtv (flows, None) logBody path ndpiLog wireA wireB port minFlows minHandshakes expect) =
    snd (report q expect (findings q flows body ndpiLog wireA wireB port minFlows minHandshakes))"
  using assms
  by (simp add: runVerify_def findings_def browserLabel_def Let_def split: prod.split)

lemma findings_clean:
  "vd_fails (findings q flows body ndpiLog wireA wireB port minFlows minHandshakes) = [] \<longleftrightarrow>
     (let fs = filter (\<lambda>f. onLabWire f wireA wireB port) flows
      in minFlows \<le> int (length fs) \<and> minHandshakes \<le> count_syns fs \<and> (\<forall>f \<in> set fs. flow_ok f) \<and>
         (ndpiLog \<noteq> [] \<longrightarrow> recognised body wireA wireB))"
  using label_in_lines_iff [of wireA wireB "strings_Split (CHR 0x0A) body"]
  by (simp add: findings_def Let_def judge_flows_clean recognised_def)

text \<open>The counter of handshakes is exact while the sum fits in a signed 64-bit integer.\<close>

lemma add64_exact: "- (2 ^ 63) \<le> a + b \<Longrightarrow> a + b < 2 ^ 63 \<Longrightarrow> add64 a b = a + b"
  by (simp add: add64_def)

lemma count_syns_exact:
  assumes "\<forall>f \<in> set fs. 0 \<le> nf_Src2DstSyn f" and "sum_list (map nf_Src2DstSyn fs) < 2 ^ 63"
  shows "count_syns fs = sum_list (map nf_Src2DstSyn fs)"
proof -
  have "foldl (\<lambda>n f. add64 n (nf_Src2DstSyn f)) a fs = a + sum_list (map nf_Src2DstSyn fs)"
    if "0 \<le> a" "a + sum_list (map nf_Src2DstSyn fs) < 2 ^ 63" "\<forall>f \<in> set fs. 0 \<le> nf_Src2DstSyn f" for a
    using that
  proof (induction fs arbitrary: a)
    case (Cons f fs)
    have "0 \<le> sum_list (map nf_Src2DstSyn fs)"
      using Cons.prems(3) by (intro sum_list_nonneg) auto
    then have "add64 a (nf_Src2DstSyn f) = a + nf_Src2DstSyn f"
      using Cons.prems by (intro add64_exact) auto
    then show ?case
      using Cons by simp
  qed simp
  from this [of 0] assms show ?thesis
    by (simp add: count_syns_def)
qed

section \<open>The order of map iteration\<close>

text \<open>The same flow with its maps met in other orders.\<close>

definition map_perm :: "(string \<times> 'v) list \<Rightarrow> (string \<times> 'v) list \<Rightarrow> bool" where
  "map_perm m m' \<longleftrightarrow> distinct (map fst m) \<and> mset m' = mset m"

definition same_flow :: "'any ndpi_flow \<Rightarrow> 'any ndpi_flow \<Rightarrow> bool" where
  "same_flow f f' \<longleftrightarrow>
     f' = f\<lparr>nf_Confidence := nf_Confidence f', nf_FlowRisk := nf_FlowRisk f', nf_TLS := nf_TLS f'\<rparr> \<and>
     map_perm (nf_Confidence f) (nf_Confidence f') \<and> map_perm (nf_FlowRisk f) (nf_FlowRisk f') \<and>
     map_perm (nf_TLS f) (nf_TLS f')"

lemma mset_concat_map: "mset (concat (map g xs)) = (\<Sum>x \<in># mset xs. mset (g x))"
  by (induction xs) simp_all

lemma mset_concat_perm: "mset xs' = mset xs \<Longrightarrow> mset (concat (map g xs')) = mset (concat (map g xs))"
  by (simp add: mset_concat_map)

lemma sort_perm: "mset xs' = mset xs \<Longrightarrow> sort xs' = sort (xs :: string list)"
  by (rule properties_for_sort) simp_all

lemma same_flow_fields:
  assumes "same_flow f f'"
  shows "nf_SrcIP f' = nf_SrcIP f" "nf_DstIP f' = nf_DstIP f" "nf_SrcPort f' = nf_SrcPort f"
    "nf_DstPort f' = nf_DstPort f" "nf_L4 f' = nf_L4 f" "nf_Src2DstSyn f' = nf_Src2DstSyn f"
    "nf_Proto f' = nf_Proto f" "nf_Category f' = nf_Category f" "nf_Hostname f' = nf_Hostname f"
    "nf_Src2DstBytes f' = nf_Src2DstBytes f" "nf_Dst2SrcBytes f' = nf_Dst2SrcBytes f"
proof -
  from assms obtain c r t where f': "f' = f\<lparr>nf_Confidence := c, nf_FlowRisk := r, nf_TLS := t\<rparr>"
    unfolding same_flow_def by blast
  show "nf_SrcIP f' = nf_SrcIP f" "nf_DstIP f' = nf_DstIP f" "nf_SrcPort f' = nf_SrcPort f"
    "nf_DstPort f' = nf_DstPort f" "nf_L4 f' = nf_L4 f" "nf_Src2DstSyn f' = nf_Src2DstSyn f"
    "nf_Proto f' = nf_Proto f" "nf_Category f' = nf_Category f" "nf_Hostname f' = nf_Hostname f"
    "nf_Src2DstBytes f' = nf_Src2DstBytes f" "nf_Dst2SrcBytes f' = nf_Dst2SrcBytes f"
    unfolding f' by simp_all
qed

lemma same_flow_confidence: "same_flow f f' \<Longrightarrow> confidenceOf f' = confidenceOf f"
proof -
  assume "same_flow f f'"
  then have c: "mset (nf_Confidence f') = mset (nf_Confidence f)"
    by (simp add: same_flow_def map_perm_def)
  then have "sort (map snd (nf_Confidence f')) = sort (map snd (nf_Confidence f))"
    by (intro sort_perm) simp
  moreover have "nf_Confidence f' = [] \<longleftrightarrow> nf_Confidence f = []"
    using c by (metis mset_zero_iff)
  ultimately show ?thesis
    by (simp add: confidenceOf_def)
qed

text \<open>The printed lines of a flow go through its maps in a fixed order.\<close>

lemma map_perm_simps:
  assumes "map_perm m m'"
  shows "map_of m' = map_of m" and "m' = [] \<longleftrightarrow> m = []" and "sort (map fst m') = sort (map fst m)"
proof -
  have m: "distinct (map fst m)" "mset m' = mset m"
    using assms by (simp_all add: map_perm_def)
  have keys: "mset (map fst m') = mset (map fst m)"
    using m(2) by simp
  then show "sort (map fst m') = sort (map fst m)"
    by (rule sort_perm)
  have d': "distinct (map fst m')"
    using mset_eq_imp_distinct_iff [OF keys] m(1) by blast
  have "set m' = set m"
    using m(2) by (rule mset_eq_setD)
  then have "map_of m' k = Some v \<longleftrightarrow> map_of m k = Some v" for k v
    using map_of_eq_Some_iff [OF d'] map_of_eq_Some_iff [OF m(1)] by blast
  then show "map_of m' = map_of m"
    by (intro ext) (metis not_Some_eq)
  show "m' = [] \<longleftrightarrow> m = []"
    using m(2) by (metis mset_zero_iff)
qed

lemma same_flow_lines:
  assumes "same_flow f f'"
  shows "flow_lines fmtv q (i, f') = flow_lines fmtv q (i, f)"
proof -
  have r: "map_perm (nf_FlowRisk f) (nf_FlowRisk f')" and t: "map_perm (nf_TLS f) (nf_TLS f')"
    using assms by (simp_all add: same_flow_def)
  have "risksOf f' = risksOf f"
    unfolding risksOf_def map_perm_simps [OF r] by (rule refl)
  moreover have "tls_item fmtv f' = tls_item fmtv f"
    unfolding tls_item_def map_perm_simps(1) [OF t] by (rule refl)
  ultimately show ?thesis
    using same_flow_fields [OF assms] same_flow_confidence [OF assms] by (simp add: flow_lines_def tlsSummary_def)
qed

lemma same_flows_lines:
  "list_all2 same_flow fs fs' \<Longrightarrow>
    map (flow_lines fmtv q) (List.enumerate n fs') = map (flow_lines fmtv q) (List.enumerate n fs)"
  by (induction arbitrary: n rule: list_all2_induct) (simp_all add: same_flow_lines)

lemma same_flow_tag: "same_flow f f' \<Longrightarrow> flow_tag i f' = flow_tag i f"
  by (simp add: flow_tag_def same_flow_fields)

lemma same_flow_judged:
  assumes "same_flow f f'"
  shows "mset (flow_fails q (i, f')) = mset (flow_fails q (i, f))"
    and "mset (flow_notes q (i, f')) = mset (flow_notes q (i, f))"
proof -
  have r: "mset (nf_FlowRisk f') = mset (nf_FlowRisk f)"
    using assms by (simp add: same_flow_def map_perm_def)
  note same = same_flow_fields [OF assms] same_flow_confidence [OF assms] same_flow_tag [OF assms]
  show "mset (flow_fails q (i, f')) = mset (flow_fails q (i, f))"
    using mset_concat_perm [OF r]
    by (simp add: flow_fails_def judge_flow_def Let_def fold_risks masterProto_def same)
  show "mset (flow_notes q (i, f')) = mset (flow_notes q (i, f))"
    using mset_concat_perm [OF r]
    by (simp add: flow_notes_def judge_flow_def Let_def fold_risks masterProto_def same)
qed

lemma same_flows_judged:
  assumes "list_all2 same_flow fs fs'"
  shows "mset (concat (map (flow_fails q) (List.enumerate n fs'))) = mset (concat (map (flow_fails q) (List.enumerate n fs)))"
    and "mset (concat (map (flow_notes q) (List.enumerate n fs'))) = mset (concat (map (flow_notes q) (List.enumerate n fs)))"
    and "foldl (\<lambda>n f. add64 n (nf_Src2DstSyn f)) k fs' = foldl (\<lambda>n f. add64 n (nf_Src2DstSyn f)) k fs"
  using assms
  by (induction arbitrary: n k rule: list_all2_induct) (simp_all add: same_flow_judged same_flow_fields(6))

lemma same_flows_filtered:
  "list_all2 same_flow fs fs' \<Longrightarrow>
    list_all2 same_flow (filter (\<lambda>f. onLabWire f a b p) fs) (filter (\<lambda>f. onLabWire f a b p) fs')"
  by (induction rule: list_all2_induct) (simp_all add: onLabWire_def same_flow_fields)

lemma same_findings:
  assumes "list_all2 same_flow flows flows'" and v_def: "v = findings q flows body ndpiLog a b p n k"
    and v'_def: "v' = findings q flows' body ndpiLog a b p n k"
  shows "mset (vd_fails v') = mset (vd_fails v)" and "mset (vd_notes v') = mset (vd_notes v)"
    and "length (vd_flows v') = length (vd_flows v)"
proof -
  note filtered = same_flows_filtered [OF assms(1), of a b p]
  note same = same_flows_judged [OF filtered] list_all2_lengthD [OF filtered]
  show "mset (vd_fails v') = mset (vd_fails v)"
    using same(1) [of q 0]
    by (simp add: v_def v'_def findings_def judge_flows_def Let_def fold_flows count_syns_def same(3,4))
  show "mset (vd_notes v') = mset (vd_notes v)"
    using same(2) [of q 0] by (simp add: v_def v'_def findings_def judge_flows_parts Let_def)
  show "length (vd_flows v') = length (vd_flows v)"
    using same(4) by (simp add: v_def v'_def findings_def judge_flows_parts Let_def)
qed

lemma report_same:
  assumes "mset (vd_fails v') = mset (vd_fails v)"
  shows "snd (report q expect v') = snd (report q expect v)"
proof -
  have "length (vd_fails v') = length (vd_fails v)"
    using assms by (metis size_mset)
  moreover have "vd_fails v' = [] \<longleftrightarrow> vd_fails v = []"
    using assms by (metis mset_zero_iff)
  ultimately show ?thesis
    by (simp add: report_def Let_def)
qed

lemma report_output:
  assumes "mset (vd_fails v') = mset (vd_fails v)" and "length (vd_flows v') = length (vd_flows v)"
  shows "\<exists>post. fst (report q expect v) = list_lines ''allowed (deployment, not camouflage):'' (vd_notes v) @
      list_lines ''distinguishers found:'' (sort (vd_fails v)) @ post \<and>
    fst (report q expect v') = list_lines ''allowed (deployment, not camouflage):'' (vd_notes v') @
      list_lines ''distinguishers found:'' (sort (vd_fails v)) @ post"
  by (auto simp: report_def Let_def sort_perm [OF assms(1)] assms(2))

text \<open>What is printed in front of the report.\<close>

definition verdict_head :: "(string \<Rightarrow> string) \<Rightarrow> ('any \<Rightarrow> string) \<Rightarrow> 'any ndpi_flow list \<Rightarrow> string \<Rightarrow> string \<Rightarrow> string \<Rightarrow>
    string \<Rightarrow> string \<Rightarrow> int \<Rightarrow> string" where
  "verdict_head q fmtv flows body path ndpiLog wireA wireB port =
     (let fs = filter (\<lambda>f. onLabWire f wireA wireB port) flows;
          label = label_in_lines wireA wireB (strings_Split (CHR 0x0A) body)
      in [CHR 0x0A] @ itoa (int (length fs)) @ '' of '' @ itoa (int (length flows)) @ '' flows in '' @ path @
        '' are lab traffic ('' @ wireA @ '' <-> '' @ wireB @ '' port '' @ itoa port @ '')'' @ [CHR 0x0A] @
        concat (map (flow_lines fmtv q) (List.enumerate 0 fs)) @
        (if ndpiLog = [] \<or> label = [] then []
         else [CHR 0x0A] @ ''nDPI identified the client as '' @ label @ '' from its TLS fingerprint'' @ [CHR 0x0A]))"

lemma runVerify_parts:
  assumes "ndpiLog \<noteq> [] \<Longrightarrow> logBody = Inr body"
  shows "runVerify q fmtv (flows, None) logBody path ndpiLog wireA wireB port minFlows minHandshakes expect =
    (verdict_head q fmtv flows body path ndpiLog wireA wireB port @
       fst (report q expect (findings q flows body ndpiLog wireA wireB port minFlows minHandshakes)),
     snd (report q expect (findings q flows body ndpiLog wireA wireB port minFlows minHandshakes)))"
  using assms
  by (simp add: runVerify_def findings_def verdict_head_def browserLabel_def Let_def split: prod.split)

lemma same_head:
  assumes "list_all2 same_flow flows flows'"
  shows "verdict_head q fmtv flows' body path ndpiLog wireA wireB port =
    verdict_head q fmtv flows body path ndpiLog wireA wireB port"
proof -
  note filtered = same_flows_filtered [OF assms, of wireA wireB port]
  show ?thesis
    using same_flows_lines [OF filtered, of fmtv q 0] list_all2_lengthD [OF filtered] list_all2_lengthD [OF assms]
    by (simp add: verdict_head_def Let_def)
qed

section \<open>Properties\<close>

text \<open>A camouflaged flow as nDPI reports it, for the witnesses.\<close>

definition demo_flow :: "unit ndpi_flow" where
  "demo_flow =
     \<lparr>nf_SrcIP = ''10.77.0.12'', nf_DstIP = ''10.77.0.11'', nf_SrcPort = 4001, nf_DstPort = 4001, nf_L4 = ''TCP'',
      nf_Src2DstBytes = 9000, nf_Dst2SrcBytes = 200000, nf_Src2DstSyn = 5, nf_Proto = ''TLS.Google'',
      nf_ProtoID = ''91.126'', nf_Category = ''Web'', nf_Breed = ''Acceptable'', nf_Encrypted = 1,
      nf_Hostname = ''www.googleapis.com'', nf_Confidence = [(''6'', ''DPI'')],
      nf_FlowRisk = [(''5'', \<lparr>fr_Risk = ''Known Proto on Non Std Port'', fr_Severity = ''Medium''\<rparr>),
        (''51'', \<lparr>fr_Risk = ''Unresolved hostname'', fr_Severity = ''Low''\<rparr>)], nf_TLS = []\<rparr>"

text \<open>A green camouflage arm certifies exactly this: on the lab's address pair and port there were enough
  flows and enough SYNs, nDPI classified every one of them as TLS by inspection, every risk it
  raised is one of the six of the deployment table, and (when a log is given) some line of the log
  names both hosts and a known browser. Any other risk, known or not, turns the arm red.\<close>

theorem browsing_verdict_iff:
  assumes "ndpiLog \<noteq> [] \<Longrightarrow> logBody = Inr body"
  shows "snd (runVerify q fmtv (flows, None) logBody path ndpiLog wireA wireB port minFlows minHandshakes ''browsing'') = None
    \<longleftrightarrow>
    (let fs = filter (\<lambda>f. onLabWire f wireA wireB port) flows
     in minFlows \<le> int (length fs) \<and> minHandshakes \<le> count_syns fs \<and>
        (\<forall>f \<in> set fs. masterProto f = ''TLS'' \<and> strings_Contains (confidenceOf f) ''DPI'' \<and>
           fst ` set (nf_FlowRisk f) \<subseteq> {''5'', ''51'', ''48'', ''50'', ''49'', ''46''}) \<and>
        (ndpiLog \<noteq> [] \<longrightarrow> (\<exists>line \<in> set (strings_Split (CHR 0x0A) body).
           strings_Contains line wireA \<and> strings_Contains line wireB \<and>
           (\<exists>label \<in> set browserLabels. strings_Contains line label))))"
  using findings_clean [of q flows body ndpiLog wireA wireB port minFlows minHandshakes]
  by (simp add: runVerify_result [OF assms] report_result flow_ok_def allowed_risks_def recognised_def Let_def)

theorem browsing_verdict_iff_witness:
  "snd (runVerify id (\<lambda>_. []) ([demo_flow], None) (Inr []) ''flows.json'' [] ''10.77.0.11'' ''10.77.0.12'' 4001 1 5
    ''browsing'') = None"
proof -
  have "masterProto demo_flow = ''TLS''" "strings_Contains (confidenceOf demo_flow) ''DPI''"
    "onLabWire demo_flow ''10.77.0.11'' ''10.77.0.12'' 4001" "count_syns [demo_flow] = 5"
    by code_simp+
  moreover have "fst ` set (nf_FlowRisk demo_flow) \<subseteq> {''5'', ''51'', ''48'', ''50'', ''49'', ''46''}"
    by (simp add: demo_flow_def)
  ultimately show ?thesis
    by (subst browsing_verdict_iff [where body = "[]"]) (simp_all add: Let_def)
qed

text \<open>The two arms are complementary: on the same capture, once the files could be read, exactly one of
  the camouflage arm and the control arm succeeds. A lab whose checks cannot fail cannot pass both.\<close>

theorem arms_complementary:
  assumes "ndpiLog \<noteq> [] \<Longrightarrow> logBody = Inr body"
  shows "(snd (runVerify q fmtv (flows, None) logBody path ndpiLog wireA wireB port minFlows minHandshakes ''browsing'') = None)
    \<noteq> (snd (runVerify q fmtv (flows, None) logBody path ndpiLog wireA wireB port minFlows minHandshakes ''not-browsing'') = None)"
  by (simp add: runVerify_result [OF assms] report_result)

theorem arms_complementary_witness:
  "(snd (runVerify id (\<lambda>_. []) ([demo_flow], None) (Inr []) ''f'' [] ''10.77.0.11'' ''10.77.0.12'' 4001 1 9 ''browsing'') = None)
   \<noteq> (snd (runVerify id (\<lambda>_. []) ([demo_flow], None) (Inr []) ''f'' [] ''10.77.0.11'' ''10.77.0.12'' 4001 1 9 ''not-browsing'') = None)"
  by (rule arms_complementary) simp

text \<open>C37 The verdict is deterministic although Go's map iteration is not: with the confidence, risk and TLS
  maps of the flows met in any other order, the exit status and its message are the same, and so is
  everything that is printed, but for the order of the allowed notes. In particular the distinguishers
  are printed in the order of their texts, whatever order they were found in.\<close>

theorem verdict_order_independent:
  assumes "list_all2 same_flow flows flows'" and "ndpiLog \<noteq> [] \<Longrightarrow> logBody = Inr body"
  shows "let run = runVerify q fmtv (flows, None) logBody path ndpiLog wireA wireB port minFlows minHandshakes expect;
      run' = runVerify q fmtv (flows', None) logBody path ndpiLog wireA wireB port minFlows minHandshakes expect;
      v = findings q flows body ndpiLog wireA wireB port minFlows minHandshakes;
      v' = findings q flows' body ndpiLog wireA wireB port minFlows minHandshakes
    in snd run' = snd run \<and> mset (vd_notes v') = mset (vd_notes v) \<and>
      (\<exists>pre fails post. sorted fails \<and> mset fails = mset (vd_fails v) \<and>
         fst run = pre @ list_lines ''allowed (deployment, not camouflage):'' (vd_notes v) @
           list_lines ''distinguishers found:'' fails @ post \<and>
         fst run' = pre @ list_lines ''allowed (deployment, not camouflage):'' (vd_notes v') @
           list_lines ''distinguishers found:'' fails @ post)"
proof -
  define v v' where "v = findings q flows body ndpiLog wireA wireB port minFlows minHandshakes"
    and "v' = findings q flows' body ndpiLog wireA wireB port minFlows minHandshakes"
  note same = same_findings [OF assms(1) v_def v'_def]
  define pre where "pre = verdict_head q fmtv flows body path ndpiLog wireA wireB port"
  have head: "verdict_head q fmtv flows' body path ndpiLog wireA wireB port = pre"
    unfolding pre_def by (rule same_head [OF assms(1)])
  obtain post where "fst (report q expect v) = list_lines ''allowed (deployment, not camouflage):'' (vd_notes v) @
      list_lines ''distinguishers found:'' (sort (vd_fails v)) @ post"
    and "fst (report q expect v') = list_lines ''allowed (deployment, not camouflage):'' (vd_notes v') @
      list_lines ''distinguishers found:'' (sort (vd_fails v)) @ post"
    using report_output [OF same(1,3), of q expect] by blast
  moreover have "snd (report q expect v') = snd (report q expect v)"
    by (rule report_same [OF same(1)])
  moreover have "runVerify q fmtv (fs, None) logBody path ndpiLog wireA wireB port minFlows minHandshakes expect =
      (verdict_head q fmtv fs body path ndpiLog wireA wireB port @
         fst (report q expect (findings q fs body ndpiLog wireA wireB port minFlows minHandshakes)),
       snd (report q expect (findings q fs body ndpiLog wireA wireB port minFlows minHandshakes)))" for fs
    using assms(2) by (rule runVerify_parts)
  ultimately show ?thesis
    using same(2) head
    by (simp add: Let_def v_def [symmetric] v'_def [symmetric] pre_def [symmetric])
      (intro exI [of _ pre] exI [of _ "sort (vd_fails v)"] exI [of _ post], simp)
qed

theorem verdict_order_independent_witness:
  "snd (runVerify id (\<lambda>_. []) ([demo_flow\<lparr>nf_FlowRisk := rev (nf_FlowRisk demo_flow)\<rparr>], None) (Inr []) ''f'' []
      ''10.77.0.11'' ''10.77.0.12'' 4001 1 5 ''browsing'') =
   snd (runVerify id (\<lambda>_. []) ([demo_flow], None) (Inr []) ''f'' [] ''10.77.0.11'' ''10.77.0.12'' 4001 1 5 ''browsing'')"
proof -
  have "list_all2 same_flow [demo_flow] [demo_flow\<lparr>nf_FlowRisk := rev (nf_FlowRisk demo_flow)\<rparr>]"
    by (simp add: same_flow_def map_perm_def demo_flow_def)
  from verdict_order_independent [OF this, of "[]" "Inr []" "[]" id "\<lambda>_. []" "''f''" "''10.77.0.11''" "''10.77.0.12''" 4001 1 5 "''browsing''"]
  show ?thesis
    by (simp add: Let_def)
qed

end
