(* ===== verification/LabRun.thy ===== *)
theory LabRun
  imports GoText
begin

text \<open>
  The shape of the lab programs (\<^verbatim>\<open>src/dpilab/main.go\<close>, \<^verbatim>\<open>src/natlab/main.go\<close>): a sequence of calls on
  the environment, each an event of the history and answered by a function of the history, with
  Go's \<^verbatim>\<open>if err != nil\<close> after the calls and loops that poll until a deadline. A run may not return,
  which is the value \<open>None\<close>.
\<close>

named_theorems run_simps \<open>what it means for a run to return a value or an error\<close>

section \<open>Runs\<close>

type_synonym ('e, 'a) run = "'e list \<Rightarrow> ('e list \<times> (goerror + 'a)) option"

definition okR :: "'a \<Rightarrow> ('e, 'a) run" where
  "okR a h = Some (h, Inr a)"

definition failR :: "goerror \<Rightarrow> ('e, 'a) run" where
  "failR err h = Some (h, Inl err)"

definition bindR :: "('e, 'a) run \<Rightarrow> ('a \<Rightarrow> ('e, 'b) run) \<Rightarrow> ('e, 'b) run" where
  "bindR m f h =
     (case m h of
        None \<Rightarrow> None
      | Some (h', Inl err) \<Rightarrow> Some (h', Inl err)
      | Some (h', Inr a) \<Rightarrow> f a h')"

definition thenR :: "('e, 'a) run \<Rightarrow> ('e, 'b) run \<Rightarrow> ('e, 'b) run" where
  "thenR m m' = bindR m (\<lambda>_. m')"

text \<open>\<^verbatim>\<open>fmt.Errorf("p: %w", err)\<close> on the error of a run.\<close>

definition wrapR :: "string \<Rightarrow> ('e, 'a) run \<Rightarrow> ('e, 'a) run" where
  "wrapR p m h =
     (case m h of
        None \<Rightarrow> None
      | Some (h', Inl err) \<Rightarrow> Some (h', Inl (Errorf p err))
      | Some (h', Inr a) \<Rightarrow> Some (h', Inr a))"

text \<open>A call without a result, a call with one, and a call that returns only an error.\<close>

definition emitR :: "'e \<Rightarrow> ('e, unit) run" where
  "emitR e h = Some (h @ [e], Inr ())"

definition askR :: "'e \<Rightarrow> ('e list \<Rightarrow> goerror + 'a) \<Rightarrow> ('e, 'a) run" where
  "askR e ans h = Some (h @ [e], ans (h @ [e]))"

definition tryR :: "'e \<Rightarrow> ('e list \<Rightarrow> goerror option) \<Rightarrow> ('e, unit) run" where
  "tryR e ans h = Some (h @ [e], (case ans (h @ [e]) of Some err \<Rightarrow> Inl err | None \<Rightarrow> Inr ()))"

text \<open>A look at the environment that records nothing.\<close>

definition nowR :: "('e list \<Rightarrow> 'a) \<Rightarrow> ('e, 'a) run" where
  "nowR f h = Some (h, Inr (f h))"

text \<open>A call that does not change anything another call could see, and is not recorded.\<close>

definition pureR :: "goerror + 'a \<Rightarrow> ('e, 'a) run" where
  "pureR r h = Some (h, r)"

definition whenR :: "bool \<Rightarrow> ('e, unit) run \<Rightarrow> ('e, unit) run" where
  "whenR b m = (if b then m else okR ())"

text \<open>A deferred call runs whatever the result.\<close>

definition deferR :: "'e \<Rightarrow> ('e, 'a) run \<Rightarrow> ('e, 'a) run" where
  "deferR e m h = (case m h of None \<Rightarrow> None | Some (h', r) \<Rightarrow> Some (h' @ [e], r))"

lemmas run_defs = okR_def failR_def bindR_def thenR_def wrapR_def emitR_def askR_def tryR_def pureR_def nowR_def
  whenR_def deferR_def

lemma okR_iff [run_simps]: "okR a h = Some (h', r) \<longleftrightarrow> h' = h \<and> r = Inr a"
  by (auto simp: okR_def)

lemma failR_iff [run_simps]: "failR err h = Some (h', r) \<longleftrightarrow> h' = h \<and> r = Inl err"
  by (auto simp: failR_def)

lemma pureR_iff [run_simps]: "pureR x h = Some (h', r) \<longleftrightarrow> h' = h \<and> x = r"
  by (auto simp: pureR_def)

lemma nowR_iff [run_simps]: "nowR f h = Some (h', r) \<longleftrightarrow> h' = h \<and> r = Inr (f h)"
  by (auto simp: nowR_def)

lemma emitR_iff [run_simps]: "emitR e h = Some (h', r) \<longleftrightarrow> h' = h @ [e] \<and> r = Inr ()"
  by (auto simp: emitR_def)

lemma askR_iff [run_simps]: "askR e ans h = Some (h', r) \<longleftrightarrow> h' = h @ [e] \<and> ans (h @ [e]) = r"
  by (auto simp: askR_def)

lemma tryR_Inr_iff [run_simps]: "tryR e ans h = Some (h', Inr u) \<longleftrightarrow> h' = h @ [e] \<and> ans (h @ [e]) = None"
  by (auto simp: tryR_def split: option.splits)

lemma tryR_Inl_iff [run_simps]: "tryR e ans h = Some (h', Inl err) \<longleftrightarrow> h' = h @ [e] \<and> ans (h @ [e]) = Some err"
  by (auto simp: tryR_def split: option.splits)

lemma bindR_Inr_iff [run_simps]:
  "bindR m f h = Some (h', Inr b) \<longleftrightarrow> (\<exists>h1 a. m h = Some (h1, Inr a) \<and> f a h1 = Some (h', Inr b))"
  by (auto simp: bindR_def split: option.splits sum.splits prod.splits)

lemma bindR_Inl_iff [run_simps]:
  "bindR m f h = Some (h', Inl err) \<longleftrightarrow>
     m h = Some (h', Inl err) \<or> (\<exists>h1 a. m h = Some (h1, Inr a) \<and> f a h1 = Some (h', Inl err))"
  by (auto simp: bindR_def split: option.splits sum.splits prod.splits)

lemma thenR_Inr_iff [run_simps]:
  "thenR m m' h = Some (h', Inr b) \<longleftrightarrow> (\<exists>h1 a. m h = Some (h1, Inr a) \<and> m' h1 = Some (h', Inr b))"
  by (simp add: thenR_def bindR_Inr_iff)

lemma thenR_Inl_iff [run_simps]:
  "thenR m m' h = Some (h', Inl err) \<longleftrightarrow>
     m h = Some (h', Inl err) \<or> (\<exists>h1 a. m h = Some (h1, Inr a) \<and> m' h1 = Some (h', Inl err))"
  by (simp add: thenR_def bindR_Inl_iff)

lemma wrapR_Inr_iff [run_simps]: "wrapR p m h = Some (h', Inr a) \<longleftrightarrow> m h = Some (h', Inr a)"
  by (auto simp: wrapR_def split: option.splits sum.splits prod.splits)

lemma wrapR_Inl_iff [run_simps]:
  "wrapR p m h = Some (h', Inl err) \<longleftrightarrow> (\<exists>e. m h = Some (h', Inl e) \<and> err = Errorf p e)"
  by (auto simp: wrapR_def split: option.splits sum.splits prod.splits)

lemma whenR_iff [run_simps]:
  "whenR b m h = Some (h', r) \<longleftrightarrow> (if b then m h = Some (h', r) else h' = h \<and> r = Inr ())"
  by (auto simp: whenR_def okR_def)

lemma deferR_iff [run_simps]:
  "deferR e m h = Some (h', r) \<longleftrightarrow> (\<exists>h1. m h = Some (h1, r) \<and> h' = h1 @ [e])"
  by (auto simp: deferR_def split: option.splits prod.splits)

section \<open>Runs that return, and runs that only append\<close>

definition returns :: "('e, 'a) run \<Rightarrow> bool" where
  "returns m \<longleftrightarrow> (\<forall>h. m h \<noteq> None)"

definition appends :: "('e \<Rightarrow> bool) \<Rightarrow> ('e, 'a) run \<Rightarrow> bool" where
  "appends P m \<longleftrightarrow> (\<forall>h h' r. m h = Some (h', r) \<longrightarrow> (\<exists>d. h' = h @ d \<and> list_all P d))"

lemma returns_basic [simp]:
  "returns (okR a)" "returns (failR err)" "returns (emitR e)" "returns (askR e ans)" "returns (tryR e ans')"
  "returns (pureR r)" "returns (nowR f)"
  by (simp_all add: returns_def run_defs)

lemma returns_bind: "returns m \<Longrightarrow> (\<And>a. returns (f a)) \<Longrightarrow> returns (bindR m f)"
  by (auto simp: returns_def bindR_def split: option.split prod.split sum.split)

lemma returns_then: "returns m \<Longrightarrow> returns m' \<Longrightarrow> returns (thenR m m')"
  by (simp add: thenR_def returns_bind)

lemma returns_wrap: "returns m \<Longrightarrow> returns (wrapR p m)"
  by (auto simp: returns_def wrapR_def split: option.split prod.split sum.split)

lemma returns_when: "(b \<Longrightarrow> returns m) \<Longrightarrow> returns (whenR b m)"
  by (simp add: whenR_def)

lemma returns_defer: "returns m \<Longrightarrow> returns (deferR e m)"
  by (auto simp: returns_def deferR_def split: option.split prod.split)

lemma returns_if: "(b \<Longrightarrow> returns m) \<Longrightarrow> (\<not> b \<Longrightarrow> returns m') \<Longrightarrow> returns (if b then m else m')"
  by simp

lemmas returns_intros = returns_basic returns_bind returns_then returns_wrap returns_when returns_defer returns_if

lemma appends_basic [simp]:
  "appends P (okR a)" "appends P (failR err)" "appends P (pureR r)" "appends P (nowR f)"
  "appends P (emitR e) \<longleftrightarrow> P e" "appends P (askR e ans) \<longleftrightarrow> P e" "appends P (tryR e ans') \<longleftrightarrow> P e"
  by (simp_all add: appends_def run_defs)

lemma appends_bind:
  assumes "appends P m" and "\<And>a. appends P (f a)"
  shows "appends P (bindR m f)"
  unfolding appends_def
proof (intro allI impI)
  fix h h' r
  assume b: "bindR m f h = Some (h', r)"
  then obtain h1 r1 where m: "m h = Some (h1, r1)"
    by (auto simp: bindR_def split: option.splits)
  with assms(1) obtain d where d: "h1 = h @ d" "list_all P d"
    unfolding appends_def by blast
  show "\<exists>d. h' = h @ d \<and> list_all P d"
  proof (cases r1)
    case (Inl err)
    then show ?thesis
      using b m d by (auto simp: bindR_def)
  next
    case (Inr a)
    with b m have "f a h1 = Some (h', r)"
      by (simp add: bindR_def)
    with assms(2) obtain d' where "h' = h1 @ d'" "list_all P d'"
      unfolding appends_def by blast
    with d show ?thesis
      by (intro exI [of _ "d @ d'"]) simp
  qed
qed

lemma appends_then: "appends P m \<Longrightarrow> appends P m' \<Longrightarrow> appends P (thenR m m')"
  by (simp add: thenR_def appends_bind)

lemma appends_wrap: "appends P m \<Longrightarrow> appends P (wrapR p m)"
  unfolding appends_def wrapR_def by (fastforce split: option.splits prod.splits sum.splits)

lemma appends_when: "(b \<Longrightarrow> appends P m) \<Longrightarrow> appends P (whenR b m)"
  by (simp add: whenR_def)

lemma appends_defer: "P e \<Longrightarrow> appends P m \<Longrightarrow> appends P (deferR e m)"
  unfolding appends_def deferR_def by (fastforce split: option.splits prod.splits)

lemma appends_if: "(b \<Longrightarrow> appends P m) \<Longrightarrow> (\<not> b \<Longrightarrow> appends P m') \<Longrightarrow> appends P (if b then m else m')"
  by simp

lemmas appends_intros = appends_bind appends_then appends_wrap appends_when appends_defer appends_if

lemma appendsE:
  assumes "appends P m" and "m h = Some (h', r)"
  obtains d where "h' = h @ d" and "list_all P d"
  using assms by (auto simp: appends_def)

text \<open>At most \<open>n\<close> of the events a run appends satisfy \<open>P\<close>.\<close>

definition at_most :: "('e \<Rightarrow> bool) \<Rightarrow> nat \<Rightarrow> ('e, 'a) run \<Rightarrow> bool" where
  "at_most P n m \<longleftrightarrow> (\<forall>h h' r. m h = Some (h', r) \<longrightarrow> (\<exists>d. h' = h @ d \<and> length (filter P d) \<le> n))"

lemma at_most_appends: "appends (\<lambda>e. \<not> P e) m \<Longrightarrow> at_most P 0 m"
  unfolding appends_def at_most_def by (fastforce simp: list_all_iff)

lemma at_most_bind:
  assumes "at_most P n m" and "\<And>a. at_most P k (f a)"
  shows "at_most P (n + k) (bindR m f)"
  unfolding at_most_def
proof (intro allI impI)
  fix h h' r
  assume b: "bindR m f h = Some (h', r)"
  then obtain h1 r1 where m: "m h = Some (h1, r1)"
    by (auto simp: bindR_def split: option.splits)
  with assms(1) obtain d where d: "h1 = h @ d" "length (filter P d) \<le> n"
    unfolding at_most_def by blast
  show "\<exists>d. h' = h @ d \<and> length (filter P d) \<le> n + k"
  proof (cases r1)
    case (Inl err)
    then show ?thesis
      using b m d by (auto simp: bindR_def)
  next
    case (Inr a)
    with b m have "f a h1 = Some (h', r)"
      by (simp add: bindR_def)
    with assms(2) obtain d' where "h' = h1 @ d'" "length (filter P d') \<le> k"
      unfolding at_most_def by blast
    with d show ?thesis
      by (intro exI [of _ "d @ d'"]) simp
  qed
qed

lemma at_most_then: "at_most P n m \<Longrightarrow> at_most P k m' \<Longrightarrow> at_most P (n + k) (thenR m m')"
  by (simp add: thenR_def at_most_bind)

lemma at_most_wrap: "at_most P n m \<Longrightarrow> at_most P n (wrapR p m)"
  unfolding at_most_def wrapR_def by (fastforce split: option.splits prod.splits sum.splits)

lemma at_most_when: "(b \<Longrightarrow> at_most P n m) \<Longrightarrow> at_most P (if b then n else 0) (whenR b m)"
  by (simp add: whenR_def at_most_appends)

lemma at_most_defer: "\<not> P e \<Longrightarrow> at_most P n m \<Longrightarrow> at_most P n (deferR e m)"
  unfolding at_most_def deferR_def by (fastforce split: option.splits prod.splits)

lemma at_most_mono: "at_most P n m \<Longrightarrow> n \<le> k \<Longrightarrow> at_most P k m"
  unfolding at_most_def by (meson order_trans)

text \<open>Where a sequence ends: in its first part, or in the second.\<close>

lemma thenR_cases:
  assumes "thenR m m' h = Some (h', r)"
  obtains err where "m h = Some (h', Inl err)" and "r = Inl err"
  | h1 a where "m h = Some (h1, Inr a)" and "m' h1 = Some (h', r)"
  using assms by (auto simp: thenR_def bindR_def split: option.splits sum.splits)

lemma bindR_cases:
  assumes "bindR m f h = Some (h', r)"
  obtains err where "m h = Some (h', Inl err)" and "r = Inl err"
  | h1 a where "m h = Some (h1, Inr a)" and "f a h1 = Some (h', r)"
  using assms by (auto simp: bindR_def split: option.splits sum.splits)

section \<open>Polling\<close>

lemma all_less_Suc_first: "(\<forall>i < Suc j. P i) \<longleftrightarrow> P 0 \<and> (\<forall>i < j. P (Suc i))"
  using less_Suc_eq_0_disj by auto

text \<open>
  \<^verbatim>\<open>for { if check { return }; select { case <-ticker: case <-ctx.Done(): return err } }\<close>. Looking
  at the condition records nothing; a tick that passes is the event \<open>tick\<close>. \<open>sel\<close> is the choice of
  the \<^verbatim>\<open>select\<close>: the context's error if it took that branch.
\<close>

partial_function (option) poll :: "('e list \<Rightarrow> 'a option) \<Rightarrow> ('e list \<Rightarrow> goerror option) \<Rightarrow> 'e \<Rightarrow> ('e, 'a) run" where
  "poll chk sel tick h =
     (case chk h of
        Some a \<Rightarrow> Some (h, Inr a)
      | None \<Rightarrow>
          (case sel h of
             Some err \<Rightarrow> Some (h, Inl err)
           | None \<Rightarrow> poll chk sel tick (h @ [tick])))"

declare poll.simps [code]

text \<open>
  The deadline of a context: whatever the \<^verbatim>\<open>select\<close> statements choose while the deadline has not
  passed, one of the next \<open>k\<close> of them takes the branch of the context.
\<close>

definition expires :: "nat \<Rightarrow> ('e list \<Rightarrow> goerror option) \<Rightarrow> 'e \<Rightarrow> bool" where
  "expires k sel tick \<longleftrightarrow> (\<forall>h. \<exists>j \<le> k. sel (h @ replicate j tick) \<noteq> None)"

definition polled :: "('e list \<Rightarrow> 'a option) \<Rightarrow> ('e list \<Rightarrow> goerror option) \<Rightarrow> 'e \<Rightarrow> 'e list \<Rightarrow> nat \<Rightarrow> bool" where
  "polled chk sel tick h j \<longleftrightarrow>
     (\<forall>i < j. chk (h @ replicate i tick) = None \<and> sel (h @ replicate i tick) = None)"

lemma polled_0 [simp]: "polled chk sel tick h 0"
  by (simp add: polled_def)

lemma replicate_shift: "(h @ [x]) @ replicate j x = h @ replicate (Suc j) x"
  by simp

lemma polled_Suc:
  "polled chk sel tick h (Suc j) \<longleftrightarrow> chk h = None \<and> sel h = None \<and> polled chk sel tick (h @ [tick]) j"
  unfolding polled_def all_less_Suc_first replicate_shift by simp

lemma poll_sound_pair:
  "poll chk sel tick h = Some y \<Longrightarrow>
    \<exists>j. fst y = h @ replicate j tick \<and> polled chk sel tick h j \<and>
      (case snd y of Inr a \<Rightarrow> chk (fst y) = Some a | Inl err \<Rightarrow> chk (fst y) = None \<and> sel (fst y) = Some err)"
proof (induction rule: poll.raw_induct [rotated 1, consumes 1])
  case (1 rec chk sel tick h y)
  show ?case
  proof (cases "chk h = None \<and> sel h = None")
    case True
    with 1 have "rec chk sel tick (h @ [tick]) = Some y"
      by simp
    from 1(1) [OF this] obtain j where "fst y = (h @ [tick]) @ replicate j tick"
      "polled chk sel tick (h @ [tick]) j"
      "case snd y of Inr a \<Rightarrow> chk (fst y) = Some a | Inl err \<Rightarrow> chk (fst y) = None \<and> sel (fst y) = Some err"
      by blast
    with True show ?thesis
      by (intro exI [of _ "Suc j"]) (simp add: polled_Suc)
  next
    case False
    with 1(2) show ?thesis
      by (intro exI [of _ 0]) (auto split: option.splits)
  qed
qed

text \<open>The two ways a poll ends, with the number of ticks that passed.\<close>

lemma poll_InrD:
  assumes "poll chk sel tick h = Some (h', Inr a)"
  obtains j where "h' = h @ replicate j tick" and "polled chk sel tick h j" and "chk h' = Some a"
  using poll_sound_pair [OF assms] by auto

lemma poll_InlD:
  assumes "poll chk sel tick h = Some (h', Inl err)"
  obtains j where "h' = h @ replicate j tick" and "polled chk sel tick h j" and "chk h' = None"
    and "sel h' = Some err"
  using poll_sound_pair [OF assms] by auto

lemma poll_unless:
  "sel (h @ replicate j tick) \<noteq> None \<Longrightarrow> poll chk sel tick h \<noteq> None"
proof (induction j arbitrary: h)
  case 0
  then show ?case
    by (subst poll.simps) (auto split: option.split)
next
  case (Suc j)
  have "sel ((h @ [tick]) @ replicate j tick) \<noteq> None"
    using Suc.prems unfolding replicate_shift .
  then have "poll chk sel tick (h @ [tick]) \<noteq> None"
    by (rule Suc.IH)
  then show ?case
    by (subst poll.simps) (auto split: option.split)
qed

lemma returns_poll: "expires k sel tick \<Longrightarrow> returns (poll chk sel tick)"
  unfolding returns_def expires_def using poll_unless by meson

lemma appends_poll:
  assumes "P tick"
  shows "appends P (poll chk sel tick)"
  unfolding appends_def
proof (intro allI impI)
  fix h h' r
  assume "poll chk sel tick h = Some (h', r)"
  from poll_sound_pair [OF this] obtain j where "h' = h @ replicate j tick"
    by auto
  with assms show "\<exists>d. h' = h @ d \<and> list_all P d"
    by (intro exI [of _ "replicate j tick"]) (simp add: list_all_iff)
qed

text \<open>A poll under a deadline makes at most the number of ticks the deadline allows.\<close>

lemma poll_ticks:
  assumes "expires k sel tick" and "poll chk sel tick h = Some (h', r)"
  shows "\<exists>j \<le> k. h' = h @ replicate j tick"
proof -
  obtain j where j: "h' = h @ replicate j tick" "polled chk sel tick h j"
    using poll_sound_pair [OF assms(2)] by auto
  obtain i where i: "i \<le> k" "sel (h @ replicate i tick) \<noteq> None"
    using assms(1) unfolding expires_def by blast
  then have "\<not> i < j"
    using j(2) by (auto simp: polled_def)
  with j(1) i(1) show ?thesis
    by (intro exI [of _ j]) simp
qed

lemma poll_deadline:
  assumes "expires k sel tick"
  obtains j r where "j \<le> k" and "poll chk sel tick h = Some (h @ replicate j tick, r)"
    and "\<And>a. r = Inr a \<Longrightarrow> chk (h @ replicate j tick) = Some a"
proof -
  obtain h' r where p: "poll chk sel tick h = Some (h', r)"
    using returns_poll [OF assms, of chk] unfolding returns_def by fastforce
  obtain j where "j \<le> k" "h' = h @ replicate j tick"
    using poll_ticks [OF assms p] by blast
  with p that [of j r] show ?thesis
    by (auto elim: poll_InrD)
qed

lemma at_most_poll: "expires k sel tick \<Longrightarrow> at_most P k (poll chk sel tick)"
  unfolding at_most_def
proof (intro allI impI)
  fix h h' r
  assume e: "expires k sel tick" and p: "poll chk sel tick h = Some (h', r)"
  obtain j where "j \<le> k" "h' = h @ replicate j tick"
    using poll_ticks [OF e p] by blast
  then show "\<exists>d. h' = h @ d \<and> length (filter P d) \<le> k"
    using length_filter_le [of P "replicate j tick"] by (intro exI [of _ "replicate j tick"]) simp
qed

text \<open>A poll whose condition holds after \<open>j\<close> ticks, none of which ends it before, succeeds.\<close>

lemma poll_success:
  "polled chk sel tick h j \<Longrightarrow> chk (h @ replicate j tick) = Some a \<Longrightarrow>
    poll chk sel tick h = Some (h @ replicate j tick, Inr a)"
proof (induction j arbitrary: h)
  case 0
  then show ?case
    by (subst poll.simps) simp
next
  case (Suc j)
  then have "chk h = None" "sel h = None" "polled chk sel tick (h @ [tick]) j"
    by (simp_all add: polled_Suc)
  then show ?case
    using Suc.IH [of "h @ [tick]"] Suc.prems(2) by (subst poll.simps) simp
qed

end
