(* ===== verification/DpiNode.thy ===== *)
theory DpiNode
  imports LabRun DpiVerify
begin

unbundle bit_operations_syntax

text \<open>
  \<^verbatim>\<open>src/dpilab/main.go\<close>: the nodes that make the traffic nDPI judges. First the bulk protocol over a
  stream (\<^verbatim>\<open>answer\<close>, \<^verbatim>\<open>fetch\<close>): a length prefix of four big-endian bytes and that many bytes, in
  both directions. Then the rounds of the dialling node, the serving node and the roles of the
  process, as runs whose calls on libp2p are events with answers of the environment.
\<close>

section \<open>Constants\<close>

definition bulkProto :: string where "bulkProto = ''/dpilab/bulk/1.0.0''"

definition requestSize :: nat where "requestSize = 512"
definition responseSize :: nat where "responseSize = 192 * 2 ^ 10"
definition maxResponseSize :: nat where "maxResponseSize = 2 ^ 20"

section \<open>Length prefixes\<close>

text \<open>\<^verbatim>\<open>binary.BigEndian.PutUint32\<close> and \<^verbatim>\<open>Uint32\<close>.\<close>

definition put_uint32 :: "32 word \<Rightarrow> byte list" where
  "put_uint32 v = [ucast (drop_bit 24 v), ucast (drop_bit 16 v), ucast (drop_bit 8 v), ucast v]"

definition get_uint32 :: "byte list \<Rightarrow> 32 word" where
  "get_uint32 b =
     ucast (b ! 3) OR push_bit 8 (ucast (b ! 2)) OR push_bit 16 (ucast (b ! 1)) OR push_bit 24 (ucast (b ! 0))"

section \<open>Streams\<close>

text \<open>
  A stream as one end sees it: the bytes still to be read and the error behind them (none is the
  end of the stream), and the bytes accepted for sending.
\<close>

record stream =
  sm_in :: "byte list"
  sm_end :: "goerror option"
  sm_out :: "byte list"
  sm_writeClosed :: bool
  sm_reset :: bool
  sm_closed :: bool

definition new_stream :: stream where
  "new_stream =
     \<lparr>sm_in = [], sm_end = None, sm_out = [], sm_writeClosed = False, sm_reset = False, sm_closed = False\<rparr>"

text \<open>\<^verbatim>\<open>io.ReadFull\<close>, which is how \<^verbatim>\<open>binary.Read\<close> reads.\<close>

definition io_ReadFull :: "nat \<Rightarrow> stream \<Rightarrow> stream \<times> (goerror + byte list)" where
  "io_ReadFull n s =
     (if n \<le> length (sm_in s) then (s\<lparr>sm_in := drop n (sm_in s)\<rparr>, Inr (take n (sm_in s)))
      else (s\<lparr>sm_in := []\<rparr>,
        Inl (case sm_end s of
               Some err \<Rightarrow> err
             | None \<Rightarrow> Sentinel (if sm_in s = [] then ErrEOF else ErrUnexpectedEOF))))"

text \<open>\<^verbatim>\<open>io.CopyN(io.Discard, s, n)\<close>: how many bytes were read, and why not more.\<close>

definition io_CopyN :: "nat \<Rightarrow> stream \<Rightarrow> stream \<times> nat \<times> goerror option" where
  "io_CopyN n s =
     (if n \<le> length (sm_in s) then (s\<lparr>sm_in := drop n (sm_in s)\<rparr>, n, None)
      else (s\<lparr>sm_in := []\<rparr>, length (sm_in s),
        Some (case sm_end s of Some err \<Rightarrow> err | None \<Rightarrow> Sentinel ErrEOF)))"

text \<open>
  \<^verbatim>\<open>s.Write\<close>: the environment says, from what was sent before and the buffer, how much of it is
  accepted and with which error.
\<close>

type_synonym stream_writer = "byte list \<Rightarrow> byte list \<Rightarrow> nat \<times> goerror option"

definition sm_Write :: "stream_writer \<Rightarrow> byte list \<Rightarrow> stream \<Rightarrow> stream \<times> goerror option" where
  "sm_Write wr b s =
     (case wr (sm_out s) b of (n, err) \<Rightarrow> (s\<lparr>sm_out := sm_out s @ take n b\<rparr>, err))"

text \<open>\<^verbatim>\<open>rand.Read\<close> fills a buffer of a given size or fails.\<close>

type_synonym random_source = "nat \<Rightarrow> goerror + (nat \<Rightarrow> byte)"

definition rand_Read :: "random_source \<Rightarrow> nat \<Rightarrow> goerror + byte list" where
  "rand_Read rnd n = (case rnd n of Inl err \<Rightarrow> Inl err | Inr f \<Rightarrow> Inr (map f [0..<n]))"

section \<open>The bulk protocol\<close>

definition answer :: "stream_writer \<Rightarrow> random_source \<Rightarrow> stream \<Rightarrow> stream \<times> goerror option" where
  "answer wr rnd s =
     (case io_ReadFull 4 s of
        (s1, Inl err) \<Rightarrow> (s1, Some err)
      | (s1, Inr b) \<Rightarrow>
          (let reqLen = get_uint32 b in
           if maxResponseSize < unat reqLen then
             (s1, Some (External (''request too large: '' @ itoa (uint reqLen))))
           else
             (case io_CopyN (unat reqLen) s1 of
                (s2, _, Some err) \<Rightarrow> (s2, Some err)
              | (s2, _, None) \<Rightarrow>
                  (case rand_Read rnd responseSize of
                     Inl err \<Rightarrow> (s2, Some err)
                   | Inr body \<Rightarrow>
                       (case sm_Write wr (put_uint32 (word_of_nat (length body))) s2 of
                          (s3, Some err) \<Rightarrow> (s3, Some err)
                        | (s3, None) \<Rightarrow> sm_Write wr body s3)))))"

text \<open>The stream handler \<^verbatim>\<open>serve\<close> installs; the result is the stream and what it logged.\<close>

definition bulk_handler :: "(string \<Rightarrow> string) \<Rightarrow> stream_writer \<Rightarrow> random_source \<Rightarrow> stream \<Rightarrow> stream \<times> string list" where
  "bulk_handler q wr rnd s =
     (case answer wr rnd s of
        (s1, Some err) \<Rightarrow>
          (s1\<lparr>sm_reset := True, sm_closed := True\<rparr>, [''bulk stream failed: '' @ error_text q err])
      | (s1, None) \<Rightarrow> (s1\<lparr>sm_closed := True\<rparr>, []))"

text \<open>
  What \<^verbatim>\<open>fetch\<close> asks of the host and the stream. \<open>fe_reply\<close> is what can be read once the request is
  sent: bytes, and the error behind them.
\<close>

record fetch_env =
  fe_NewStream :: "goerror option"
  fe_SetDeadline :: "goerror option"
  fe_rand :: random_source
  fe_write :: stream_writer
  fe_CloseWrite :: "goerror option"
  fe_reply :: "byte list \<Rightarrow> byte list \<times> goerror option"

definition read_response :: "stream \<Rightarrow> stream \<times> nat \<times> goerror option" where
  "read_response s =
     (case io_ReadFull 4 s of
        (s1, Inl err) \<Rightarrow> (s1, 0, Some err)
      | (s1, Inr b) \<Rightarrow>
          (let respLen = get_uint32 b in
           if maxResponseSize < unat respLen then
             (s1, 0, Some (External (''response too large: '' @ itoa (uint respLen))))
           else io_CopyN (unat respLen) s1))"

definition send_request :: "fetch_env \<Rightarrow> stream \<Rightarrow> stream \<times> goerror option" where
  "send_request F s =
     (case fe_SetDeadline F of
        Some err \<Rightarrow> (s, Some err)
      | None \<Rightarrow>
          (case rand_Read (fe_rand F) requestSize of
             Inl err \<Rightarrow> (s, Some err)
           | Inr req \<Rightarrow>
               (case sm_Write (fe_write F) (put_uint32 (word_of_nat (length req))) s of
                  (s1, Some err) \<Rightarrow> (s1, Some err)
                | (s1, None) \<Rightarrow>
                    (case sm_Write (fe_write F) req s1 of
                       (s2, Some err) \<Rightarrow> (s2, Some err)
                     | (s2, None) \<Rightarrow>
                         (case fe_CloseWrite F of
                            Some err \<Rightarrow> (s2, Some err)
                          | None \<Rightarrow> (s2\<lparr>sm_writeClosed := True\<rparr>, None))))))"

definition fetch :: "fetch_env \<Rightarrow> stream option \<times> nat \<times> goerror option" where
  "fetch F =
     (case fe_NewStream F of
        Some err \<Rightarrow> (None, 0, Some err)
      | None \<Rightarrow>
          (case send_request F new_stream of
             (s, Some err) \<Rightarrow> (Some (s\<lparr>sm_closed := True\<rparr>), 0, Some err)
           | (s, None) \<Rightarrow>
               (case fe_reply F (sm_out s) of
                  (b, e) \<Rightarrow>
                    (case read_response (s\<lparr>sm_in := b, sm_end := e\<rparr>) of
                       (s', n, err) \<Rightarrow> (Some (s'\<lparr>sm_closed := True\<rparr>), n, err)))))"

section \<open>Framing\<close>

text \<open>
  The contract of a fixed-width encoding: what a reader of a stream gets from an encoded value that
  is followed by anything.
\<close>

locale fixed_width =
  fixes enc :: "'v \<Rightarrow> byte list" and dec :: "byte list \<Rightarrow> 'v" and width :: nat
  assumes length_enc: "length (enc v) = width"
    and dec_enc: "dec (enc v) = v"
    and enc_dec: "length b = width \<Longrightarrow> enc (dec b) = b"
begin

lemma ReadFull_enc:
  assumes "sm_in s = enc v @ rest"
  shows "io_ReadFull width s = (s\<lparr>sm_in := rest\<rparr>, Inr (enc v))" and "dec (enc v) = v"
  using assms by (simp_all add: io_ReadFull_def length_enc dec_enc)

lemma ReadFull_Inr:
  assumes "io_ReadFull width s = (s', Inr b)"
  shows "b = enc (dec b)" and "sm_in s = enc (dec b) @ sm_in s'" and "sm_out s' = sm_out s"
proof -
  have "b = take width (sm_in s)" "sm_in s' = drop width (sm_in s)" "width \<le> length (sm_in s)" "sm_out s' = sm_out s"
    using assms by (auto simp: io_ReadFull_def split: if_splits)
  then show "b = enc (dec b)" "sm_in s = enc (dec b) @ sm_in s'" "sm_out s' = sm_out s"
    by (simp_all add: enc_dec)
qed

lemma enc_inj: "enc v = enc w \<Longrightarrow> v = w"
  by (metis dec_enc)

end

lemma get_put_uint32: "get_uint32 (put_uint32 v) = v"
proof (rule bit_word_eqI)
  fix n
  assume n: "n < LENGTH(32)"
  have "n < 8 \<or> 8 \<le> n \<and> n < 16 \<or> 16 \<le> n \<and> n < 24 \<or> 24 \<le> n"
    by linarith
  then show "bit (get_uint32 (put_uint32 v)) n = bit v n"
    using n by (elim disjE conjE) (auto simp: get_uint32_def put_uint32_def bit_simps)
qed

lemma byte_high: "8 \<le> k \<Longrightarrow> \<not> bit (w :: byte) (k + n)"
  using bit_imp_le_length [of w "k + n"] by auto

lemma put_get_uint32: "length b = 4 \<Longrightarrow> put_uint32 (get_uint32 b) = b"
proof -
  assume "length b = 4"
  then obtain b0 b1 b2 b3 where b: "b = [b0, b1, b2, b3]"
    by (auto simp: numeral_eq_Suc length_Suc_conv)
  show ?thesis
    unfolding b get_uint32_def put_uint32_def
    by (auto simp: bit_simps byte_high intro!: bit_word_eqI)
qed

interpretation be32: fixed_width put_uint32 get_uint32 4
  by unfold_locales (simp_all add: get_put_uint32 put_get_uint32, simp add: put_uint32_def)

section \<open>Nodes\<close>

text \<open>The key derived from the seed; the two functions are \<^verbatim>\<open>sha256.Sum256\<close> and
  \<^verbatim>\<open>ed25519.NewKeyFromSeed\<close> with \<^verbatim>\<open>UnmarshalEd25519PrivateKey\<close>.\<close>

definition identity :: "(byte list \<Rightarrow> byte list) \<Rightarrow> (byte list \<Rightarrow> goerror + 'key) \<Rightarrow> string \<Rightarrow> goerror + 'key" where
  "identity sha keyFromSeed sd =
     (if sd = [] then Inl (External ''-seed is required'') else keyFromSeed (sha (bytes_of sd)))"

text \<open>The transports and options a node is built from.\<close>

datatype node_transport =
    CamouflageDefaults
  | CamouflageSNI string
  | StockTCP

datatype 'key node_option =
    NoIdentity 'key
  | NoListenAddr string
  | NoTransport node_transport
  | NoSecurityNoise
  | NoPrivateNetwork "byte list"
  | NoPing bool
  | NoEnableRelay
  | NoEnableRelayService
  | NoForceReachabilityPublic

definition labPSK :: "(byte list \<Rightarrow> byte list) \<Rightarrow> byte list" where
  "labPSK sha = sha (bytes_of ''dpilab-private-network-psk'')"

definition transport_option :: "(string \<Rightarrow> string) \<Rightarrow> string \<Rightarrow> string \<Rightarrow> goerror + node_transport" where
  "transport_option q transportName sni =
     (if transportName = ''camouflage'' then
        Inr (if sni = [] then CamouflageDefaults else CamouflageSNI sni)
      else if transportName = ''plain'' then Inr StockTCP
      else Inl (External (''unknown transport '' @ q transportName)))"

definition relay_node_options :: "(byte list \<Rightarrow> byte list) \<Rightarrow> 'key \<Rightarrow> string \<Rightarrow> int \<Rightarrow> node_transport \<Rightarrow>
    'key node_option list" where
  "relay_node_options sha privKey ip port nt =
     [NoIdentity privKey, NoListenAddr (''/ip4/'' @ ip @ ''/tcp/'' @ itoa port), NoTransport nt, NoSecurityNoise,
      NoPrivateNetwork (labPSK sha), NoPing True, NoEnableRelay, NoEnableRelayService, NoForceReachabilityPublic]"

text \<open>The calls of the process and their answers.\<close>

datatype 'key lab_event =
    LvNew "'key node_option list"
  | LvPrint string
  | LvSetHandler string
  | LvWriteFile string string
  | LvTick
  | LvPingService
  | LvConnect string
  | LvPing string
  | LvReserve string
  | LvFetch string
  | LvClosePeer string
  | LvClearAddrs string
  | LvWait
  | LvHostClose
  | LvExit string

record ('key, 'any) lab_env =
  le_sha256 :: "byte list \<Rightarrow> byte list"
  le_keyFromSeed :: "byte list \<Rightarrow> goerror + 'key"
  le_idFromKey :: "'key \<Rightarrow> goerror + string"
  le_new :: "'key lab_event list \<Rightarrow> goerror option"
  le_addrs :: "'key lab_event list \<Rightarrow> string"
  le_hostID :: string
  le_writeFile :: "'key lab_event list \<Rightarrow> goerror option"
  le_stat :: "string \<Rightarrow> 'key lab_event list \<Rightarrow> bool"
  le_done :: "'key lab_event list \<Rightarrow> goerror option"
  le_maddr :: "string \<Rightarrow> goerror + string"
  le_info :: "string \<Rightarrow> goerror + string"
  le_connect :: "'key lab_event list \<Rightarrow> goerror option"
  le_ping :: "'key lab_event list \<Rightarrow> goerror + int"
  le_reserve :: "'key lab_event list \<Rightarrow> goerror option"
  le_fetch :: "'key lab_event list \<Rightarrow> fetch_env"
  le_closePeer :: "'key lab_event list \<Rightarrow> goerror option"
  le_duration :: "int \<Rightarrow> string"
  le_quote :: "string \<Rightarrow> string"
  le_fmtv :: "'any \<Rightarrow> string"
  le_decode :: "string \<Rightarrow> goerror + 'any ndpi_flow"
  le_scan :: "string \<Rightarrow> goerror + string list \<times> goerror option"
  le_readFile :: "string \<Rightarrow> goerror + string"

definition logf :: "string \<Rightarrow> ('key lab_event, unit) run" where
  "logf msg = emitR (LvPrint (''DPILAB '' @ msg @ [CHR 0x0A]))"

definition newRelayNode :: "('key, 'any) lab_env \<Rightarrow> 'key \<Rightarrow> string \<Rightarrow> int \<Rightarrow> string \<Rightarrow> string \<Rightarrow>
    ('key lab_event, unit) run" where
  "newRelayNode E privKey ip port transportName sni =
     bindR (pureR (transport_option (le_quote E) transportName sni))
       (\<lambda>nt. tryR (LvNew (relay_node_options (le_sha256 E) privKey ip port nt)) (le_new E))"

section \<open>Serving\<close>

definition done_file :: "('key, 'any) lab_env \<Rightarrow> string \<Rightarrow> 'key lab_event list \<Rightarrow> unit option" where
  "done_file E doneFile h = (if doneFile \<noteq> [] \<and> le_stat E doneFile h then Some () else None)"

definition listen_maddr :: "('key, 'any) lab_env \<Rightarrow> string \<Rightarrow> int \<Rightarrow> string" where
  "listen_maddr E ip port = ''/ip4/'' @ ip @ ''/tcp/'' @ itoa port @ ''/p2p/'' @ le_hostID E"

definition serve :: "('key, 'any) lab_env \<Rightarrow> string \<Rightarrow> int \<Rightarrow> string \<Rightarrow> string \<Rightarrow> ('key lab_event, unit) run" where
  "serve E ip port readyFile doneFile =
     thenR (emitR (LvSetHandler bulkProto))
    (thenR (whenR (readyFile \<noteq> [])
       (thenR (tryR (LvWriteFile readyFile (listen_maddr E ip port @ [CHR 0x0A])) (le_writeFile E))
              (logf (''listening maddr='' @ listen_maddr E ip port))))
    (thenR (wrapR ''serve: '' (poll (done_file E doneFile) (le_done E) LvTick))
           (logf ''peer reported done'')))"

section \<open>Dialling\<close>

definition fetch_result :: "('key, 'any) lab_env \<Rightarrow> 'key lab_event list \<Rightarrow> goerror + nat" where
  "fetch_result E h =
     (case fetch (le_fetch E h) of (s, n, Some err) \<Rightarrow> Inl err | (s, n, None) \<Rightarrow> Inr n)"

definition lab_round :: "('key, 'any) lab_env \<Rightarrow> string \<Rightarrow> int \<Rightarrow> ('key lab_event, unit) run" where
  "lab_round E info n =
     thenR (tryR (LvConnect info) (le_connect E))
    (bindR (wrapR ''ping: '' (askR (LvPing info) (le_ping E))) (\<lambda>rtt.
     thenR (whenR (n = 1)
       (thenR (wrapR ''reserve: '' (tryR (LvReserve info) (le_reserve E)))
              (logf (''event=reservation peer='' @ info))))
    (bindR (askR (LvFetch info) (fetch_result E)) (\<lambda>got.
     logf (''event=transfer round='' @ itoa n @ '' bytes='' @ itoa (int got) @ '' rtt='' @ le_duration E rtt)))))"

text \<open>The loop \<^verbatim>\<open>for i := 1; i <= rounds; i++\<close>, from \<open>i\<close> on.\<close>

function dial_rounds :: "('key, 'any) lab_env \<Rightarrow> string \<Rightarrow> int \<Rightarrow> int \<Rightarrow> ('key lab_event, unit) run" where
  "dial_rounds E info rounds i =
     (if i \<le> rounds then
        thenR (wrapR (''round '' @ itoa i @ '': '') (lab_round E info i))
       (thenR (wrapR (''round '' @ itoa i @ '': close: '') (tryR (LvClosePeer info) (le_closePeer E)))
       (thenR (emitR (LvClearAddrs info))
       (thenR (tryR LvWait (le_done E))
              (dial_rounds E info rounds (i + 1)))))
      else okR ())"
  by pat_completeness auto
termination by (relation "measure (\<lambda>(E, info, rounds, i). nat (rounds + 1 - i))") auto

declare dial_rounds.simps [simp del]

definition lab_dial :: "('key, 'any) lab_env \<Rightarrow> string \<Rightarrow> int \<Rightarrow> ('key lab_event, unit) run" where
  "lab_dial E target rounds =
     (if target = [] then failR (External ''dial: -target is required'')
      else bindR (pureR (le_maddr E target)) (\<lambda>maddr.
           bindR (pureR (le_info E maddr)) (\<lambda>info.
           thenR (emitR LvPingService) (dial_rounds E info rounds 1))))"

section \<open>The process\<close>

record flags =
  fl_role :: string
  fl_seed :: string
  fl_ip :: string
  fl_port :: int
  fl_transport :: string
  fl_sni :: string
  fl_target :: string
  fl_rounds :: int
  fl_readyFile :: string
  fl_doneFile :: string
  fl_timeout :: int
  fl_flows :: string
  fl_ndpiLog :: string
  fl_wireA :: string
  fl_wireB :: string
  fl_minFlows :: int
  fl_minShakes :: int
  fl_expect :: string

text \<open>What \<^verbatim>\<open>flag.Parse\<close> leaves of a command line without arguments; the timeout only makes the context,
  whose expiry is \<open>le_done\<close>.\<close>

definition default_flags :: flags where
  "default_flags =
     \<lparr>fl_role = [], fl_seed = [], fl_ip = ''0.0.0.0'', fl_port = 4001, fl_transport = ''camouflage'', fl_sni = [],
      fl_target = [], fl_rounds = 5, fl_readyFile = [], fl_doneFile = [], fl_timeout = 3 * 60 * 10 ^ 9, fl_flows = [],
      fl_ndpiLog = [], fl_wireA = [], fl_wireB = [], fl_minFlows = 1, fl_minShakes = 1, fl_expect = ''browsing''\<rparr>"

text \<open>\<^verbatim>\<open>fatal\<close> prints the error and exits with status 1, without running deferred calls.\<close>

definition fatal :: "('key, 'any) lab_env \<Rightarrow> goerror \<Rightarrow> ('key lab_event, 'a) run" where
  "fatal E err =
     thenR (emitR (LvExit (''DPILAB fatal: '' @ error_text (le_quote E) err @ [CHR 0x0A]))) (failR err)"

definition orFatal :: "('key, 'any) lab_env \<Rightarrow> ('key lab_event, 'a) run \<Rightarrow> ('key lab_event, 'a) run" where
  "orFatal E m h =
     (case m h of
        None \<Rightarrow> None
      | Some (h', Inl err) \<Rightarrow> fatal E err h'
      | Some (h', Inr a) \<Rightarrow> Some (h', Inr a))"

definition run_role :: "('key, 'any) lab_env \<Rightarrow> flags \<Rightarrow> ('key lab_event, unit) run" where
  "run_role E fl =
     (if fl_role fl = ''serve'' then serve E (fl_ip fl) (fl_port fl) (fl_readyFile fl) (fl_doneFile fl)
      else if fl_role fl = ''dial'' then lab_dial E (fl_target fl) (fl_rounds fl)
      else failR (External (''unknown role '' @ le_quote E (fl_role fl))))"

definition finish_role :: "('key, 'any) lab_env \<Rightarrow> ('key lab_event, unit) run \<Rightarrow> ('key lab_event, unit) run" where
  "finish_role E m h =
     (case m h of
        None \<Rightarrow> None
      | Some (h', Inl err) \<Rightarrow> thenR (logf (''RESULT=FAIL '' @ error_text (le_quote E) err)) (fatal E err) h'
      | Some (h', Inr _) \<Rightarrow> deferR LvHostClose (logf ''RESULT=PASS'') h')"

definition verify_role :: "('key, 'any) lab_env \<Rightarrow> flags \<Rightarrow> ('key lab_event, unit) run" where
  "verify_role E fl =
     (case runVerify (le_quote E) (le_fmtv E) (loadFlows (le_decode E) (le_scan E) (fl_flows fl))
            (le_readFile E (fl_ndpiLog fl)) (fl_flows fl) (fl_ndpiLog fl) (fl_wireA fl) (fl_wireB fl) (fl_port fl)
            (fl_minFlows fl) (fl_minShakes fl) (fl_expect fl) of
        (out, res) \<Rightarrow>
          thenR (emitR (LvPrint out)) (pureR (case res of Some err \<Rightarrow> Inl err | None \<Rightarrow> Inr ())))"

definition lab_main :: "('key, 'any) lab_env \<Rightarrow> flags \<Rightarrow> ('key lab_event, unit) run" where
  "lab_main E fl =
     (if fl_role fl = ''verify'' then orFatal E (verify_role E fl)
      else bindR (orFatal E (pureR (identity (le_sha256 E) (le_keyFromSeed E) (fl_seed fl)))) (\<lambda>privKey.
        if fl_role fl = ''print-id'' then
          bindR (orFatal E (pureR (le_idFromKey E privKey))) (\<lambda>id'. emitR (LvPrint (id' @ [CHR 0x0A])))
        else
          thenR (orFatal E (newRelayNode E privKey (fl_ip fl) (fl_port fl) (fl_transport fl) (fl_sni fl)))
         (bindR (nowR (le_addrs E)) (\<lambda>addrs.
          thenR (logf (''node up id='' @ le_hostID E @ '' transport='' @ fl_transport fl @ '' addrs='' @ addrs))
                (finish_role E (run_role E fl))))))"

end
