(* ===== verification/DpiNodeClaims.thy ===== *)
theory DpiNodeClaims
  imports DpiNode "HOL-Library.Sublist"
begin

text \<open>
  The properties of the lab nodes (\<^verbatim>\<open>src/dpilab/main.go\<close>): the bulk protocol composes to a round
  trip, each end accepts exactly the frames the other may send and bounds what it reads, the dialling
  node follows its plan of rounds, and the serving node ends with its deadline.
\<close>

section \<open>Frames\<close>

definition accepts_all :: "stream_writer \<Rightarrow> bool" where
  "accepts_all wr \<longleftrightarrow> (\<forall>out b. wr out b = (length b, None))"

lemma sm_Write_all: "accepts_all wr \<Longrightarrow> sm_Write wr b s = (s\<lparr>sm_out := sm_out s @ b\<rparr>, None)"
  by (simp add: accepts_all_def sm_Write_def)

lemma rand_Read_length: "rand_Read rnd n = Inr b \<Longrightarrow> length b = n"
  by (auto simp: rand_Read_def split: sum.splits)

lemma rand_Read_ok: "rnd n = Inr f \<Longrightarrow> \<exists>b. rand_Read rnd n = Inr b"
  by (simp add: rand_Read_def)

lemma length_header: "n < 2 ^ 32 \<Longrightarrow> unat (word_of_nat n :: 32 word) = n"
  by (simp add: unat_of_nat)

lemma frame_prefix:
  "b = put_uint32 v @ zs \<Longrightarrow> get_uint32 (take 4 b) = v"
  "b = put_uint32 v @ zs \<Longrightarrow> length b = 4 + length zs"
  by (simp_all add: be32.length_enc get_put_uint32)

lemma sizes: "requestSize \<le> maxResponseSize" "responseSize \<le> maxResponseSize" "maxResponseSize < 2 ^ 32"
  by (simp_all add: requestSize_def responseSize_def maxResponseSize_def)

lemma io_CopyN_ok_iff:
  "io_CopyN n s = (s', m, None) \<longleftrightarrow>
     m = n \<and> (\<exists>body. sm_in s = body @ sm_in s' \<and> length body = n) \<and> s' = s\<lparr>sm_in := sm_in s'\<rparr>"
proof (cases "n \<le> length (sm_in s)")
  case True
  then show ?thesis
    by (auto simp: io_CopyN_def intro!: exI [of _ "take n (sm_in s)"])
next
  case False
  then show ?thesis
    by (auto simp: io_CopyN_def)
qed

lemma io_CopyN_frame:
  assumes "sm_in s = body @ rest" and "length body = n"
  shows "io_CopyN n s = (s\<lparr>sm_in := rest\<rparr>, n, None)"
  using assms by (simp add: io_CopyN_def)

lemma io_CopyN_bounds:
  assumes "io_CopyN n s = (s', m, r)"
  shows "m \<le> n" and "\<exists>d. sm_in s = d @ sm_in s' \<and> length d = m" and "sm_out s' = sm_out s"
  using assms by (auto simp: io_CopyN_def split: if_splits intro: exI [of _ "take n (sm_in s)"])

lemma sm_Write_appends:
  assumes "sm_Write wr b s = (s', e)"
  shows "sm_in s' = sm_in s" and "\<exists>n. sm_out s' = sm_out s @ take n b"
  using assms by (auto simp: sm_Write_def split: prod.splits)

lemma io_ReadFull_Inl:
  assumes "io_ReadFull n s = (s', Inl err)"
  shows "sm_in s' = []" and "length (sm_in s) < n" and "sm_out s' = sm_out s"
  using assms by (auto simp: io_ReadFull_def split: if_splits)

lemma io_ReadFull_rest:
  assumes "io_ReadFull n s = (s', Inr b)"
  shows "s' = s\<lparr>sm_in := sm_in s'\<rparr>" and "length b = n"
  using assms by (auto simp: io_ReadFull_def split: if_splits)

lemma answer_frame:
  assumes "accepts_all wr" and "rand_Read rnd responseSize = Inr body"
    and "sm_in s = put_uint32 v @ req @ rest" and "length req = unat v" and "unat v \<le> maxResponseSize"
  shows "answer wr rnd s =
    (s\<lparr>sm_in := rest, sm_out := sm_out s @ put_uint32 (word_of_nat responseSize) @ body\<rparr>, None)"
proof -
  define s1 where "s1 = s\<lparr>sm_in := req @ rest\<rparr>"
  have read: "io_ReadFull 4 s = (s1, Inr (put_uint32 v))"
    using be32.ReadFull_enc(1) [OF assms(3)] by (simp add: s1_def)
  have skip: "io_CopyN (unat v) s1 = (s1\<lparr>sm_in := rest\<rparr>, unat v, None)"
    using assms(4) by (intro io_CopyN_frame) (simp_all add: s1_def)
  show ?thesis
    using assms(2,5) rand_Read_length [OF assms(2)] skip unfolding answer_def read s1_def by (simp add: get_put_uint32 sm_Write_all [OF assms(1)] Let_def)
qed

lemma read_response_ok_iff:
  "read_response s = (s', n, None) \<longleftrightarrow>
     n \<le> maxResponseSize \<and> s' = s\<lparr>sm_in := sm_in s'\<rparr> \<and>
     (\<exists>body. sm_in s = put_uint32 (word_of_nat n) @ body @ sm_in s' \<and> length body = n)"
    (is "?L \<longleftrightarrow> ?R")
proof
  assume L: ?L
  obtain s1 b where r: "io_ReadFull 4 s = (s1, Inr b)" and max: "unat (get_uint32 b) \<le> maxResponseSize"
    and c: "io_CopyN (unat (get_uint32 b)) s1 = (s', n, None)"
    using L by (auto simp: read_response_def Let_def split: prod.splits sum.splits if_splits)
  have n: "unat (get_uint32 b) = n" "get_uint32 b = word_of_nat n"
    using c by (auto simp: io_CopyN_ok_iff)
  from c obtain body where "sm_in s1 = body @ sm_in s'" "length body = n" "s' = s1\<lparr>sm_in := sm_in s'\<rparr>"
    by (auto simp: io_CopyN_ok_iff)
  moreover have "sm_in s = put_uint32 (word_of_nat n) @ sm_in s1"
    using be32.ReadFull_Inr(2) [OF r] n(2) by simp
  moreover have "s1 = s\<lparr>sm_in := sm_in s1\<rparr>"
    using io_ReadFull_rest(1) [OF r] .
  ultimately show ?R
    using max n(1) by (metis append_assoc stream.surjective stream.update_convs(1))
next
  assume R: ?R
  then obtain body where b: "sm_in s = put_uint32 (word_of_nat n) @ body @ sm_in s'" "length body = n"
    by blast
  have u: "unat (word_of_nat n :: 32 word) = n"
    using R sizes(3) by (intro length_header) simp
  have "io_CopyN n (s\<lparr>sm_in := body @ sm_in s'\<rparr>) = (s\<lparr>sm_in := sm_in s'\<rparr>, n, None)"
    using io_CopyN_frame [of "s\<lparr>sm_in := body @ sm_in s'\<rparr>" body "sm_in s'" n] b(2) by simp
  then show ?L
    using R be32.ReadFull_enc(1) [OF b(1)]
    by (simp add: read_response_def get_put_uint32 u Let_def)
qed

lemma send_request_ok:
  assumes "accepts_all (fe_write F)" and "fe_SetDeadline F = None" and "fe_CloseWrite F = None"
    and "rand_Read (fe_rand F) requestSize = Inr req"
  shows "send_request F s =
    (s\<lparr>sm_out := sm_out s @ put_uint32 (word_of_nat requestSize) @ req, sm_writeClosed := True\<rparr>, None)"
  using assms(2-4) rand_Read_length [OF assms(4)]
  by (simp add: send_request_def sm_Write_all [OF assms(1)])

text \<open>A request and its answer, end to end.\<close>

lemma bulk_exchange:
  assumes "fe_NewStream F = None" and "fe_SetDeadline F = None" and "fe_CloseWrite F = None"
    and "accepts_all (fe_write F)" and "accepts_all wr"
    and "fe_rand F requestSize = Inr f" and "rnd responseSize = Inr g"
    and "fe_reply F = (\<lambda>sent. (sm_out (fst (bulk_handler q wr rnd (new_stream\<lparr>sm_in := sent\<rparr>))), None))"
  shows "\<exists>s s'. fetch F = (Some s, 192 * 1024, None) \<and> sm_in s = [] \<and> sm_closed s \<and> \<not> sm_reset s \<and>
    bulk_handler q wr rnd (new_stream\<lparr>sm_in := sm_out s\<rparr>) = (s', []) \<and> sm_in s' = [] \<and> sm_closed s' \<and> \<not> sm_reset s'"
proof -
  obtain req body where req: "rand_Read (fe_rand F) requestSize = Inr req"
    and body: "rand_Read rnd responseSize = Inr body"
    using rand_Read_ok assms(6,7) by metis
  define sent where "sent = put_uint32 (word_of_nat requestSize) @ req"
  define reply where "reply = put_uint32 (word_of_nat responseSize) @ body"
  define s0 where "s0 = new_stream\<lparr>sm_out := sent, sm_writeClosed := True\<rparr>"
  have send: "send_request F new_stream = (s0, None)"
    using send_request_ok [OF assms(4,2,3) req, of new_stream] by (simp add: s0_def sent_def new_stream_def)
  have hdr: "unat (word_of_nat requestSize :: 32 word) = requestSize"
    using sizes(1,3) by (intro length_header) simp
  have ans: "answer wr rnd (new_stream\<lparr>sm_in := sent\<rparr>) = (new_stream\<lparr>sm_in := [], sm_out := reply\<rparr>, None)"
    using answer_frame [OF assms(5) body, of "new_stream\<lparr>sm_in := sent\<rparr>" "word_of_nat requestSize" req "[]"]
      rand_Read_length [OF req] sizes(1)
    by (simp add: sent_def reply_def hdr) (simp add: new_stream_def)
  have handled: "bulk_handler q wr rnd (new_stream\<lparr>sm_in := sent\<rparr>) =
      (new_stream\<lparr>sm_in := [], sm_out := reply, sm_closed := True\<rparr>, [])"
    by (simp add: bulk_handler_def ans)
  have rep: "fe_reply F (sm_out s0) = (reply, None)"
    by (simp add: assms(8) s0_def handled)
  have "read_response (s0\<lparr>sm_in := reply, sm_end := None\<rparr>) = (s0\<lparr>sm_in := [], sm_end := None\<rparr>, responseSize, None)"
    using rand_Read_length [OF body] sizes(2) by (auto simp: read_response_ok_iff reply_def)
  then have "fetch F = (Some (s0\<lparr>sm_in := [], sm_end := None, sm_closed := True\<rparr>), responseSize, None)"
    by (simp add: fetch_def assms(1) send rep)
  moreover have "responseSize = 192 * 1024"
    by (simp add: responseSize_def)
  ultimately show ?thesis
    using handled by (intro exI conjI) (auto simp: s0_def new_stream_def)
qed

section \<open>Properties\<close>

text \<open>C16 The bulk protocol is a round trip: when both ends' writes are accepted and the random sources
  work, the request \<^verbatim>\<open>fetch\<close> sends is read whole and answered by \<^verbatim>\<open>answer\<close>, and what comes back is
  read whole by \<^verbatim>\<open>fetch\<close>, which returns 192 KiB. Neither end leaves a byte unread, and neither
  resets the stream.\<close>

theorem bulk_round_trip:
  assumes "fe_NewStream F = None" and "fe_SetDeadline F = None" and "fe_CloseWrite F = None"
    and "accepts_all (fe_write F)" and "accepts_all wr"
    and "fe_rand F requestSize = Inr f" and "rnd responseSize = Inr g"
    and "fe_reply F = (\<lambda>sent. (sm_out (fst (bulk_handler q wr rnd (new_stream\<lparr>sm_in := sent\<rparr>))), None))"
  shows "\<exists>s s'. fetch F = (Some s, 192 * 1024, None) \<and> sm_in s = [] \<and> sm_closed s \<and> \<not> sm_reset s \<and>
    bulk_handler q wr rnd (new_stream\<lparr>sm_in := sm_out s\<rparr>) = (s', []) \<and> sm_in s' = [] \<and> sm_closed s' \<and> \<not> sm_reset s'"
  using assms by (rule bulk_exchange)

definition demo_fetch :: "(byte list \<Rightarrow> byte list \<times> goerror option) \<Rightarrow> fetch_env" where
  "demo_fetch reply =
     \<lparr>fe_NewStream = None, fe_SetDeadline = None, fe_rand = (\<lambda>n. Inr (\<lambda>_. 7)), fe_write = (\<lambda>out b. (length b, None)),
      fe_CloseWrite = None, fe_reply = reply\<rparr>"

theorem bulk_round_trip_witness:
  "\<exists>s. fetch (demo_fetch (\<lambda>sent. (sm_out (fst (bulk_handler id (\<lambda>out b. (length b, None)) (\<lambda>n. Inr (\<lambda>_. 9))
      (new_stream\<lparr>sm_in := sent\<rparr>))), None))) = (Some s, 192 * 1024, None) \<and> sm_in s = []"
proof -
  have "accepts_all (\<lambda>out b. (length b, None))"
    by (simp add: accepts_all_def)
  from bulk_round_trip [OF _ _ _ _ this, where q = id and rnd = "\<lambda>n. Inr (\<lambda>_. 9)" and
      F = "demo_fetch (\<lambda>sent. (sm_out (fst (bulk_handler id (\<lambda>out b. (length b, None)) (\<lambda>n. Inr (\<lambda>_. 9))
      (new_stream\<lparr>sm_in := sent\<rparr>))), None))"]
  show ?thesis
    using \<open>accepts_all _\<close> by (auto simp: demo_fetch_def)
qed

text \<open>C36 \<^verbatim>\<open>fetch\<close> succeeds on exactly the well-formed replies: once its request is sent, it returns a count
  \<open>n\<close> without an error if and only if the reply starts with a length prefix of \<open>n\<close>, at most 1 MiB,
  and at least \<open>n\<close> bytes behind it. In every other case, a reply cut short or a larger prefix, it
  returns an error, and never counts more than 1 MiB.\<close>

theorem fetch_ok_iff:
  assumes "fe_NewStream F = None" and "send_request F new_stream = (s0, None)"
    and "fe_reply F (sm_out s0) = (b, e)" and "fetch F = (so, m, r)"
  shows "(r = None \<longleftrightarrow>
      (\<exists>body rest. b = put_uint32 (word_of_nat (length body)) @ body @ rest \<and> length body \<le> 1024 * 1024)) \<and>
    (r = None \<longrightarrow> (\<exists>body rest. b = put_uint32 (word_of_nat m) @ body @ rest \<and> length body = m)) \<and>
    m \<le> 1024 * 1024"
proof -
  obtain s1 where rr: "read_response (s0\<lparr>sm_in := b, sm_end := e\<rparr>) = (s1, m, r)"
    using assms by (auto simp: fetch_def split: prod.splits)
  have max: "maxResponseSize = 1024 * 1024"
    by (simp add: maxResponseSize_def)
  have "r = None \<Longrightarrow> \<exists>body rest. b = put_uint32 (word_of_nat m) @ body @ rest \<and> length body = m \<and> m \<le> maxResponseSize"
    using rr by (auto simp: read_response_ok_iff)
  moreover have "r = None \<and> m = length body"
    if "b = put_uint32 (word_of_nat (length body)) @ body @ rest" "length body \<le> maxResponseSize" for body rest
  proof -
    have "read_response (s0\<lparr>sm_in := b, sm_end := e\<rparr>) = (s0\<lparr>sm_in := rest, sm_end := e\<rparr>, length body, None)"
      using that by (auto simp: read_response_ok_iff)
    with rr show ?thesis
      by simp
  qed
  moreover have "m \<le> maxResponseSize"
    using rr by (auto simp: read_response_def Let_def dest: io_CopyN_bounds(1) split: prod.splits sum.splits if_splits)
  ultimately show ?thesis
    unfolding max by blast
qed

text \<open>A reply that announces two bytes and carries one.\<close>

theorem fetch_ok_iff_witness:
  "snd (snd (fetch (demo_fetch (\<lambda>_. ([0, 0, 0, 2, 1], None))))) \<noteq> None"
proof
  define F where "F = demo_fetch (\<lambda>_. ([0, 0, 0, 2, 1], None))"
  assume "snd (snd (fetch (demo_fetch (\<lambda>_. ([0, 0, 0, 2, 1], None))))) = None"
  then obtain so m where f: "fetch F = (so, m, None)"
    unfolding F_def by (metis prod.collapse)
  obtain req where "rand_Read (fe_rand F) requestSize = Inr req"
    using rand_Read_ok [of "fe_rand F"] by (auto simp: F_def demo_fetch_def)
  then have "\<exists>s0. send_request F new_stream = (s0, None)"
    using send_request_ok [of F req new_stream] by (simp add: F_def demo_fetch_def accepts_all_def)
  then obtain s0 where s0: "send_request F new_stream = (s0, None)"
    by blast
  have reply: "fe_reply F (sm_out s0) = ([0, 0, 0, 2, 1], None)" and new: "fe_NewStream F = None"
    by (simp_all add: F_def demo_fetch_def)
  obtain body rest where b: "[0, 0, 0, 2, 1] = put_uint32 (word_of_nat (length body)) @ body @ rest"
    "length body \<le> 1024 * 1024"
    using fetch_ok_iff [OF new s0 reply f] by blast
  have "word_of_nat (length body) = (2 :: 32 word)" "length body \<le> 1"
    using frame_prefix [OF b(1)] by (simp_all add: get_uint32_def)
  then show False
    using length_header [of "length body"] by simp
qed

text \<open>C38 \<^verbatim>\<open>answer\<close> is bounded and answers only whole requests: whatever the peer sends, it takes at most
  1 MiB behind the length prefix and sends at most the prefix and 192 KiB. A longer announcement is
  refused after the prefix alone, and not a byte is sent unless a request of the announced length
  was read to its end.\<close>

theorem answer_bounded:
  assumes "answer wr rnd s = (s', r)"
  shows "(\<exists>d. sm_in s = d @ sm_in s' \<and> length d \<le> 4 + 1024 * 1024) \<and>
    (\<exists>sent. sm_out s' = sm_out s @ sent \<and> length sent \<le> 4 + 192 * 1024 \<and>
      (sent \<noteq> [] \<or> r = None \<longrightarrow> (\<exists>req. sm_in s = put_uint32 (word_of_nat (length req)) @ req @ sm_in s' \<and>
        length req \<le> 1024 * 1024)))"
proof -
  have max: "maxResponseSize = 1024 * 1024" "responseSize = 192 * 1024"
    by (simp_all add: maxResponseSize_def responseSize_def)
  obtain s1 x where r: "io_ReadFull 4 s = (s1, x)"
    by (rule prod.exhaust)
  show ?thesis
  proof (cases x)
    case (Inl err)
    then show ?thesis
      using assms r io_ReadFull_Inl [of 4 s s1 err] by (auto simp: answer_def)
  next
    case (Inr b)
    note r' = r [unfolded Inr]
    have s: "sm_in s = put_uint32 (get_uint32 b) @ sm_in s1" "sm_out s1 = sm_out s"
      using be32.ReadFull_Inr [OF r'] by auto
    show ?thesis
    proof (cases "unat (get_uint32 b) \<le> maxResponseSize")
      case False
      then show ?thesis
        using assms r' s by (auto simp: answer_def Let_def put_uint32_def)
    next
      case True
      obtain s2 m cr where c: "io_CopyN (unat (get_uint32 b)) s1 = (s2, m, cr)"
        by (rule prod_cases3)
      then obtain req where req: "sm_in s1 = req @ sm_in s2" "length req = m" "m \<le> maxResponseSize" "sm_out s2 = sm_out s"
        using io_CopyN_bounds [OF c] True s(2) by auto
      show ?thesis
      proof (cases "cr = None \<and> (\<exists>body. rand_Read rnd responseSize = Inr body)")
        case False
        then have "s' = s2" "r \<noteq> None"
          using assms True by (auto simp: answer_def Let_def r' c split: option.splits sum.splits)
        then show ?thesis
          using s(1) req max
          by (intro conjI, intro exI [of _ "put_uint32 (get_uint32 b) @ req"]) (auto simp: be32.length_enc)
      next
        case True': True
        then obtain body where body: "rand_Read rnd responseSize = Inr body" "cr = None"
          by blast
        have m: "word_of_nat (length req) = get_uint32 b"
          using c req(2) body(2) by (auto simp: io_CopyN_ok_iff)
        obtain s3 e3 where w3: "sm_Write wr (put_uint32 (word_of_nat (length body))) s2 = (s3, e3)"
          by (rule prod.exhaust)
        obtain s4 e4 where w4: "sm_Write wr body s3 = (s4, e4)"
          by (rule prod.exhaust)
        have "s' = s3 \<or> s' = s4"
          using assms True by (auto simp: answer_def Let_def r' c body w3 w4 split: option.splits)
        then obtain i j where out: "sm_out s' = sm_out s @ take i (put_uint32 (word_of_nat (length body))) @ take j body"
          and inp: "sm_in s' = sm_in s2"
          using sm_Write_appends [OF w3] sm_Write_appends [OF w4] req(4)
          by (metis append.assoc append_Nil2 take0)
        then show ?thesis
          using s(1) req max m rand_Read_length [OF body(1)]
          by (intro conjI exI [of _ "put_uint32 (get_uint32 b) @ req"]
              exI [of _ "take i (put_uint32 (word_of_nat (length body))) @ take j body"])
            (auto simp: be32.length_enc intro!: exI [of _ req])
      qed
    qed
  qed
qed

text \<open>An announcement of one byte more than 1 MiB.\<close>

theorem answer_bounded_witness:
  "sm_out (fst (answer (\<lambda>out b. (length b, None)) (\<lambda>n. Inr (\<lambda>_. 9)) (new_stream\<lparr>sm_in := [0, 16, 0, 1, 5]\<rparr>))) = []"
proof -
  obtain s' r where a: "answer (\<lambda>out b. (length b, None)) (\<lambda>n. Inr (\<lambda>_. 9)) (new_stream\<lparr>sm_in := [0, 16, 0, 1, 5]\<rparr>) = (s', r)"
    by (rule prod.exhaust)
  have False if "[0, 16, 0, 1, 5] = put_uint32 (word_of_nat (length req)) @ req @ sm_in s'" for req
  proof -
    have "word_of_nat (length req) = (1048577 :: 32 word)" "length req \<le> 1"
      using frame_prefix [OF that] by (simp_all add: get_uint32_def)
    then show False
      using length_header [of "length req"] by simp
  qed
  then show ?thesis
    using answer_bounded [OF a] a by (auto simp: new_stream_def)
qed

section \<open>Rounds\<close>

text \<open>The calls a run makes: its events without what it prints.\<close>

fun is_print :: "'key lab_event \<Rightarrow> bool" where
  "is_print (LvPrint s) = True"
| "is_print _ = False"

definition calls_of :: "'key lab_event list \<Rightarrow> 'key lab_event list" where
  "calls_of h = filter (\<lambda>e. \<not> is_print e) h"

lemma calls_of_simps [simp]:
  "calls_of [] = []" "calls_of (e # h) = (if is_print e then calls_of h else e # calls_of h)"
  "calls_of (h @ h') = calls_of h @ calls_of h'"
  by (simp_all add: calls_of_def)

definition round_calls :: "string \<Rightarrow> int \<Rightarrow> 'key lab_event list" where
  "round_calls info i =
     [LvConnect info, LvPing info] @ (if i = 1 then [LvReserve info] else []) @
     [LvFetch info, LvClosePeer info, LvClearAddrs info, LvWait]"

text \<open>A run that makes the calls of a plan one by one, all of them if it succeeds.\<close>

definition follows :: "('key lab_event, 'a) run \<Rightarrow> 'key lab_event list \<Rightarrow> bool" where
  "follows m cs \<longleftrightarrow> (\<forall>h h' r. m h = Some (h', r) \<longrightarrow>
     (\<exists>d. h' = h @ d \<and> (case r of Inr _ \<Rightarrow> calls_of d = cs | Inl _ \<Rightarrow> prefix (calls_of d) cs)))"

lemma follows_basic:
  "follows (okR a) []" "follows (failR err) cs" "follows (logf msg) []" "follows (pureR r) []"
  "\<not> is_print e \<Longrightarrow> follows (emitR e) [e]" "\<not> is_print e \<Longrightarrow> follows (askR e ans) [e]"
  "\<not> is_print e \<Longrightarrow> follows (tryR e ans') [e]"
  by (auto simp: follows_def run_defs logf_def split: sum.split option.split)

lemma follows_bind:
  assumes "follows m cs" and "\<And>a. follows (f a) cs'"
  shows "follows (bindR m f) (cs @ cs')"
  unfolding follows_def
proof (intro allI impI)
  fix h h' r
  assume b: "bindR m f h = Some (h', r)"
  then obtain h1 r1 where m: "m h = Some (h1, r1)"
    by (auto simp: bindR_def split: option.splits)
  obtain d1 where d1: "h1 = h @ d1"
    "case r1 of Inr _ \<Rightarrow> calls_of d1 = cs | Inl _ \<Rightarrow> prefix (calls_of d1) cs"
    using assms(1) m unfolding follows_def by blast
  show "\<exists>d. h' = h @ d \<and> (case r of Inr _ \<Rightarrow> calls_of d = cs @ cs'
      | Inl _ \<Rightarrow> prefix (calls_of d) (cs @ cs'))"
  proof (cases r1)
    case (Inl err)
    then show ?thesis
      using b m d1 by (auto simp: bindR_def intro: prefix_prefix)
  next
    case (Inr a)
    then have f: "f a h1 = Some (h', r)"
      using b m by (simp add: bindR_def)
    obtain d2 where "h' = h1 @ d2"
      "case r of Inr _ \<Rightarrow> calls_of d2 = cs' | Inl _ \<Rightarrow> prefix (calls_of d2) cs'"
      using assms(2) f unfolding follows_def by blast
    then show ?thesis
      using d1 Inr by (intro exI [of _ "d1 @ d2"]) (auto split: sum.splits)
  qed
qed

lemma follows_then: "follows m cs \<Longrightarrow> follows m' cs' \<Longrightarrow> follows (thenR m m') (cs @ cs')"
  by (simp add: thenR_def follows_bind)

lemma follows_wrap: "follows m cs \<Longrightarrow> follows (wrapR p m) cs"
  by (fastforce simp: follows_def wrapR_def split: option.splits sum.splits)

lemma follows_when: "follows m cs \<Longrightarrow> follows (whenR b m) (if b then cs else [])"
  by (simp add: whenR_def follows_basic)

lemma thenR_assoc: "thenR (thenR a b) c = thenR a (thenR b c)"
  by (rule ext) (simp add: run_defs split: option.split prod.split sum.split)

text \<open>One iteration of the loop, and the errors it may end with.\<close>

definition iteration :: "('key, 'any) lab_env \<Rightarrow> string \<Rightarrow> int \<Rightarrow> ('key lab_event, unit) run" where
  "iteration E info i =
     thenR (wrapR (''round '' @ itoa i @ '': '') (lab_round E info i))
    (thenR (wrapR (''round '' @ itoa i @ '': close: '') (tryR (LvClosePeer info) (le_closePeer E)))
    (thenR (emitR (LvClearAddrs info)) (tryR LvWait (le_done E))))"

definition round_error :: "('key, 'any) lab_env \<Rightarrow> int \<Rightarrow> goerror \<Rightarrow> bool" where
  "round_error E i err \<longleftrightarrow>
     (\<exists>e. err = Errorf (''round '' @ itoa i @ '': '') e \<or> err = Errorf (''round '' @ itoa i @ '': close: '') e) \<or>
     (\<exists>h. le_done E h = Some err)"

lemma dial_rounds_step:
  "dial_rounds E info rounds i =
     (if i \<le> rounds then thenR (iteration E info i) (dial_rounds E info rounds (i + 1)) else okR ())"
  by (subst dial_rounds.simps) (simp add: iteration_def thenR_assoc)

lemma lab_round_follows:
  "follows (lab_round E info i) ([LvConnect info, LvPing info] @ (if i = 1 then [LvReserve info] else []) @ [LvFetch info])"
proof -
  have "follows (lab_round E info i)
    ([LvConnect info] @ [LvPing info] @ (if i = 1 then [LvReserve info] @ [] else []) @ [LvFetch info] @ [])"
    unfolding lab_round_def
    by (intro follows_then follows_bind follows_wrap follows_when follows_basic) simp_all
  then show ?thesis
    by (simp cong: if_cong)
qed

lemma iteration_follows: "follows (iteration E info i) (round_calls info i)"
proof -
  have "follows (iteration E info i)
    (([LvConnect info, LvPing info] @ (if i = 1 then [LvReserve info] else []) @ [LvFetch info]) @
      [LvClosePeer info] @ [LvClearAddrs info] @ [LvWait])"
    unfolding iteration_def
    by (intro follows_then follows_wrap lab_round_follows follows_basic) simp_all
  then show ?thesis
    by (simp add: round_calls_def)
qed

lemma iteration_error: "iteration E info i h = Some (h', Inl err) \<Longrightarrow> round_error E i err"
  unfolding iteration_def round_error_def by (auto simp: run_simps)

lemma iteration_returns: "returns (iteration E info i)"
  unfolding iteration_def lab_round_def logf_def by (intro returns_intros)

lemma dial_rounds_returns: "returns (dial_rounds E info rounds i)"
proof (induction "nat (rounds + 1 - i)" arbitrary: i rule: less_induct)
  case less
  then show ?case
    by (subst dial_rounds_step) (auto intro!: returns_then iteration_returns less)
qed

text \<open>Where the rounds from \<open>i\<close> on can end.\<close>

definition rounds_end :: "('key, 'any) lab_env \<Rightarrow> string \<Rightarrow> int \<Rightarrow> int \<Rightarrow> 'key lab_event list \<Rightarrow> goerror + unit \<Rightarrow> bool" where
  "rounds_end E info rounds i cs r \<longleftrightarrow>
     (case r of
        Inr _ \<Rightarrow> cs = concat (map (round_calls info) [i..rounds])
      | Inl err \<Rightarrow> \<exists>j p. i \<le> j \<and> j \<le> rounds \<and> round_error E j err \<and> prefix p (round_calls info j) \<and>
          cs = concat (map (round_calls info) [i..j - 1]) @ p)"

lemma dial_rounds_ends:
  "dial_rounds E info rounds i h = Some (h', r) \<Longrightarrow> \<exists>d. h' = h @ d \<and> rounds_end E info rounds i (calls_of d) r"
proof (induction "nat (rounds + 1 - i)" arbitrary: i h rule: less_induct)
  case less
  show ?case
  proof (cases "i \<le> rounds")
    case False
    then show ?thesis
      using less.prems by (auto simp: dial_rounds_step [of E info rounds i] okR_def rounds_end_def)
  next
    case True
    have split: "[i..j] = i # [i + 1..j]" if "i \<le> j" for j
      using that by (rule upto_rec1)
    have run: "thenR (iteration E info i) (dial_rounds E info rounds (i + 1)) h = Some (h', r)"
      using less.prems True by (simp add: dial_rounds_step [of E info rounds i])
    then obtain h1 r1 where it: "iteration E info i h = Some (h1, r1)"
      by (auto simp: thenR_def bindR_def split: option.splits)
    obtain d1 where d1: "h1 = h @ d1"
      "case r1 of Inr _ \<Rightarrow> calls_of d1 = round_calls info i | Inl _ \<Rightarrow> prefix (calls_of d1) (round_calls info i)"
      using iteration_follows it unfolding follows_def by blast
    show ?thesis
    proof (cases r1)
      case (Inl err)
      then have "h' = h1" "r = Inl err"
        using run it by (simp_all add: thenR_def bindR_def)
      then show ?thesis
        using d1 Inl iteration_error [of E info i h h1 err] it True
        by (intro exI [of _ d1]) (auto simp: rounds_end_def intro!: exI [of _ i])
    next
      case (Inr u)
      then have rest: "dial_rounds E info rounds (i + 1) h1 = Some (h', r)"
        using run it by (simp add: thenR_def bindR_def)
      obtain d2 where d2: "h' = h1 @ d2" "rounds_end E info rounds (i + 1) (calls_of d2) r"
        using less.hyps [OF _ rest] True by auto
      show ?thesis
      proof (cases r)
        case (Inr v)
        then show ?thesis
          using d1 d2 True \<open>r1 = Inr u\<close> split [OF True] by (auto simp: rounds_end_def)
      next
        case (Inl err)
        then obtain j p where jp: "i + 1 \<le> j" "j \<le> rounds" "round_error E j err" "prefix p (round_calls info j)"
          "calls_of d2 = concat (map (round_calls info) [i + 1..j - 1]) @ p"
          using d2(2) by (auto simp: rounds_end_def)
        then have "calls_of (d1 @ d2) = concat (map (round_calls info) [i..j - 1]) @ p"
          using d1(2) \<open>r1 = Inr u\<close> split [of "j - 1"] by simp
        then have "rounds_end E info rounds i (calls_of (d1 @ d2)) (Inl err)"
          unfolding rounds_end_def sum.case using jp
          by (intro exI [of _ j] exI [of _ p]) (simp del: calls_of_simps)
        then show ?thesis
          using d1(1) d2(1) Inl by (intro exI [of _ "d1 @ d2"]) simp
      qed
    qed
  qed
qed

text \<open>C30 The dialling node runs to a plan. It always returns; on success it has made, in order, the calls
  of every round: connect, ping, in the first round a relay reservation, the transfer, and the
  teardown of the connection, so that the next round starts afresh. An error ends it in the middle of
  some round, after all rounds before it, and names that round unless it is the context's own.\<close>

theorem dial_runs_rounds:
  assumes "target \<noteq> []" and "le_maddr E target = Inr maddr" and "le_info E maddr = Inr info"
  shows "\<exists>d r. lab_dial E target rounds h = Some (h @ LvPingService # d, r) \<and>
    (case r of
       Inr _ \<Rightarrow> calls_of d = concat (map (round_calls info) [1..rounds])
     | Inl err \<Rightarrow> \<exists>i p. 1 \<le> i \<and> i \<le> rounds \<and> round_error E i err \<and> prefix p (round_calls info i) \<and>
         calls_of d = concat (map (round_calls info) [1..i - 1]) @ p)"
proof -
  have d: "lab_dial E target rounds h = dial_rounds E info rounds 1 (h @ [LvPingService])"
    using assms by (simp add: lab_dial_def run_defs)
  obtain h' r where "dial_rounds E info rounds 1 (h @ [LvPingService]) = Some (h', r)"
    using dial_rounds_returns [of E info rounds 1] unfolding returns_def by fastforce
  with dial_rounds_ends [OF this] show ?thesis
    unfolding d rounds_end_def by auto
qed

text \<open>An environment for the witnesses: every call succeeds, and the transfers are those of the bulk protocol.\<close>

definition demo_lab :: "(nat, unit) lab_env" where
  "demo_lab =
     \<lparr>le_sha256 = (\<lambda>b. take 32 (b @ replicate 32 0)), le_keyFromSeed = (\<lambda>b. Inr (length b)),
      le_idFromKey = (\<lambda>k. Inr ''peer''), le_new = (\<lambda>_. None), le_addrs = (\<lambda>_. ''[]''), le_hostID = ''self'',
      le_writeFile = (\<lambda>_. None), le_stat = (\<lambda>f h. 3 \<le> length (filter (\<lambda>e. e = LvTick) h)),
      le_done = (\<lambda>h. if 10 \<le> length (filter (\<lambda>e. e = LvTick) h) then Some (External ''context deadline exceeded'') else None),
      le_maddr = Inr, le_info = Inr, le_connect = (\<lambda>_. None), le_ping = (\<lambda>_. Inr 5), le_reserve = (\<lambda>_. None),
      le_fetch = (\<lambda>_. demo_fetch (\<lambda>_. ([0, 0, 0, 1, 9], None))), le_closePeer = (\<lambda>_. None),
      le_duration = (\<lambda>_. ''5ns''), le_quote = id, le_fmtv = (\<lambda>_. []), le_decode = (\<lambda>_. Inl (External ''json'')),
      le_scan = (\<lambda>_. Inr ([], None)), le_readFile = (\<lambda>_. Inr [])\<rparr>"

theorem dial_runs_rounds_witness:
  "\<exists>d r. lab_dial demo_lab ''/ip4/10.0.0.1'' 2 [] = Some (LvPingService # d, r) \<and>
    prefix (calls_of d) (round_calls ''/ip4/10.0.0.1'' 1 @ round_calls ''/ip4/10.0.0.1'' 2)"
proof -
  have two: "[1..2::int] = [1, 2]"
    by code_simp
  obtain d r where d: "lab_dial demo_lab ''/ip4/10.0.0.1'' 2 [] = Some ([] @ LvPingService # d, r)"
    "case r of
       Inr _ \<Rightarrow> calls_of d = concat (map (round_calls ''/ip4/10.0.0.1'') [1..2])
     | Inl err \<Rightarrow> \<exists>i p. 1 \<le> i \<and> i \<le> 2 \<and> round_error demo_lab i err \<and> prefix p (round_calls ''/ip4/10.0.0.1'' i) \<and>
         calls_of d = concat (map (round_calls ''/ip4/10.0.0.1'') [1..i - 1]) @ p"
    using dial_runs_rounds [of "''/ip4/10.0.0.1''" demo_lab "''/ip4/10.0.0.1''" "''/ip4/10.0.0.1''" 2 "[]"]
    by (auto simp: demo_lab_def)
  have "prefix (calls_of d) (round_calls ''/ip4/10.0.0.1'' 1 @ round_calls ''/ip4/10.0.0.1'' 2)"
  proof (cases r)
    case (Inl err)
    then obtain i p where i: "1 \<le> i" "i \<le> 2" "prefix p (round_calls ''/ip4/10.0.0.1'' i)"
      "calls_of d = concat (map (round_calls ''/ip4/10.0.0.1'') [1..i - 1]) @ p"
      using d(2) by auto
    then have "i = 1 \<or> i = 2"
      by linarith
    then show ?thesis
      using i by (auto intro: prefix_prefix)
  qed (use d(2) two in simp)
  with d(1) show ?thesis
    by auto
qed

section \<open>Serving\<close>

definition serve_wait :: "('key, 'any) lab_env \<Rightarrow> string \<Rightarrow> ('key lab_event, unit) run" where
  "serve_wait E doneFile =
     thenR (wrapR ''serve: '' (poll (done_file E doneFile) (le_done E) LvTick)) (logf ''peer reported done'')"

lemma serve_wait_ends:
  assumes "expires k (le_done E) LvTick"
  shows "\<exists>j r. j \<le> k \<and> serve_wait E doneFile h = Some (h @ replicate j LvTick @
      (if r = Inr () then [LvPrint (''DPILAB peer reported done'' @ [CHR 0x0A])] else []), r) \<and>
    (r = Inr () \<longrightarrow> doneFile \<noteq> [] \<and> le_stat E doneFile (h @ replicate j LvTick))"
proof -
  obtain j r where j: "j \<le> k" "poll (done_file E doneFile) (le_done E) LvTick h = Some (h @ replicate j LvTick, r)"
    and r: "\<And>a. r = Inr a \<Longrightarrow> done_file E doneFile (h @ replicate j LvTick) = Some a"
    using poll_deadline [OF assms] by metis
  show ?thesis
  proof (cases r)
    case (Inl err)
    then show ?thesis
      using j by (intro exI [of _ j] exI [of _ "Inl (Errorf ''serve: '' err)"]) (simp add: serve_wait_def run_defs)
  next
    case (Inr u)
    then show ?thesis
      using j r [OF Inr] by (intro exI [of _ j] exI [of _ "Inr ()"])
        (simp add: serve_wait_def run_defs logf_def done_file_def split: if_splits)
  qed
qed

text \<open>The serving node ends: when the context expires within \<open>k\<close> ticks it returns after at most \<open>k\<close>
  polls, whatever happens. It reports success exactly if it found the done file, which needs one to
  be named, and it tells its address, when asked to, before it starts to wait.\<close>

theorem serve_terminates:
  fixes E :: "('key, 'any) lab_env"
  assumes "expires k (le_done E) LvTick"
  shows "\<exists>j w r. serve E ip port readyFile doneFile h = Some (h @ LvSetHandler bulkProto # w @ replicate j LvTick @
      (if r = Inr () then [LvPrint (''DPILAB peer reported done'' @ [CHR 0x0A])] else []), r) \<and> j \<le> k \<and>
    (readyFile = [] \<longrightarrow> w = []) \<and>
    (readyFile \<noteq> [] \<longrightarrow> (\<exists>w'. w = LvWriteFile readyFile (listen_maddr E ip port @ [CHR 0x0A]) # w')) \<and>
    (r = Inr () \<longrightarrow> doneFile \<noteq> [] \<and> le_stat E doneFile (h @ LvSetHandler bulkProto # w @ replicate j LvTick))"
proof (cases "readyFile = []")
  case True
  then have "serve E ip port readyFile doneFile h = serve_wait E doneFile (h @ [LvSetHandler bulkProto])"
    by (simp add: serve_def serve_wait_def run_defs)
  with serve_wait_ends [OF assms, of doneFile "h @ [LvSetHandler bulkProto]"] obtain j r where "j \<le> k"
    "serve E ip port readyFile doneFile h = Some ((h @ [LvSetHandler bulkProto]) @ replicate j LvTick @
      (if r = Inr () then [LvPrint (''DPILAB peer reported done'' @ [CHR 0x0A])] else []), r)"
    "r = Inr () \<longrightarrow> doneFile \<noteq> [] \<and> le_stat E doneFile ((h @ [LvSetHandler bulkProto]) @ replicate j LvTick)"
    by auto
  with True show ?thesis
    by (intro exI [of _ j] exI [of _ "[]"] exI [of _ r]) simp
next
  case False
  define wf :: "'key lab_event" where "wf = LvWriteFile readyFile (listen_maddr E ip port @ [CHR 0x0A])"
  define told :: "'key lab_event" where "told = LvPrint (''DPILAB listening maddr='' @ listen_maddr E ip port @ [CHR 0x0A])"
  show ?thesis
  proof (cases "le_writeFile E (h @ [LvSetHandler bulkProto, wf])")
    case None
    then have "serve E ip port readyFile doneFile h =
        serve_wait E doneFile (h @ LvSetHandler bulkProto # [wf, told])"
      using False by (simp add: serve_def serve_wait_def run_defs logf_def wf_def told_def)
    with serve_wait_ends [OF assms, of doneFile "h @ LvSetHandler bulkProto # [wf, told]"] obtain j r where "j \<le> k"
      "serve E ip port readyFile doneFile h = Some ((h @ LvSetHandler bulkProto # [wf, told]) @ replicate j LvTick @
        (if r = Inr () then [LvPrint (''DPILAB peer reported done'' @ [CHR 0x0A])] else []), r)"
      "r = Inr () \<longrightarrow> doneFile \<noteq> [] \<and> le_stat E doneFile ((h @ LvSetHandler bulkProto # [wf, told]) @ replicate j LvTick)"
      by auto
    with False show ?thesis
      by (intro exI [of _ j] exI [of _ "[wf, told]"] exI [of _ r]) (simp add: wf_def)
  next
    case (Some err)
    then show ?thesis
      using False by (intro exI [of _ 0] exI [of _ "[wf]"] exI [of _ "Inl err"])
        (simp add: serve_def run_defs wf_def)
  qed
qed

theorem serve_terminates_witness:
  "\<exists>j w r. serve demo_lab ''10.0.0.2'' 4001 [] ''done'' [] = Some ([] @ LvSetHandler bulkProto # w @ replicate j LvTick @
      (if r = Inr () then [LvPrint (''DPILAB peer reported done'' @ [CHR 0x0A])] else []), r) \<and> j \<le> 10 \<and> w = []"
proof -
  have "expires 10 (le_done demo_lab) LvTick"
    unfolding expires_def by (auto simp: demo_lab_def intro!: exI [of _ 10])
  from serve_terminates [OF this, of "''10.0.0.2''" 4001 "[]" "''done''" "[]"] show ?thesis
    by blast
qed

section \<open>The process\<close>

lemma orFatal_Inr_iff [run_simps]: "orFatal E m h = Some (h', Inr a) \<longleftrightarrow> m h = Some (h', Inr a)"
  by (auto simp: orFatal_def fatal_def run_simps split: option.splits sum.splits prod.splits)

lemma orFatal_InlD:
  "orFatal E m h = Some (h', Inl err) \<Longrightarrow>
    \<exists>h1. m h = Some (h1, Inl err) \<and> h' = h1 @ [LvExit (''DPILAB fatal: '' @ error_text (le_quote E) err @ [CHR 0x0A])]"
  by (auto simp: orFatal_def fatal_def run_simps split: option.splits sum.splits prod.splits)

lemma finish_role_Inr_iff [run_simps]:
  "finish_role E m h = Some (h', Inr u) \<longleftrightarrow>
    (\<exists>h1. m h = Some (h1, Inr ()) \<and> h' = h1 @ [LvPrint (''DPILAB RESULT=PASS'' @ [CHR 0x0A]), LvHostClose])"
  by (auto simp: finish_role_def fatal_def logf_def run_simps split: option.splits sum.splits prod.splits)

lemma finish_role_InlD:
  "finish_role E m h = Some (h', Inl err) \<Longrightarrow>
    \<exists>h1. m h = Some (h1, Inl err) \<and>
      h' = h1 @ [LvPrint (''DPILAB RESULT=FAIL '' @ error_text (le_quote E) err @ [CHR 0x0A]),
        LvExit (''DPILAB fatal: '' @ error_text (le_quote E) err @ [CHR 0x0A])]"
  by (auto simp: finish_role_def fatal_def logf_def run_simps split: option.splits sum.splits prod.splits)

text \<open>What a node has done when it starts its role.\<close>

definition node_up :: "('key, 'any) lab_env \<Rightarrow> flags \<Rightarrow> 'key \<Rightarrow> node_transport \<Rightarrow> 'key lab_event list" where
  "node_up E fl key nt =
     (let new = LvNew (relay_node_options (le_sha256 E) key (fl_ip fl) (fl_port fl) nt)
      in [new, LvPrint (''DPILAB node up id='' @ le_hostID E @ '' transport='' @ fl_transport fl @ '' addrs='' @
            le_addrs E [new] @ [CHR 0x0A])])"

lemma lab_main_Inr:
  assumes "lab_main E fl [] = Some (h', Inr u)" and "fl_role fl \<noteq> ''verify''" and "fl_role fl \<noteq> ''print-id''"
  obtains key nt h1 where "identity (le_sha256 E) (le_keyFromSeed E) (fl_seed fl) = Inr key"
    and "transport_option (le_quote E) (fl_transport fl) (fl_sni fl) = Inr nt"
    and "run_role E fl (node_up E fl key nt) = Some (h1, Inr ())"
    and "h' = h1 @ [LvPrint (''DPILAB RESULT=PASS'' @ [CHR 0x0A]), LvHostClose]"
proof -
  have "\<exists>key nt h1. Inr key = identity (le_sha256 E) (le_keyFromSeed E) (fl_seed fl) \<and>
      Inr nt = transport_option (le_quote E) (fl_transport fl) (fl_sni fl) \<and>
      run_role E fl (node_up E fl key nt) = Some (h1, Inr ()) \<and>
      h' = h1 @ [LvPrint (''DPILAB RESULT=PASS'' @ [CHR 0x0A]), LvHostClose]"
    using assms by (auto simp: lab_main_def newRelayNode_def logf_def run_simps node_up_def Let_def)
  then show ?thesis
    by (metis that)
qed

lemma run_role_known: "run_role E fl h0 = Some (h1, Inr u) \<Longrightarrow> fl_role fl = ''serve'' \<or> fl_role fl = ''dial''"
  by (auto simp: run_role_def run_simps split: if_splits)

text \<open>A node process reports what happened. If it ends without an error, it built one host from the
  lab's fixed option list, whose transport is the one the flags name, ran its role to success, and
  printed PASS as its last line before closing the host. If it ends with an error, its last act is to
  exit with status 1 and the text of that error, and the host is not closed.\<close>

theorem lab_main_reports:
  fixes E :: "('key, 'any) lab_env"
  assumes "lab_main E fl [] = Some (h', r)" and "fl_role fl \<noteq> ''verify''" and "fl_role fl \<noteq> ''print-id''"
  shows "case r of
      Inr _ \<Rightarrow> (\<exists>key nt h1. identity (le_sha256 E) (le_keyFromSeed E) (fl_seed fl) = Inr key \<and>
        transport_option (le_quote E) (fl_transport fl) (fl_sni fl) = Inr nt \<and>
        (fl_role fl = ''serve'' \<or> fl_role fl = ''dial'') \<and> run_role E fl (node_up E fl key nt) = Some (h1, Inr ()) \<and>
        h' = h1 @ [LvPrint (''DPILAB RESULT=PASS'' @ [CHR 0x0A]), LvHostClose])
    | Inl err \<Rightarrow> (\<exists>h1. h' = h1 @ [LvExit (''DPILAB fatal: '' @ error_text (le_quote E) err @ [CHR 0x0A])])"
proof (cases r)
  case (Inr u)
  obtain key nt h1 where "identity (le_sha256 E) (le_keyFromSeed E) (fl_seed fl) = Inr key"
    "transport_option (le_quote E) (fl_transport fl) (fl_sni fl) = Inr nt"
    "run_role E fl (node_up E fl key nt) = Some (h1, Inr ())"
    "h' = h1 @ [LvPrint (''DPILAB RESULT=PASS'' @ [CHR 0x0A]), LvHostClose]"
    using lab_main_Inr [OF assms(1) [unfolded Inr] assms(2,3)] .
  then show ?thesis
    using run_role_known unfolding Inr sum.case by blast
next
  case (Inl err)
  then show ?thesis
    using assms
    by (auto simp: lab_main_def newRelayNode_def logf_def run_simps dest!: orFatal_InlD finish_role_InlD)
qed

definition demo_flags :: flags where
  "demo_flags = default_flags\<lparr>fl_role := ''dial'', fl_seed := ''a''\<rparr>"

theorem lab_main_reports_witness:
  "\<exists>h1. lab_main demo_lab demo_flags [] =
    Some (h1 @ [LvExit (''DPILAB fatal: dial: -target is required'' @ [CHR 0x0A])],
      Inl (External ''dial: -target is required''))"
proof -
  obtain h' where run: "lab_main demo_lab demo_flags [] = Some (h', Inl (External ''dial: -target is required''))"
    by (simp add: lab_main_def newRelayNode_def logf_def finish_role_def orFatal_def fatal_def run_role_def lab_dial_def
        identity_def transport_option_def demo_flags_def default_flags_def demo_lab_def run_defs)
  have "fl_role demo_flags \<noteq> ''verify''" "fl_role demo_flags \<noteq> ''print-id''"
    by (simp_all add: demo_flags_def)
  from lab_main_reports [OF run this] show ?thesis
    using run by (auto simp: demo_lab_def)
qed

end
