(* ===== verification/DpiLab.thy ===== *)
theory DpiLab
  imports DpiClaims DpiNodeClaims
begin

text \<open>
  The DPI lab as a whole (\<^verbatim>\<open>src/dpilab\<close>): the judging process from its files to its exit status, and
  a dialling process against a node that serves the bulk protocol.
\<close>

section \<open>The judging process\<close>

text \<open>The flows of a file: every line that is not blank, decoded.\<close>

definition file_flows :: "(string \<Rightarrow> goerror + 'any ndpi_flow) \<Rightarrow> string list \<Rightarrow> 'any ndpi_flow list \<Rightarrow> bool" where
  "file_flows decode lines flows \<longleftrightarrow>
     list_all2 (\<lambda>line f. decode line = Inr f) (filter (\<lambda>l. l \<noteq> []) (map strings_TrimSpace lines)) flows"

lemma decode_lines_iff:
  "decode_lines decode path lines scanErr fs = (flows, None) \<longleftrightarrow>
     scanErr = None \<and> (\<exists>gs. flows = fs @ gs \<and> file_flows decode lines gs)"
proof (induction lines arbitrary: fs)
  case Nil
  then show ?case
    by (auto simp: file_flows_def)
next
  case (Cons line lines)
  show ?case
  proof (cases "strings_TrimSpace line = []")
    case True
    then show ?thesis
      by (simp add: Cons.IH file_flows_def)
  next
    case False
    then show ?thesis
      by (auto simp: Cons.IH file_flows_def Let_def list_all2_Cons1 split: sum.split)
  qed
qed

lemma file_flows_unique: "file_flows decode lines fs \<Longrightarrow> file_flows decode lines gs \<Longrightarrow> gs = fs"
  unfolding file_flows_def by (auto simp: list_all2_conv_all_nth intro!: nth_equalityI)

lemma loadFlows_iff:
  "loadFlows decode scan path = (flows, None) \<longleftrightarrow>
     (\<exists>lines. scan path = Inr (lines, None) \<and> file_flows decode lines flows)"
  by (auto simp: loadFlows_def decode_lines_iff split: sum.split prod.split)

text \<open>A green verdict on the flows \<open>flows\<close>.\<close>

definition green :: "flags \<Rightarrow> goerror + string \<Rightarrow> 'any ndpi_flow list \<Rightarrow> bool" where
  "green fl logBody flows \<longleftrightarrow>
     (let fs = filter (\<lambda>f. onLabWire f (fl_wireA fl) (fl_wireB fl) (fl_port fl)) flows
      in fl_minFlows fl \<le> int (length fs) \<and> fl_minShakes fl \<le> count_syns fs \<and>
         (\<forall>f \<in> set fs. masterProto f = ''TLS'' \<and> strings_Contains (confidenceOf f) ''DPI'' \<and>
            fst ` set (nf_FlowRisk f) \<subseteq> {''5'', ''51'', ''48'', ''50'', ''49'', ''46''}) \<and>
         (fl_ndpiLog fl \<noteq> [] \<longrightarrow>
           (case logBody of
              Inl err \<Rightarrow> False
            | Inr body \<Rightarrow>
                (\<exists>line \<in> set (strings_Split (CHR 0x0A) body).
                   strings_Contains line (fl_wireA fl) \<and> strings_Contains line (fl_wireB fl) \<and>
                   (\<exists>label \<in> set browserLabels. strings_Contains line label)))))"

text \<open>The files a verdict on \<open>flows\<close> rests on could be read, and it is the one the arm asks for.\<close>

definition log_readable :: "flags \<Rightarrow> goerror + string \<Rightarrow> bool" where
  "log_readable fl logBody \<longleftrightarrow> fl_ndpiLog fl = [] \<or> (\<exists>body. logBody = Inr body)"

definition expected_verdict :: "flags \<Rightarrow> goerror + string \<Rightarrow> 'any ndpi_flow list \<Rightarrow> bool" where
  "expected_verdict fl logBody flows \<longleftrightarrow> log_readable fl logBody \<and>
     (if fl_expect fl = ''browsing'' then green fl logBody flows
      else fl_expect fl = ''not-browsing'' \<and> \<not> green fl logBody flows)"

lemma runVerify_expected:
  "snd (runVerify q fmtv (flows, None) logBody (fl_flows fl) (fl_ndpiLog fl) (fl_wireA fl) (fl_wireB fl)
      (fl_port fl) (fl_minFlows fl) (fl_minShakes fl) (fl_expect fl)) = None \<longleftrightarrow> expected_verdict fl logBody flows"
proof (cases "log_readable fl logBody")
  case False
  then show ?thesis
    by (cases logBody) (auto simp: log_readable_def expected_verdict_def runVerify_def browserLabel_def Let_def)
next
  case True
  then have "\<exists>body. fl_ndpiLog fl \<noteq> [] \<longrightarrow> logBody = Inr body"
    by (auto simp: log_readable_def)
  then obtain body where body: "fl_ndpiLog fl \<noteq> [] \<Longrightarrow> logBody = Inr body"
    by blast
  let ?v = "findings q flows body (fl_ndpiLog fl) (fl_wireA fl) (fl_wireB fl) (fl_port fl) (fl_minFlows fl) (fl_minShakes fl)"
  have green: "vd_fails ?v = [] \<longleftrightarrow> green fl logBody flows"
    using findings_clean [of q flows body "fl_ndpiLog fl" "fl_wireA fl" "fl_wireB fl" "fl_port fl" "fl_minFlows fl" "fl_minShakes fl"]
      body
    by (auto simp: green_def Let_def flow_ok_def allowed_risks_def recognised_def split: sum.split)
  have "fl_expect fl \<noteq> ''browsing'' \<Longrightarrow> fl_expect fl \<noteq> ''not-browsing'' \<Longrightarrow> snd (report q (fl_expect fl) ?v) \<noteq> None"
    by (simp add: report_def Let_def)
  then have "snd (report q (fl_expect fl) ?v) = None \<longleftrightarrow> expected_verdict fl logBody flows"
    using True green report_result [of q ?v] unfolding expected_verdict_def
    by (cases "fl_expect fl = ''browsing''"; cases "fl_expect fl = ''not-browsing''") simp_all
  then show ?thesis
    by (subst runVerify_result [OF body])
qed

text \<open>C15 The exit status of the judging process tells exactly this. In either arm, the file of flows could be
  read to its end, every line of it that is not blank is a flow, and the log (if one is named) could be
  read. In the camouflage arm (\<^verbatim>\<open>-expect browsing\<close>) the verdict is green: there were enough flows and SYNs
  on the lab's address pair and port, nDPI called each of them TLS by inspection with no risk outside the
  deployment table, and the log names both hosts and a browser on one line. In the control arm
  (\<^verbatim>\<open>-expect not-browsing\<close>) it is not green. Any other \<^verbatim>\<open>-expect\<close> is an error. On an error the process
  exits with status 1 after it has printed what it found.\<close>

theorem verify_exit_status:
  fixes E :: "('key, 'b) lab_env"
  assumes "fl_role fl = ''verify''"
  shows "\<exists>out r. lab_main E fl [] = Some (LvPrint out # (case r of
        Inl err \<Rightarrow> [LvExit (''DPILAB fatal: '' @ error_text (le_quote E) err @ [CHR 0x0A])] | Inr _ \<Rightarrow> []), r) \<and>
    (r = Inr () \<longleftrightarrow> (\<exists>lines flows. le_scan E (fl_flows fl) = Inr (lines, None) \<and>
      file_flows (le_decode E) lines flows \<and> log_readable fl (le_readFile E (fl_ndpiLog fl)) \<and>
      (if fl_expect fl = ''browsing'' then green fl (le_readFile E (fl_ndpiLog fl)) flows
       else fl_expect fl = ''not-browsing'' \<and> \<not> green fl (le_readFile E (fl_ndpiLog fl)) flows)))"
proof -
  let ?load = "loadFlows (le_decode E) (le_scan E) (fl_flows fl)"
  obtain out res where v: "runVerify (le_quote E) (le_fmtv E) ?load (le_readFile E (fl_ndpiLog fl)) (fl_flows fl)
      (fl_ndpiLog fl) (fl_wireA fl) (fl_wireB fl) (fl_port fl) (fl_minFlows fl) (fl_minShakes fl) (fl_expect fl) = (out, res)"
    by (rule prod.exhaust)
  obtain flows e where load: "?load = (flows, e)"
    by (rule prod.exhaust)
  have loaded: "(\<exists>lines. le_scan E (fl_flows fl) = Inr (lines, None) \<and> file_flows (le_decode E) lines fs) \<longleftrightarrow>
      e = None \<and> fs = flows" for fs
    using load loadFlows_iff [of "le_decode E" "le_scan E" "fl_flows fl" fs] by simp blast
  have "res = None \<longleftrightarrow> e = None \<and> expected_verdict fl (le_readFile E (fl_ndpiLog fl)) flows"
  proof (cases e)
    case None
    then show ?thesis
      using v load runVerify_expected [of "le_quote E" "le_fmtv E" flows "le_readFile E (fl_ndpiLog fl)" fl] by simp
  next
    case (Some err)
    then show ?thesis
      using v load by (auto simp: runVerify_def)
  qed
  also have "\<dots> \<longleftrightarrow> (\<exists>lines flows. le_scan E (fl_flows fl) = Inr (lines, None) \<and>
      file_flows (le_decode E) lines flows \<and> expected_verdict fl (le_readFile E (fl_ndpiLog fl)) flows)"
  proof -
    have "(\<exists>lines fs. A lines \<and> F lines fs \<and> g fs) \<longleftrightarrow> (\<exists>fs. (\<exists>lines. A lines \<and> F lines fs) \<and> g fs)"
      for A :: "string list \<Rightarrow> bool" and F and g :: "'b ndpi_flow list \<Rightarrow> bool"
      by blast
    then show ?thesis
      by (simp add: loaded)
  qed
  finally have exact: "res = None \<longleftrightarrow> (\<exists>lines flows. le_scan E (fl_flows fl) = Inr (lines, None) \<and>
      file_flows (le_decode E) lines flows \<and> expected_verdict fl (le_readFile E (fl_ndpiLog fl)) flows)" .
  have "lab_main E fl [] = orFatal E (verify_role E fl) []"
    by (simp add: lab_main_def assms)
  also have "verify_role E fl [] = Some ([LvPrint out], case res of Some err \<Rightarrow> Inl err | None \<Rightarrow> Inr ())"
    by (simp add: verify_role_def v run_defs)
  then have "orFatal E (verify_role E fl) [] = Some (LvPrint out # (case res of
      Some err \<Rightarrow> [LvExit (''DPILAB fatal: '' @ error_text (le_quote E) err @ [CHR 0x0A])] | None \<Rightarrow> []),
      case res of Some err \<Rightarrow> Inl err | None \<Rightarrow> Inr ())"
    by (simp add: orFatal_def fatal_def run_defs split: option.split)
  finally show ?thesis
    unfolding exact [symmetric] expected_verdict_def [symmetric]
    by (intro exI [of _ out] exI [of _ "case res of Some err \<Rightarrow> Inl err | None \<Rightarrow> Inr ()"])
      (simp split: option.split)
qed

definition demo_judge :: "string \<Rightarrow> (nat, unit) lab_env" where
  "demo_judge ip = demo_lab\<lparr>le_scan := (\<lambda>_. Inr (['' {}'', ''  ''], None)),
     le_decode := (\<lambda>line. if line = ''{}'' then Inr (demo_flow\<lparr>nf_SrcIP := ip\<rparr>) else Inl (External ''json''))\<rparr>"

definition demo_judge_flags :: flags where
  "demo_judge_flags = default_flags\<lparr>fl_role := ''verify'', fl_flows := ''flows.json'', fl_wireA := ''10.77.0.11'',
     fl_wireB := ''10.77.0.12'', fl_minShakes := 5\<rparr>"

text \<open>The same flow on the lab's address pair, and from another host.\<close>

theorem verify_exit_status_witness:
  "(\<exists>out. lab_main (demo_judge ''10.77.0.12'') demo_judge_flags [] = Some ([LvPrint out], Inr ())) \<and>
   (\<exists>h err. lab_main (demo_judge ''10.0.0.9'') demo_judge_flags [] = Some (h, Inl err)) \<and>
   (\<exists>out. lab_main (demo_judge ''10.0.0.9'') (demo_judge_flags\<lparr>fl_expect := ''not-browsing''\<rparr>) [] = Some ([LvPrint out], Inr ()))"
proof -
  let ?control = "demo_judge_flags\<lparr>fl_expect := ''not-browsing''\<rparr>"
  have fl: "fl_role demo_judge_flags = ''verify''" "fl_expect demo_judge_flags = ''browsing''"
    by (simp_all add: demo_judge_flags_def default_flags_def)
  have lines: "le_scan (demo_judge ip) f = Inr (['' {}'', ''  ''], None)" for ip f
    by (simp add: demo_judge_def)
  have trims: "strings_TrimSpace '' {}'' = ''{}''" "strings_TrimSpace ''  '' = []"
    by code_simp+
  have flows: "file_flows (le_decode (demo_judge ip)) ['' {}'', ''  ''] fs \<longleftrightarrow> fs = [demo_flow\<lparr>nf_SrcIP := ip\<rparr>]" for ip fs
    by (auto simp: file_flows_def trims demo_judge_def list_all2_Cons1)
  have fields: "fl_port demo_judge_flags = 4001" "fl_minFlows demo_judge_flags = 1" "fl_minShakes demo_judge_flags = 5"
    "fl_ndpiLog demo_judge_flags = []" "fl_wireA demo_judge_flags = ''10.77.0.11''" "fl_wireB demo_judge_flags = ''10.77.0.12''"
    by (simp_all add: demo_judge_flags_def default_flags_def)
  have "masterProto demo_flow = ''TLS''" "strings_Contains (confidenceOf demo_flow) ''DPI''"
    "onLabWire demo_flow ''10.77.0.11'' ''10.77.0.12'' 4001" "count_syns [demo_flow] = 5"
    "fst ` set (nf_FlowRisk demo_flow) \<subseteq> {''5'', ''51'', ''48'', ''50'', ''49'', ''46''}"
    "\<not> onLabWire (demo_flow\<lparr>nf_SrcIP := ''10.0.0.9''\<rparr>) ''10.77.0.11'' ''10.77.0.12'' 4001"
    "demo_flow\<lparr>nf_SrcIP := ''10.77.0.12''\<rparr> = demo_flow"
    by (code_simp, code_simp, code_simp, code_simp, simp add: demo_flow_def, code_simp, simp add: demo_flow_def)
  then have g: "green demo_judge_flags body [demo_flow\<lparr>nf_SrcIP := ''10.77.0.12''\<rparr>]"
    "\<not> green demo_judge_flags body [demo_flow\<lparr>nf_SrcIP := ''10.0.0.9''\<rparr>]"
    "\<not> green ?control body [demo_flow\<lparr>nf_SrcIP := ''10.0.0.9''\<rparr>]" for body
    by (simp_all add: green_def fields)
  obtain h r where bad: "lab_main (demo_judge ''10.0.0.9'') demo_judge_flags [] = Some (h, r)" "r \<noteq> Inr ()"
    using verify_exit_status [OF fl(1), of "demo_judge ''10.0.0.9''"] g(2) fl(2) by (auto simp: lines flows)
  then obtain err where "r = Inl err"
    by (cases r) auto
  moreover have "\<exists>out. lab_main (demo_judge ''10.77.0.12'') demo_judge_flags [] = Some ([LvPrint out], Inr ())"
    using verify_exit_status [OF fl(1), of "demo_judge ''10.77.0.12''"] g(1) fl(2) fields(4)
    by (auto simp: lines flows log_readable_def)
  moreover have "\<exists>out. lab_main (demo_judge ''10.0.0.9'') ?control [] = Some ([LvPrint out], Inr ())"
    using verify_exit_status [of ?control "demo_judge ''10.0.0.9''"] g(3) fl(1) fields(4)
    by (auto simp: lines flows log_readable_def)
  ultimately show ?thesis
    using bad(1) by blast
qed

section \<open>A dialling node and a serving node\<close>

text \<open>
  The stream of a transfer ends at the handler \<^verbatim>\<open>serve\<close> installs, and both ends' writes and random
  sources work.
\<close>

definition served :: "fetch_env \<Rightarrow> bool" where
  "served F \<longleftrightarrow> fe_NewStream F = None \<and> fe_SetDeadline F = None \<and> fe_CloseWrite F = None \<and>
     accepts_all (fe_write F) \<and> (\<exists>f. fe_rand F requestSize = Inr f) \<and>
     (\<exists>q wr rnd g. accepts_all wr \<and> rnd responseSize = Inr g \<and>
        fe_reply F = (\<lambda>sent. (sm_out (fst (bulk_handler q wr rnd (new_stream\<lparr>sm_in := sent\<rparr>))), None)))"

text \<open>Every call of the dialling node succeeds, and its transfers are served.\<close>

definition calm :: "('key, 'any) lab_env \<Rightarrow> bool" where
  "calm E \<longleftrightarrow> (\<forall>h. le_new E h = None \<and> le_connect E h = None \<and> (\<exists>rtt. le_ping E h = Inr rtt) \<and>
     le_reserve E h = None \<and> le_closePeer E h = None \<and> le_done E h = None \<and> served (le_fetch E h))"

lemma fetch_served: "served F \<Longrightarrow> \<exists>s. fetch F = (Some s, 192 * 1024, None)"
  unfolding served_def by (elim conjE exE) (drule (7) bulk_exchange, blast)

definition transfer_line :: "int \<Rightarrow> string \<Rightarrow> string" where
  "transfer_line i rtt = ''DPILAB event=transfer round='' @ itoa i @ '' bytes=196608 rtt='' @ rtt @ [CHR 0x0A]"

lemma calm_iteration:
  fixes E :: "('key, 'b) lab_env"
  assumes "calm E"
  shows "\<exists>d. iteration E info i h = Some (h @ d, Inr ()) \<and> (\<exists>rtt. LvPrint (transfer_line i rtt) \<in> set d)"
proof -
  obtain rtt where rtt: "le_ping E (h @ [LvConnect info, LvPing info]) = Inr rtt"
    using assms unfolding calm_def by blast
  have bytes: "itoa 196608 = ''196608''"
    by (simp add: itoa_def digits.simps char_of_def bit_Suc_0_iff)
  have got: "fetch_result E h' = Inr 196608" for h'
    using assms fetch_served [of "le_fetch E h'"] by (auto simp: calm_def fetch_result_def)
  define r :: "'key lab_event list" where "r = (if i = 1 then [LvReserve info, LvPrint (''DPILAB event=reservation peer='' @ info @ [CHR 0x0A])] else [])"
  have "lab_round E info i h = Some (h @ [LvConnect info, LvPing info] @ r @
      [LvFetch info, LvPrint (transfer_line i (le_duration E rtt))], Inr ())"
    using assms rtt got
    by (auto simp: lab_round_def logf_def calm_def r_def transfer_line_def run_defs bytes)
  then have "iteration E info i h = Some (h @ [LvConnect info, LvPing info] @ r @
      [LvFetch info, LvPrint (transfer_line i (le_duration E rtt)), LvClosePeer info, LvClearAddrs info, LvWait], Inr ())"
    using assms by (simp add: iteration_def calm_def run_defs)
  then show ?thesis
    by (intro exI [of _ "[LvConnect info, LvPing info] @ r @
      [LvFetch info, LvPrint (transfer_line i (le_duration E rtt)), LvClosePeer info, LvClearAddrs info, LvWait]"]) auto
qed

lemma calm_rounds:
  assumes "calm E"
  shows "\<exists>d. dial_rounds E info rounds i h = Some (h @ d, Inr ()) \<and>
    (\<forall>j. i \<le> j \<and> j \<le> rounds \<longrightarrow> (\<exists>rtt. LvPrint (transfer_line j rtt) \<in> set d))"
proof (induction "nat (rounds + 1 - i)" arbitrary: i h rule: less_induct)
  case less
  show ?case
  proof (cases "i \<le> rounds")
    case False
    then show ?thesis
      by (auto simp: dial_rounds_step [of E info rounds i] okR_def)
  next
    case True
    obtain d where d: "iteration E info i h = Some (h @ d, Inr ())" "\<exists>rtt. LvPrint (transfer_line i rtt) \<in> set d"
      using calm_iteration [OF assms] by blast
    have "nat (rounds + 1 - (i + 1)) < nat (rounds + 1 - i)"
      using True by simp
    from less.hyps [OF this, of "h @ d"] obtain d' where
      d': "dial_rounds E info rounds (i + 1) (h @ d) = Some ((h @ d) @ d', Inr ())"
        "\<And>j. i + 1 \<le> j \<and> j \<le> rounds \<Longrightarrow> \<exists>rtt. LvPrint (transfer_line j rtt) \<in> set d'"
      by blast
    have "\<exists>rtt. LvPrint (transfer_line j rtt) \<in> set (d @ d')" if "i \<le> j \<and> j \<le> rounds" for j
      using d(2) d'(2) [of j] that by (cases "j = i") auto
    moreover have "dial_rounds E info rounds i h = Some (h @ d @ d', Inr ())"
      using True d(1) d'(1) by (simp add: dial_rounds_step [of E info rounds i] thenR_def bindR_def)
    ultimately show ?thesis
      by blast
  qed
qed

text \<open>C18 The two nodes of the lab fit together: when the library calls of the dialling process succeed and
  its transfer streams end at the handler of a serving node, the process ends without an error, has
  printed a line of 196608 transferred bytes for every round it was asked for, has made the calls of
  the rounds in order, and its last acts are to print PASS and to close the host.\<close>

theorem lab_nodes_complete:
  fixes E :: "('key, 'b) lab_env"
  assumes "calm E" and "fl_role fl = ''dial''" and "fl_target fl \<noteq> []"
    and "identity (le_sha256 E) (le_keyFromSeed E) (fl_seed fl) = Inr key"
    and "transport_option (le_quote E) (fl_transport fl) (fl_sni fl) = Inr nt"
    and "le_maddr E (fl_target fl) = Inr maddr" and "le_info E maddr = Inr info"
  shows "\<exists>d. lab_main E fl [] = Some (node_up E fl key nt @ LvPingService # d @
        [LvPrint (''DPILAB RESULT=PASS'' @ [CHR 0x0A]), LvHostClose], Inr ()) \<and>
    calls_of d = concat (map (round_calls info) [1..fl_rounds fl]) \<and>
    (\<forall>i. 1 \<le> i \<and> i \<le> fl_rounds fl \<longrightarrow> (\<exists>rtt. LvPrint (transfer_line i rtt) \<in> set d))"
proof -
  let ?h = "node_up E fl key nt @ [LvPingService]"
  obtain d where run: "dial_rounds E info (fl_rounds fl) 1 ?h = Some (?h @ d, Inr ())"
    and lines: "\<And>i. 1 \<le> i \<and> i \<le> fl_rounds fl \<Longrightarrow> \<exists>rtt. LvPrint (transfer_line i rtt) \<in> set d"
    using calm_rounds [OF assms(1), of info "fl_rounds fl" 1 ?h] by blast
  have calls: "calls_of d = concat (map (round_calls info) [1..fl_rounds fl])"
    using dial_rounds_ends [OF run] by (auto simp: rounds_end_def)
  have new: "le_new E h = None" for h
    using assms(1) by (simp add: calm_def)
  have role: "run_role E fl (node_up E fl key nt) = Some (?h @ d, Inr ())"
    using assms(2,3,6,7) run by (simp add: run_role_def lab_dial_def run_defs)
  have "lab_main E fl [] = finish_role E (run_role E fl) (node_up E fl key nt)"
    using assms(2,4,5) new
    by (simp add: lab_main_def newRelayNode_def logf_def orFatal_def run_defs node_up_def Let_def)
  also have "\<dots> = Some ((?h @ d) @ [LvPrint (''DPILAB RESULT=PASS'' @ [CHR 0x0A]), LvHostClose], Inr ())"
    using role by (subst finish_role_Inr_iff) blast
  finally show ?thesis
    using calls lines by (intro exI [of _ d]) simp
qed

definition demo_calm :: "(nat, unit) lab_env" where
  "demo_calm = demo_lab\<lparr>le_done := (\<lambda>_. None),
     le_fetch := (\<lambda>_. demo_fetch (\<lambda>sent. (sm_out (fst (bulk_handler id (\<lambda>out b. (length b, None)) (\<lambda>n. Inr (\<lambda>_. 9))
       (new_stream\<lparr>sm_in := sent\<rparr>))), None)))\<rparr>"

theorem lab_nodes_complete_witness:
  "\<exists>h. lab_main demo_calm (demo_flags\<lparr>fl_target := ''/ip4/10.0.0.1''\<rparr>) [] =
      Some (h @ [LvPrint (''DPILAB RESULT=PASS'' @ [CHR 0x0A]), LvHostClose], Inr ()) \<and>
    (\<exists>rtt. LvPrint (transfer_line 5 rtt) \<in> set h)"
proof -
  let ?fl = "demo_flags\<lparr>fl_target := ''/ip4/10.0.0.1''\<rparr>"
  have all: "accepts_all (\<lambda>out b. (length b, None))"
    by (simp add: accepts_all_def)
  have "served (le_fetch demo_calm h)" for h
    unfolding served_def demo_calm_def demo_fetch_def using all by fastforce
  then have calm: "calm demo_calm"
    by (simp add: calm_def demo_calm_def demo_lab_def)
  obtain key nt where "identity (le_sha256 demo_calm) (le_keyFromSeed demo_calm) (fl_seed ?fl) = Inr key"
    "transport_option (le_quote demo_calm) (fl_transport ?fl) (fl_sni ?fl) = Inr nt"
    by (simp add: identity_def transport_option_def demo_flags_def default_flags_def demo_calm_def demo_lab_def)
  moreover have "fl_role ?fl = ''dial''" "fl_target ?fl \<noteq> []" "le_maddr demo_calm (fl_target ?fl) = Inr ''/ip4/10.0.0.1''"
    "le_info demo_calm ''/ip4/10.0.0.1'' = Inr ''/ip4/10.0.0.1''" "fl_rounds ?fl = 5"
    by (simp_all add: demo_flags_def default_flags_def demo_calm_def demo_lab_def)
  ultimately obtain d where "lab_main demo_calm ?fl [] = Some (node_up demo_calm ?fl key nt @ LvPingService # d @
        [LvPrint (''DPILAB RESULT=PASS'' @ [CHR 0x0A]), LvHostClose], Inr ())"
    "\<exists>rtt. LvPrint (transfer_line 5 rtt) \<in> set d"
    using lab_nodes_complete [OF calm, of ?fl key nt "''/ip4/10.0.0.1''" "''/ip4/10.0.0.1''"] by (metis order_refl one_le_numeral)
  then show ?thesis
    by (intro exI [of _ "node_up demo_calm ?fl key nt @ LvPingService # d"]) auto
qed

end
