(* ===== verification/Natlab.thy ===== *)
theory Natlab
  imports LabRun CertChain
begin

text \<open>
  \<^verbatim>\<open>src/natlab/main.go\<close> and \<^verbatim>\<open>src/natlab/options.go\<close>: the node of the hole-punch harness. Its
  configuration comes from the environment variables; the host is built from a fixed list of options;
  a relay waits, a peer reserves a slot, is connected through the relay and must end up with a direct
  connection that a ping uses. Calls on libp2p and the files are events, answered by the environment.
\<close>

section \<open>Environment variables\<close>

definition envStr :: "(string \<Rightarrow> string) \<Rightarrow> string \<Rightarrow> string \<Rightarrow> string" where
  "envStr getenv key def = (let v = strings_TrimSpace (getenv key) in if v \<noteq> [] then v else def)"

definition envInt :: "(string \<Rightarrow> string) \<Rightarrow> string \<Rightarrow> int \<Rightarrow> int" where
  "envInt getenv key def = (case strconv_Atoi (envStr getenv key []) of None \<Rightarrow> def | Some v \<Rightarrow> v)"

definition envBool :: "(string \<Rightarrow> string) \<Rightarrow> string \<Rightarrow> bool" where
  "envBool getenv key = (envStr getenv key [] \<in> {''1'', ''true'', ''yes''})"

text \<open>\<open>parse\<close> is \<^verbatim>\<open>time.ParseDuration\<close>; \<open>None\<close> is its error.\<close>

definition envDuration :: "(string \<Rightarrow> int option) \<Rightarrow> (string \<Rightarrow> string) \<Rightarrow> string \<Rightarrow> int \<Rightarrow> int" where
  "envDuration parse getenv key def = (case parse (envStr getenv key []) of None \<Rightarrow> def | Some d \<Rightarrow> d)"

record nat_config =
  cf_role :: string
  cf_seed :: string
  cf_listenIP :: string
  cf_listenPort :: int
  cf_relayAddr :: string
  cf_targetID :: string
  cf_dialCircuit :: bool
  cf_readyFile :: string
  cf_waitFile :: string
  cf_doneFile :: string
  cf_forcePrivate :: bool
  cf_timeout :: int

definition config_of_env :: "(string \<Rightarrow> int option) \<Rightarrow> (string \<Rightarrow> string) \<Rightarrow> nat_config" where
  "config_of_env parse getenv =
     \<lparr>cf_role = envStr getenv ''NATLAB_ROLE'' [],
      cf_seed = envStr getenv ''NATLAB_SEED'' [],
      cf_listenIP = envStr getenv ''NATLAB_IP'' [],
      cf_listenPort = envInt getenv ''NATLAB_PORT'' 4001,
      cf_relayAddr = envStr getenv ''NATLAB_RELAY'' [],
      cf_targetID = envStr getenv ''NATLAB_TARGET'' [],
      cf_dialCircuit = envBool getenv ''NATLAB_DIAL_CIRCUIT'',
      cf_readyFile = envStr getenv ''NATLAB_READY_FILE'' [],
      cf_waitFile = envStr getenv ''NATLAB_WAIT_FILE'' [],
      cf_doneFile = envStr getenv ''NATLAB_DONE_FILE'' [],
      cf_forcePrivate = envBool getenv ''NATLAB_FORCE_PRIVATE'',
      cf_timeout = envDuration parse getenv ''NATLAB_TIMEOUT'' (120 * time_Second)\<rparr>"

section \<open>Options of the host\<close>

record addr_info =
  ai_ID :: string
  ai_Addrs :: "string list"

record relay_resources =
  rr_LimitDuration :: int
  rr_LimitData :: int
  rr_ReservationTTL :: int
  rr_MaxReservations :: int
  rr_MaxCircuits :: int
  rr_BufferSize :: int
  rr_MaxReservationsPerIP :: int
  rr_MaxReservationsPerASN :: int

definition labDialTimeout :: int where
  "labDialTimeout = 60 * time_Second"

definition labRelayResources :: relay_resources where
  "labRelayResources =
     \<lparr>rr_LimitDuration = 5 * 60 * time_Second, rr_LimitData = 32 * 2 ^ 20, rr_ReservationTTL = time_Hour,
      rr_MaxReservations = 128, rr_MaxCircuits = 16, rr_BufferSize = 4096,
      rr_MaxReservationsPerIP = 8, rr_MaxReservationsPerASN = 32\<rparr>"

definition labPSK_nat :: "(byte list \<Rightarrow> byte list) \<Rightarrow> byte list" where
  "labPSK_nat sha = sha (bytes_of ''natlab-private-network-psk'')"

datatype 'key nat_option =
    NhIdentity 'key
  | NhPrivateNetwork "byte list"
  | NhListenAddr string
  | NhStaticRelays "addr_info list" int int
  | NhNothing
  | NhDialTimeout int
  | NhSwarmDialTimeouts int int
  | NhCamouflageTransport
  | NhPing bool
  | NhSecurityNoise
  | NhAutoNATv2
  | NhEnableRelay
  | NhRelayService relay_resources
  | NhHolePunching
  | NhHolePunchingTraced
  | NhNATService
  | NhNATPortMap
  | NhForceReachabilityPublic
  | NhForceReachabilityPrivate

definition commonOptions :: "'key nat_option list" where
  "commonOptions =
     [NhDialTimeout labDialTimeout, NhSwarmDialTimeouts labDialTimeout labDialTimeout, NhCamouflageTransport,
      NhPing True, NhSecurityNoise, NhAutoNATv2, NhEnableRelay, NhRelayService labRelayResources, NhHolePunching,
      NhNATService, NhNATPortMap]"

text \<open>The loop of \<^verbatim>\<open>staticRelays\<close>: the first entry of the node itself is deleted.\<close>

fun delete_self :: "string \<Rightarrow> addr_info list \<Rightarrow> addr_info list" where
  "delete_self self [] = []"
| "delete_self self (info # static) = (if ai_ID info = self then static else info # delete_self self static)"

definition staticRelays :: "addr_info list \<Rightarrow> string \<Rightarrow> 'key nat_option" where
  "staticRelays static self =
     (let static' = delete_self self static
      in if length static' = 0 then NhNothing
         else NhStaticRelays static' (5 * 60 * time_Second) (5 * 60 * time_Second))"

definition host_options :: "nat_config \<Rightarrow> (byte list \<Rightarrow> byte list) \<Rightarrow> 'key \<Rightarrow> string \<Rightarrow> addr_info list \<Rightarrow>
    'key nat_option list" where
  "host_options cf sha privKey selfID relays =
     [NhIdentity privKey, NhPrivateNetwork (labPSK_nat sha),
      NhListenAddr (''/ip4/'' @ cf_listenIP cf @ ''/tcp/'' @ itoa (cf_listenPort cf))] @
     (if 0 < length relays then [staticRelays relays selfID] else []) @
     commonOptions @ [NhHolePunchingTraced] @
     (if cf_role cf = ''relay'' then [NhForceReachabilityPublic] else []) @
     (if cf_forcePrivate cf then [NhForceReachabilityPrivate] else [])"

text \<open>The two functions are \<^verbatim>\<open>sha256.Sum256\<close> and \<^verbatim>\<open>ed25519.NewKeyFromSeed\<close> with
  \<^verbatim>\<open>UnmarshalEd25519PrivateKey\<close>.\<close>

definition labIdentity :: "(byte list \<Rightarrow> byte list) \<Rightarrow> (byte list \<Rightarrow> goerror + 'key) \<Rightarrow> string \<Rightarrow> goerror + 'key" where
  "labIdentity sha keyFromSeed sd =
     (if sd = [] then Inl (External ''identity: empty seed'') else keyFromSeed (sha (bytes_of sd)))"

definition isRelayAddr :: "string \<Rightarrow> bool" where
  "isRelayAddr maddr = strings_Contains maddr ''p2p-circuit''"

section \<open>Reports\<close>

definition quote :: "string \<Rightarrow> string" where
  "quote s = [CHR 0x27] @ s @ [CHR 0x27]"

definition addrsString :: "string list \<Rightarrow> string" where
  "addrsString addrs = strings_Join addrs '',''"

definition report_line :: "string list \<Rightarrow> string" where
  "report_line fs = ''NATLAB '' @ strings_Join fs '' '' @ [CHR 0x0A]"

definition show_bool :: "bool \<Rightarrow> string" where
  "show_bool b = (if b then ''true'' else ''false'')"

text \<open>A connection as the harness looks at it, and the lines of \<^verbatim>\<open>connLogger\<close>.\<close>

record nat_conn =
  nc_peer :: string
  nc_local :: string
  nc_remote :: string
  nc_limited :: bool
  nc_direction :: string

definition conn_fields :: "string \<Rightarrow> nat_conn \<Rightarrow> string list" where
  "conn_fields event c =
     [''event='' @ event, ''peer='' @ nc_peer c, ''remote='' @ quote (nc_remote c),
      ''limited='' @ show_bool (nc_limited c), ''direction='' @ nc_direction c]"

definition Connected :: "nat_conn \<Rightarrow> string list" where
  "Connected c = conn_fields ''conn_open'' c"

definition Disconnected :: "nat_conn \<Rightarrow> string list" where
  "Disconnected c = conn_fields ''conn_close'' c"

text \<open>\<^verbatim>\<open>hpTracer\<close>: an event with the result of \<^verbatim>\<open>json.Marshal\<close>, and its outcome if it is the end of a punch.\<close>

record hp_event =
  hp_type :: string
  hp_remote :: string
  hp_payload :: "goerror + string"
  hp_end :: "bool option"

definition Trace :: "bool \<Rightarrow> hp_event \<Rightarrow> bool \<times> string list" where
  "Trace success evt =
     (let payload = (case hp_payload evt of Inl err \<Rightarrow> ''{}'' | Inr p \<Rightarrow> p)
      in ((case hp_end evt of Some True \<Rightarrow> True | _ \<Rightarrow> success),
          [''event=dcutr'', ''type='' @ hp_type evt, ''remote='' @ hp_remote evt, ''evt='' @ quote payload]))"

definition punched :: "hp_event list \<Rightarrow> bool" where
  "punched evts = foldl (\<lambda>b e. fst (Trace b e)) False evts"

section \<open>Calls and answers\<close>

datatype 'key nat_event =
    NvNew "'key nat_option list"
  | NvReport "string list"
  | NvNotify
  | NvConnect addr_info
  | NvTick
  | NvWriteFile string string
  | NvNewStream string
  | NvCloseStream
  | NvPing string
  | NvSignalNotify
  | NvInterruptOrDone
  | NvPrint string
  | NvHostClose
  | NvExit

record 'key nat_env =
  ne_sha256 :: "byte list \<Rightarrow> byte list"
  ne_keyFromSeed :: "byte list \<Rightarrow> goerror + 'key"
  ne_idFromKey :: "'key \<Rightarrow> goerror + string"
  ne_maddr :: "string \<Rightarrow> goerror + string"
  ne_p2pAddr :: "string \<Rightarrow> goerror + addr_info"
  ne_decodeID :: "string \<Rightarrow> goerror + string"
  ne_new :: "'key nat_event list \<Rightarrow> goerror option"
  ne_hostID :: string
  ne_addrs :: "'key nat_event list \<Rightarrow> string list"
  ne_protocols :: "'key nat_event list \<Rightarrow> string list"
  ne_holepunch :: string
  ne_connsToPeer :: "string \<Rightarrow> 'key nat_event list \<Rightarrow> nat_conn list"
  ne_conns :: "'key nat_event list \<Rightarrow> nat_conn list"
  ne_connect :: "'key nat_event list \<Rightarrow> goerror option"
  ne_done :: "'key nat_event list \<Rightarrow> goerror option"
  ne_writeFile :: "'key nat_event list \<Rightarrow> goerror option"
  ne_readFile :: "string \<Rightarrow> 'key nat_event list \<Rightarrow> goerror + string"
  ne_newStream :: "'key nat_event list \<Rightarrow> goerror + string"
  ne_ping :: "'key nat_event list \<Rightarrow> goerror + int"
  ne_duration :: "int \<Rightarrow> string"
  ne_traced :: "'key nat_event list \<Rightarrow> hp_event list"
  ne_isPublic :: "string \<Rightarrow> bool"
  ne_quote :: "string \<Rightarrow> string"

definition report :: "string list \<Rightarrow> ('key nat_event, unit) run" where
  "report fs = emitR (NvReport fs)"

section \<open>The host\<close>

definition addrInfo :: "'key nat_env \<Rightarrow> string \<Rightarrow> goerror + addr_info" where
  "addrInfo E s = (case ne_maddr E s of Inl err \<Rightarrow> Inl err | Inr maddr \<Rightarrow> ne_p2pAddr E maddr)"

definition peerIDFromSeed :: "'key nat_env \<Rightarrow> string \<Rightarrow> goerror + string" where
  "peerIDFromSeed E s =
     (case labIdentity (ne_sha256 E) (ne_keyFromSeed E) s of
        Inl err \<Rightarrow> Inl err
      | Inr privKey \<Rightarrow> ne_idFromKey E privKey)"

definition newHost :: "'key nat_env \<Rightarrow> nat_config \<Rightarrow> addr_info list \<Rightarrow> ('key nat_event, unit) run" where
  "newHost E cf relays =
     bindR (wrapR ''generate key: '' (pureR (labIdentity (ne_sha256 E) (ne_keyFromSeed E) (cf_seed cf)))) (\<lambda>privKey.
     bindR (wrapR ''derive peer id: '' (pureR (ne_idFromKey E privKey))) (\<lambda>selfID.
     wrapR ''new host: '' (tryR (NvNew (host_options cf (ne_sha256 E) privKey selfID relays)) (ne_new E))))"

section \<open>Waiting\<close>

text \<open>The condition of each loop looks at the host; the deadline is that of the context.\<close>

definition circuit_addr :: "'key nat_env \<Rightarrow> 'key nat_event list \<Rightarrow> string option" where
  "circuit_addr E h =
     (case find isRelayAddr (ne_addrs E h) of
        None \<Rightarrow> None
      | Some a \<Rightarrow> Some (a @ ''/p2p/'' @ ne_hostID E))"

definition waitCircuitAddr :: "'key nat_env \<Rightarrow> ('key nat_event, string) run" where
  "waitCircuitAddr E = wrapR ''no relay reservation: '' (poll (circuit_addr E) (ne_done E) NvTick)"

definition dcutr_ready :: "'key nat_env \<Rightarrow> 'key nat_event list \<Rightarrow> unit option" where
  "dcutr_ready E h = (if list_ex (\<lambda>p. p = ne_holepunch E) (ne_protocols E h) then Some () else None)"

definition waitDCUtRReady :: "'key nat_env \<Rightarrow> ('key nat_event, unit) run" where
  "waitDCUtRReady E =
     wrapR ''hole punch service never got a public address: '' (poll (dcutr_ready E) (ne_done E) NvTick)"

definition direct_conn :: "'key nat_env \<Rightarrow> string \<Rightarrow> 'key nat_event list \<Rightarrow> nat_conn option" where
  "direct_conn E target h =
     find (\<lambda>c. \<not> (nc_limited c \<or> isRelayAddr (nc_remote c))) (ne_connsToPeer E target h)"

text \<open>At the deadline every open connection is reported.\<close>

definition dump_conns :: "nat_conn list \<Rightarrow> 'key nat_event list" where
  "dump_conns cs = map (\<lambda>c. NvReport (conn_fields ''conn_dump'' c)) cs"

definition waitDirectConn :: "'key nat_env \<Rightarrow> string \<Rightarrow> ('key nat_event, nat_conn) run" where
  "waitDirectConn E target h =
     (case poll (direct_conn E target) (ne_done E) NvTick h of
        None \<Rightarrow> None
      | Some (h', Inl err) \<Rightarrow>
          Some (h' @ dump_conns (ne_conns E h'), Inl (Errorf (''no direct connection to '' @ target @ '': '') err))
      | Some (h', Inr c) \<Rightarrow> Some (h', Inr c))"

definition file_content :: "'key nat_env \<Rightarrow> string \<Rightarrow> 'key nat_event list \<Rightarrow> string option" where
  "file_content E path h =
     (case ne_readFile E path h of
        Inl err \<Rightarrow> None
      | Inr bt \<Rightarrow> (if 0 < length (strings_TrimSpace bt) then Some (strings_TrimSpace bt) else None))"

definition waitForFile :: "'key nat_env \<Rightarrow> string \<Rightarrow> ('key nat_event, string) run" where
  "waitForFile E path =
     (if path = [] then failR (External ''no -wait-file given'')
      else wrapR (''waiting for '' @ path @ '': '') (poll (file_content E path) (ne_done E) NvTick))"

section \<open>The peer\<close>

definition pingOver :: "'key nat_env \<Rightarrow> string \<Rightarrow> nat_conn \<Rightarrow> ('key nat_event, unit) run" where
  "pingOver E target direct =
     bindR (wrapR ''open ping stream: '' (askR (NvNewStream target) (ne_newStream E))) (\<lambda>used.
     thenR (emitR NvCloseStream)
    (if used \<noteq> nc_remote direct then
       failR (External (''ping stream used '' @ used @ '', not the direct conn '' @ nc_remote direct))
     else
       bindR (wrapR ''ping over direct conn: '' (askR (NvPing target) (ne_ping E))) (\<lambda>rtt.
       report [''event=ping_ok'', ''peer='' @ target, ''rtt='' @ ne_duration E rtt, ''via='' @ quote used])))"

text \<open>\<^verbatim>\<open>runPeer\<close> in four parts: up to the reservation, the connection through the relay, the check of
  the direct connection, and the confirmation to the other peer.\<close>

definition peer_reserve :: "'key nat_env \<Rightarrow> nat_config \<Rightarrow> addr_info \<Rightarrow> ('key nat_event, unit) run" where
  "peer_reserve E cf relayInfo =
     bindR (nowR (ne_addrs E)) (\<lambda>addrs.
     thenR (report [''event=peer_up'', ''id='' @ ne_hostID E, ''addrs='' @ quote (addrsString addrs)])
    (thenR (emitR NvNotify)
    (thenR (wrapR ''connect to relay: '' (tryR (NvConnect relayInfo) (ne_connect E)))
    (thenR (report [''event=relay_connected'', ''relay='' @ ai_ID relayInfo])
    (bindR (waitCircuitAddr E) (\<lambda>circuit.
     thenR (report [''event=reservation'', ''circuit='' @ quote circuit])
    (thenR (waitDCUtRReady E)
    (thenR (report [''event=dcutr_ready''])
           (whenR (cf_readyFile cf \<noteq> [])
             (wrapR ''write ready file: ''
               (tryR (NvWriteFile (cf_readyFile cf) (circuit @ [CHR 0x0A])) (ne_writeFile E))))))))))))"

definition peer_dial :: "'key nat_env \<Rightarrow> nat_config \<Rightarrow> string \<Rightarrow> ('key nat_event, unit) run" where
  "peer_dial E cf target =
     whenR (cf_dialCircuit cf)
       (bindR (waitForFile E (cf_waitFile cf)) (\<lambda>peerCircuit.
        bindR (wrapR ''bad peer circuit addr: '' (pureR (addrInfo E peerCircuit))) (\<lambda>info.
        if ai_ID info \<noteq> target then
          failR (External (''circuit addr is for '' @ ai_ID info @ '', want '' @ target))
        else
          thenR (wrapR ''connect over circuit: '' (tryR (NvConnect info) (ne_connect E)))
                (report [''event=circuit_connected'', ''peer='' @ target]))))"

definition peer_check :: "'key nat_env \<Rightarrow> string \<Rightarrow> ('key nat_event, unit) run" where
  "peer_check E target =
     bindR (waitDirectConn E target) (\<lambda>direct.
     thenR (report [''event=direct_conn'', ''peer='' @ target, ''local='' @ quote (nc_local direct),
       ''remote='' @ quote (nc_remote direct)])
    (if \<not> ne_isPublic E (nc_remote direct) then
       failR (External (''direct conn is not via a public address: '' @ nc_remote direct))
     else
       thenR (pingOver E target direct)
      (bindR (nowR (\<lambda>h. punched (ne_traced E h))) (\<lambda>p.
       report [''RESULT=PASS'', ''role=peer'', ''id='' @ ne_hostID E, ''punched='' @ show_bool p]))))"

definition peer_confirm :: "'key nat_env \<Rightarrow> nat_config \<Rightarrow> ('key nat_event, unit) run" where
  "peer_confirm E cf =
     whenR (cf_doneFile cf \<noteq> [])
       (if cf_dialCircuit cf then
          wrapR ''write done file: '' (tryR (NvWriteFile (cf_doneFile cf) (''done'' @ [CHR 0x0A])) (ne_writeFile E))
        else
          bindR (wrapR ''peer never confirmed the punch: '' (waitForFile E (cf_doneFile cf))) (\<lambda>_. okR ()))"

definition peer_body :: "'key nat_env \<Rightarrow> nat_config \<Rightarrow> addr_info \<Rightarrow> string \<Rightarrow> ('key nat_event, unit) run" where
  "peer_body E cf relayInfo target =
     thenR (peer_reserve E cf relayInfo)
    (thenR (peer_dial E cf target)
    (thenR (peer_check E target)
           (peer_confirm E cf)))"

definition runPeer :: "'key nat_env \<Rightarrow> nat_config \<Rightarrow> ('key nat_event, unit) run" where
  "runPeer E cf =
     bindR (wrapR ''bad NATLAB_RELAY: '' (pureR (addrInfo E (cf_relayAddr cf)))) (\<lambda>relayInfo.
     bindR (wrapR ''bad NATLAB_TARGET: '' (pureR (ne_decodeID E (cf_targetID cf)))) (\<lambda>target.
     thenR (newHost E cf [relayInfo])
           (deferR NvHostClose (peer_body E cf relayInfo target))))"

section \<open>The relay and the process\<close>

definition runRelay :: "'key nat_env \<Rightarrow> nat_config \<Rightarrow> ('key nat_event, unit) run" where
  "runRelay E cf =
     thenR (newHost E cf [])
           (deferR NvHostClose
             (bindR (nowR (ne_addrs E)) (\<lambda>addrs.
              thenR (report [''event=relay_up'', ''id='' @ ne_hostID E, ''addrs='' @ quote (addrsString addrs)])
             (thenR (emitR NvSignalNotify)
                    (emitR NvInterruptOrDone)))))"

definition nat_run :: "'key nat_env \<Rightarrow> nat_config \<Rightarrow> ('key nat_event, unit) run" where
  "nat_run E cf =
     (if cf_role cf = ''relay'' then runRelay E cf
      else if cf_role cf = ''peer'' then runPeer E cf
      else failR (External (''unknown role '' @ ne_quote E (cf_role cf))))"

definition nat_fatal :: "'key nat_env \<Rightarrow> goerror \<Rightarrow> ('key nat_event, 'a) run" where
  "nat_fatal E err =
     thenR (report [''RESULT=FAIL'', ''err='' @ quote (error_text (ne_quote E) err)])
    (thenR (emitR NvExit) (failR err))"

definition nat_main :: "'key nat_env \<Rightarrow> nat_config \<Rightarrow> ('key nat_event, unit) run" where
  "nat_main E cf h =
     (if cf_role cf = ''print-id'' then
        (case peerIDFromSeed E (cf_seed cf) of
           Inl err \<Rightarrow> nat_fatal E err h
         | Inr id' \<Rightarrow> emitR (NvPrint (id' @ [CHR 0x0A])) h)
      else
        (case nat_run E cf h of
           None \<Rightarrow> None
         | Some (h', Inl err) \<Rightarrow>
             thenR (report [''RESULT=FAIL'', ''role='' @ cf_role cf, ''err='' @ quote (error_text (ne_quote E) err)])
            (thenR (emitR NvExit) (failR err)) h'
         | Some (h', Inr u) \<Rightarrow> Some (h', Inr ())))"

end
