(* ===== verification/NatlabClaims.thy ===== *)
theory NatlabClaims
  imports Natlab "HOL-Library.Sublist"
begin

text \<open>
  The properties of the hole-punch harness (\<^verbatim>\<open>src/natlab\<close>): what a reported PASS proves, when it can
  still be followed by an error, that every wait ends with the context, that the files two peers
  exchange are read as they were written, and what host the options build.
\<close>

section \<open>Which parts report\<close>

definition is_pass :: "'key nat_event \<Rightarrow> bool" where
  "is_pass e \<longleftrightarrow> (\<exists>fs. e = NvReport (''RESULT=PASS'' # fs))"

definition passed :: "'key nat_event list \<Rightarrow> bool" where
  "passed h \<longleftrightarrow> (\<exists>e \<in> set h. is_pass e)"

abbreviation silent :: "('key nat_event, 'a) run \<Rightarrow> bool" where
  "silent \<equiv> appends (\<lambda>e. \<not> is_pass e)"

lemma passed_simps [simp]:
  "\<not> passed []" "passed (e # h) \<longleftrightarrow> is_pass e \<or> passed h" "passed (h @ h') \<longleftrightarrow> passed h \<or> passed h'"
  by (auto simp: passed_def)

lemma is_pass_simps [simp]:
  "is_pass (NvReport fs) \<longleftrightarrow> (\<exists>fs'. fs = ''RESULT=PASS'' # fs')" "\<not> is_pass (NvNew os)" "\<not> is_pass NvNotify"
  "\<not> is_pass (NvConnect i)" "\<not> is_pass NvTick" "\<not> is_pass (NvWriteFile p c)" "\<not> is_pass (NvNewStream t)"
  "\<not> is_pass NvCloseStream" "\<not> is_pass (NvPing t)" "\<not> is_pass NvHostClose"
  by (auto simp: is_pass_def)

lemma silentD: "silent m \<Longrightarrow> m h = Some (h', r) \<Longrightarrow> passed h' \<longleftrightarrow> passed h"
  by (elim appendsE) (auto simp: passed_def list_all_iff)

lemma silent_newHost: "silent (newHost E cf relays)"
  unfolding newHost_def by (intro appends_intros) simp_all

lemma silent_reserve: "silent (peer_reserve E cf info)"
  unfolding peer_reserve_def report_def waitCircuitAddr_def waitDCUtRReady_def
  by (intro appends_intros appends_poll) simp_all

lemma silent_waitForFile: "silent (waitForFile E path)"
  unfolding waitForFile_def by (intro appends_intros appends_poll) simp_all

lemma silent_dial: "silent (peer_dial E cf target)"
  unfolding peer_dial_def report_def by (intro appends_intros silent_waitForFile) simp_all

lemma silent_pingOver: "silent (pingOver E target c)"
  unfolding pingOver_def report_def by (intro appends_intros) simp_all

lemma silent_confirm: "silent (peer_confirm E cf)"
  unfolding peer_confirm_def by (intro appends_intros silent_waitForFile) simp_all

lemma dump_conns_silent [simp]: "\<not> passed (dump_conns cs)"
  by (auto simp: passed_def dump_conns_def conn_fields_def)

lemma waitDirectConn_poll:
  assumes "waitDirectConn E target h = Some (h', r)"
  obtains h1 r1 where "poll (direct_conn E target) (ne_done E) NvTick h = Some (h1, r1)"
    and "passed h' \<longleftrightarrow> passed h1" and "\<And>c. r = Inr c \<Longrightarrow> r1 = Inr c \<and> h1 = h'"
  using assms
  by (auto simp: waitDirectConn_def split: option.splits prod.splits sum.splits)

lemma waitDirectConn_silent: "waitDirectConn E target h = Some (h', r) \<Longrightarrow> passed h' \<longleftrightarrow> passed h"
  by (elim waitDirectConn_poll) (auto dest: silentD [OF appends_poll, rotated])

text \<open>The check of the direct connection reports PASS exactly when it succeeds, and then it saw this.\<close>

definition saw_direct :: "'key nat_env \<Rightarrow> string \<Rightarrow> 'key nat_event list \<Rightarrow> bool" where
  "saw_direct E target h \<longleftrightarrow>
     (\<exists>c h0 h1 h2 rtt. prefix h0 h \<and> c \<in> set (ne_connsToPeer E target h0) \<and>
        \<not> nc_limited c \<and> \<not> strings_Contains (nc_remote c) ''p2p-circuit'' \<and> ne_isPublic E (nc_remote c) \<and>
        prefix (h1 @ [NvNewStream target]) h \<and> ne_newStream E (h1 @ [NvNewStream target]) = Inr (nc_remote c) \<and>
        prefix (h2 @ [NvPing target]) h \<and> ne_ping E (h2 @ [NvPing target]) = Inr rtt)"

lemma find_SomeD: "find P xs = Some x \<Longrightarrow> P x \<and> x \<in> set xs"
  by (auto simp: find_Some_iff)

lemma pingOver_Inr:
  assumes "pingOver E target c h = Some (h', Inr u)"
  shows "\<exists>l rtt. h' = h @ [NvNewStream target, NvCloseStream, NvPing target, l] \<and>
    ne_newStream E (h @ [NvNewStream target]) = Inr (nc_remote c) \<and>
    ne_ping E (h @ [NvNewStream target, NvCloseStream, NvPing target]) = Inr rtt"
  using assms by (auto simp: pingOver_def report_def run_simps split: if_splits)

lemma peer_check_Inr:
  assumes "peer_check E target h = Some (h', Inr u)"
  shows "saw_direct E target h' \<and> passed h'"
proof -
  obtain h0 c where w: "waitDirectConn E target h = Some (h0, Inr c)" and pub: "ne_isPublic E (nc_remote c)"
    and rest: "\<exists>l1 h3 l3. pingOver E target c (h0 @ [l1]) = Some (h3, Inr ()) \<and> h' = h3 @ [l3] \<and> is_pass l3"
    using assms by (auto simp: peer_check_def report_def run_simps split: if_splits) blast
  then obtain l1 h3 l3 where "pingOver E target c (h0 @ [l1]) = Some (h3, Inr ())" "h' = h3 @ [l3]" "is_pass l3"
    by blast
  with pingOver_Inr obtain l2 rtt where
    l: "h' = h0 @ l1 # [NvNewStream target, NvCloseStream, NvPing target, l2, l3]" "is_pass l3"
    "ne_newStream E (h0 @ [l1, NvNewStream target]) = Inr (nc_remote c)"
    "ne_ping E (h0 @ [l1, NvNewStream target, NvCloseStream, NvPing target]) = Inr rtt"
    by fastforce
  have "direct_conn E target h0 = Some c"
    using w by (elim waitDirectConn_poll) (auto elim: poll_InrD)
  then have c: "c \<in> set (ne_connsToPeer E target h0)" "\<not> nc_limited c" "\<not> strings_Contains (nc_remote c) ''p2p-circuit''"
    by (auto simp: direct_conn_def isRelayAddr_def dest!: find_SomeD)
  have "prefix h0 h'" "prefix ((h0 @ [l1]) @ [NvNewStream target]) h'"
    "prefix ((h0 @ [l1, NvNewStream target, NvCloseStream]) @ [NvPing target]) h'"
    by (simp_all add: l(1))
  moreover have "passed h'"
    using l(1,2) by simp
  ultimately show ?thesis
    using c pub l(3,4) unfolding saw_direct_def
    by (metis append.assoc append_Cons append_Nil)
qed

lemma peer_check_Inl:
  assumes "peer_check E target h = Some (h', Inl err)"
  shows "passed h' \<longleftrightarrow> passed h"
  using assms unfolding peer_check_def
proof (cases rule: bindR_cases)
  case (1 e)
  then show ?thesis
    by (auto dest: waitDirectConn_silent)
next
  case (2 h1 c)
  then have "passed h1 \<longleftrightarrow> passed h"
    using waitDirectConn_silent by blast
  moreover have "passed h' \<longleftrightarrow> passed h1"
    using 2(2) by (auto simp: run_simps report_def split: if_splits dest!: silentD [OF silent_pingOver])
  ultimately show ?thesis
    by simp
qed

lemma silent_bind_cases:
  assumes "silent m" and "bindR m f h = Some (h', r)" and "\<not> passed h"
  obtains err where "r = Inl err" and "\<not> passed h'"
  | h1 a where "m h = Some (h1, Inr a)" and "f a h1 = Some (h', r)" and "\<not> passed h1"
  using assms(2)
proof (cases rule: bindR_cases)
  case (1 err)
  then show ?thesis
    using that(1) [of err] silentD [OF assms(1)] assms(3) by blast
next
  case (2 h1 a)
  then show ?thesis
    using that(2) silentD [OF assms(1)] assms(3) by blast
qed

text \<open>A peer that reported PASS passed its check; one that did not ends with an error.\<close>

lemma silent_then_cases:
  assumes "silent m" and "thenR m m' h = Some (h', r)" and "\<not> passed h"
  obtains err where "r = Inl err" and "\<not> passed h'"
  | h1 a where "m h = Some (h1, Inr a)" and "m' h1 = Some (h', r)" and "\<not> passed h1"
  using silent_bind_cases [OF assms(1) assms(2) [unfolded thenR_def] assms(3)] that by metis

lemma peer_body_stages:
  assumes run: "peer_body E cf info target h = Some (h', r)" and np: "\<not> passed h"
  obtains err where "r = Inl err" and "\<not> passed h'"
  | h1 h2 where "peer_check E target h1 = Some (h2, Inr ())" and "peer_confirm E cf h2 = Some (h', r)"
proof (rule silent_then_cases [OF silent_reserve run [unfolded peer_body_def] np])
  fix h1
  assume "thenR (peer_dial E cf target) (thenR (peer_check E target) (peer_confirm E cf)) h1 = Some (h', r)"
    and "\<not> passed h1"
  then show ?thesis
  proof (rule silent_then_cases [OF silent_dial])
    fix h2
    assume "thenR (peer_check E target) (peer_confirm E cf) h2 = Some (h', r)" and "\<not> passed h2"
    then show ?thesis
    proof (cases rule: thenR_cases)
      case (1 err)
      then show ?thesis
        using that(1) [of err] peer_check_Inl \<open>\<not> passed h2\<close> by blast
    next
      case (2 h3 u)
      then show ?thesis
        using that(2) by simp
    qed
  qed (use that(1) in auto)
qed (use that(1) in auto)

lemma runPeer_stages:
  assumes run: "runPeer E cf h = Some (h', r)" and np: "\<not> passed h"
  obtains err where "r = Inl err" and "\<not> passed h'"
  | target h1 h2 h3 where "ne_decodeID E (cf_targetID cf) = Inr target" and "peer_check E target h1 = Some (h2, Inr ())"
    and "peer_confirm E cf h2 = Some (h3, r)" and "h' = h3 @ [NvHostClose]"
proof (cases "addrInfo E (cf_relayAddr cf)")
  case (Inl err)
  then have "r = Inl (Errorf ''bad NATLAB_RELAY: '' err)" "h' = h"
    using run by (auto simp: runPeer_def run_defs)
  then show ?thesis
    using that(1) np by blast
next
  case info: (Inr relayInfo)
  show ?thesis
  proof (cases "ne_decodeID E (cf_targetID cf)")
    case (Inl err)
    then have "r = Inl (Errorf ''bad NATLAB_TARGET: '' err)" "h' = h"
      using run info by (auto simp: runPeer_def run_defs)
    then show ?thesis
      using that(1) np by blast
  next
    case (Inr target)
    then have "thenR (newHost E cf [relayInfo]) (deferR NvHostClose (peer_body E cf relayInfo target)) h = Some (h', r)"
      using run info by (simp add: runPeer_def bindR_def wrapR_def pureR_def)
    then show ?thesis
    proof (rule silent_then_cases [OF silent_newHost _ np])
      fix h2
      assume "deferR NvHostClose (peer_body E cf relayInfo target) h2 = Some (h', r)" and "\<not> passed h2"
      then obtain h3 where h3: "peer_body E cf relayInfo target h2 = Some (h3, r)" "h' = h3 @ [NvHostClose]" "\<not> passed h2"
        by (auto simp: deferR_iff)
      show ?thesis
        by (rule peer_body_stages [OF h3(1,3)]) (use that Inr h3(2) in auto)
    qed (use that(1) in auto)
  qed
qed

lemma peer_confirm_error:
  assumes "peer_confirm E cf h = Some (h', Inl err)"
  shows "cf_doneFile cf \<noteq> [] \<and>
    (\<exists>e. err = Errorf (if cf_dialCircuit cf then ''write done file: '' else ''peer never confirmed the punch: '') e)"
  using assms by (auto simp: peer_confirm_def run_simps split: if_splits)

lemma prefix_confirm: "peer_confirm E cf h = Some (h', r) \<Longrightarrow> prefix h h'"
proof -
  have "appends (\<lambda>_. True) (peer_confirm E cf)"
    unfolding peer_confirm_def waitForFile_def by (intro appends_intros appends_poll) simp_all
  then show "peer_confirm E cf h = Some (h', r) \<Longrightarrow> prefix h h'"
    by (elim appendsE) auto
qed

lemma saw_direct_prefix: "saw_direct E target h \<Longrightarrow> prefix h h' \<Longrightarrow> saw_direct E target h'"
  unfolding saw_direct_def by (meson prefix_order.trans)

section \<open>A run\<close>

text \<open>For the witnesses: peer A of the harness, in an environment in which the punch succeeds.\<close>

definition demo_conn :: nat_conn where
  "demo_conn = \<lparr>nc_peer = ''B'', nc_local = ''/ip4/192.168.1.2'', nc_remote = ''/ip4/203.0.113.2'', nc_limited = False,
     nc_direction = ''Outbound''\<rparr>"

definition demo_nat :: "nat nat_env" where
  "demo_nat =
     \<lparr>ne_sha256 = (\<lambda>b. take 32 (b @ replicate 32 0)), ne_keyFromSeed = (\<lambda>b. Inr (length b)), ne_idFromKey = (\<lambda>k. Inr ''A''),
      ne_maddr = Inr, ne_p2pAddr = (\<lambda>s. Inr \<lparr>ai_ID = ''B'', ai_Addrs = [s]\<rparr>), ne_decodeID = Inr, ne_new = (\<lambda>_. None),
      ne_hostID = ''A'', ne_addrs = (\<lambda>_. [''/ip4/192.168.1.2'', ''/ip4/203.0.113.1/p2p/R/p2p-circuit'']),
      ne_protocols = (\<lambda>_. [''/libp2p/dcutr'']), ne_holepunch = ''/libp2p/dcutr'',
      ne_connsToPeer = (\<lambda>t h. [demo_conn\<lparr>nc_limited := True\<rparr>, demo_conn]), ne_conns = (\<lambda>_. [demo_conn]),
      ne_connect = (\<lambda>_. None), ne_done = (\<lambda>h. Some (External ''context deadline exceeded'')),
      ne_writeFile = (\<lambda>_. None), ne_readFile = (\<lambda>f h. Inr (''/b'' @ [CHR 0x0A])),
      ne_newStream = (\<lambda>_. Inr ''/ip4/203.0.113.2''), ne_ping = (\<lambda>_. Inr 5), ne_duration = (\<lambda>_. ''5ns''),
      ne_traced = (\<lambda>_. []), ne_isPublic = (\<lambda>_. True), ne_quote = id\<rparr>"

definition demo_config :: nat_config where
  "demo_config =
     \<lparr>cf_role = ''peer'', cf_seed = ''a'', cf_listenIP = ''192.168.1.2'', cf_listenPort = 4001, cf_relayAddr = ''/r'',
      cf_targetID = ''B'', cf_dialCircuit = True, cf_readyFile = ''a.addr'', cf_waitFile = ''b.addr'',
      cf_doneFile = ''a.done'', cf_forcePrivate = False, cf_timeout = 120 * time_Second\<rparr>"

lemma poll_at_once: "chk h = Some a \<Longrightarrow> poll chk sel tick h = Some (h, Inr a)"
  by (subst poll.simps) simp

lemma demo_waits:
  "waitCircuitAddr demo_nat h = Some (h, Inr (''/ip4/203.0.113.1/p2p/R/p2p-circuit'' @ ''/p2p/'' @ ''A''))"
  "waitDCUtRReady demo_nat h = Some (h, Inr ())"
  "waitDirectConn demo_nat t h = Some (h, Inr demo_conn)"
  "waitForFile demo_nat ''b.addr'' h = Some (h, Inr ''/b'')"
proof -
  have "isRelayAddr ''/ip4/203.0.113.1/p2p/R/p2p-circuit''" "\<not> isRelayAddr ''/ip4/192.168.1.2''"
    "\<not> isRelayAddr ''/ip4/203.0.113.2''"
    by code_simp+
  moreover have "strings_TrimSpace (''/b'' @ [CHR 0x0A]) = ''/b''"
    by code_simp
  ultimately have now: "circuit_addr demo_nat h = Some (''/ip4/203.0.113.1/p2p/R/p2p-circuit'' @ ''/p2p/'' @ ''A'')"
    "dcutr_ready demo_nat h = Some ()" "direct_conn demo_nat t h = Some demo_conn"
    "file_content demo_nat ''b.addr'' h = Some ''/b''"
    by (simp_all add: circuit_addr_def dcutr_ready_def direct_conn_def file_content_def demo_nat_def demo_conn_def)
  show "waitCircuitAddr demo_nat h = Some (h, Inr (''/ip4/203.0.113.1/p2p/R/p2p-circuit'' @ ''/p2p/'' @ ''A''))"
    "waitDCUtRReady demo_nat h = Some (h, Inr ())" "waitDirectConn demo_nat t h = Some (h, Inr demo_conn)"
    "waitForFile demo_nat ''b.addr'' h = Some (h, Inr ''/b'')"
    using now by (simp_all add: waitCircuitAddr_def waitDCUtRReady_def waitDirectConn_def waitForFile_def wrapR_def
        poll_at_once)
qed

lemma demo_reserve: "\<exists>h1. peer_reserve demo_nat demo_config i h = Some (h1, Inr ())"
proof -
  have "ne_connect demo_nat = (\<lambda>_. None)" "ne_writeFile demo_nat = (\<lambda>_. None)"
    by (simp_all add: demo_nat_def)
  then show ?thesis
    by (simp add: peer_reserve_def report_def run_defs demo_waits demo_config_def)
qed

lemma demo_peer: "\<exists>h'. runPeer demo_nat demo_config [] = Some (h', Inr ())"
proof -
  have env: "ne_connect demo_nat = (\<lambda>_. None)" "ne_writeFile demo_nat = (\<lambda>_. None)" "ne_new demo_nat = (\<lambda>_. None)"
    "addrInfo demo_nat s = Inr \<lparr>ai_ID = ''B'', ai_Addrs = [s]\<rparr>" "ne_decodeID demo_nat = Inr"
    "ne_newStream demo_nat = (\<lambda>_. Inr ''/ip4/203.0.113.2'')" "ne_ping demo_nat = (\<lambda>_. Inr 5)"
    "ne_isPublic demo_nat = (\<lambda>_. True)" "nc_remote demo_conn = ''/ip4/203.0.113.2''"
    "labIdentity (ne_sha256 demo_nat) (ne_keyFromSeed demo_nat) ''a'' = Inr 32" "ne_idFromKey demo_nat 32 = Inr ''A''" for s
    by (simp_all add: demo_nat_def demo_conn_def addrInfo_def labIdentity_def bytes_of_def)
  note reserve = demo_reserve
  have dial: "\<exists>h1. peer_dial demo_nat demo_config ''B'' h = Some (h1, Inr ())" for h
    by (simp add: peer_dial_def report_def run_defs demo_waits env demo_config_def)
  have check: "\<exists>h1. peer_check demo_nat ''B'' h = Some (h1, Inr ())" for h
    by (simp add: peer_check_def pingOver_def report_def run_defs demo_waits env)
  have confirm: "\<exists>h1. peer_confirm demo_nat demo_config h = Some (h1, Inr ())" for h
    by (simp add: peer_confirm_def run_defs env demo_config_def)
  have "\<exists>h1. peer_body demo_nat demo_config i ''B'' h = Some (h1, Inr ())" for i h
    unfolding peer_body_def thenR_Inr_iff using reserve dial check confirm by metis
  moreover have "\<exists>h1. newHost demo_nat demo_config i [] = Some (h1, Inr ())" for i
    by (simp add: newHost_def run_defs env demo_config_def)
  moreover have "cf_targetID demo_config = ''B''"
    by (simp add: demo_config_def)
  ultimately show ?thesis
    by (simp add: runPeer_def bindR_Inr_iff wrapR_Inr_iff pureR_iff thenR_Inr_iff deferR_iff env) blast
qed

section \<open>Properties\<close>

lemma runPeer_passes: "runPeer E cf [] = Some (h', Inr u) \<Longrightarrow> \<exists>fs. NvReport (''RESULT=PASS'' # fs) \<in> set h'"
proof -
  assume "runPeer E cf [] = Some (h', Inr u)"
  then show ?thesis
  proof (rule runPeer_stages)
    fix target h1 h2 h3
    assume "peer_check E target h1 = Some (h2, Inr ())" "peer_confirm E cf h2 = Some (h3, Inr u)" "h' = h3 @ [NvHostClose]"
    then have "passed h'"
      using peer_check_Inr silentD [OF silent_confirm] by fastforce
    then show ?thesis
      by (auto simp: passed_def is_pass_def)
  qed simp_all
qed

text \<open>C13 A PASS is proof of a hole punch: a peer that reports it has seen a connection to its target that
  is not limited, does not go through a relay and has a public remote address, it opened a stream
  that used exactly that address, and a ping to the target succeeded after that.\<close>

theorem pass_means_direct:
  assumes "runPeer E cf [] = Some (h', r)" and "NvReport (''RESULT=PASS'' # fs) \<in> set h'"
  shows "\<exists>target. ne_decodeID E (cf_targetID cf) = Inr target \<and> saw_direct E target h'"
proof -
  have "passed h'"
    using assms(2) by (auto simp: passed_def is_pass_def)
  show ?thesis
  proof (rule runPeer_stages [OF assms(1)])
    fix target h1 h2 h3
    assume t: "ne_decodeID E (cf_targetID cf) = Inr target" and c: "peer_check E target h1 = Some (h2, Inr ())"
      and f: "peer_confirm E cf h2 = Some (h3, r)" and h': "h' = h3 @ [NvHostClose]"
    have "prefix h2 h'"
      using prefix_confirm [OF f] by (simp add: h' prefix_prefix)
    then show ?thesis
      using t peer_check_Inr [OF c] saw_direct_prefix by blast
  qed (use \<open>passed h'\<close> in simp_all)
qed

theorem pass_means_direct_witness:
  "\<exists>h'. runPeer demo_nat demo_config [] = Some (h', Inr ()) \<and> saw_direct demo_nat ''B'' h'"
proof -
  obtain h' where run: "runPeer demo_nat demo_config [] = Some (h', Inr ())"
    using demo_peer by blast
  then obtain fs where "NvReport (''RESULT=PASS'' # fs) \<in> set h'"
    using runPeer_passes by blast
  from pass_means_direct [OF run this] run show ?thesis
    by (auto simp: demo_nat_def demo_config_def)
qed

text \<open>C31 The result of a peer: one that ends without an error has reported PASS. The converse fails at
  one place only: after a PASS the run can still end with an error of the confirmation step, when a
  done file is named and could not be written, or did not appear. The log then holds both results.\<close>

theorem peer_result:
  assumes "runPeer E cf [] = Some (h', r)"
  shows "case r of
      Inr _ \<Rightarrow> (\<exists>fs. NvReport (''RESULT=PASS'' # fs) \<in> set h')
    | Inl err \<Rightarrow> (\<exists>fs. NvReport (''RESULT=PASS'' # fs) \<in> set h') \<longrightarrow> cf_doneFile cf \<noteq> [] \<and>
        (\<exists>e. err = Errorf (if cf_dialCircuit cf then ''write done file: '' else ''peer never confirmed the punch: '') e)"
proof (rule runPeer_stages [OF assms])
  fix err
  assume "r = Inl err" and "\<not> passed h'"
  then show ?thesis
    by (auto simp: passed_def is_pass_def)
next
  fix target h1 h2 h3
  assume c: "peer_check E target h1 = Some (h2, Inr ())" and f: "peer_confirm E cf h2 = Some (h3, r)"
    and h': "h' = h3 @ [NvHostClose]"
  have "passed h'"
    using peer_check_Inr [OF c] silentD [OF silent_confirm f] by (simp add: h')
  then have "\<exists>fs. NvReport (''RESULT=PASS'' # fs) \<in> set h'"
    by (auto simp: passed_def is_pass_def)
  moreover have "r = Inl err \<Longrightarrow> cf_doneFile cf \<noteq> [] \<and>
      (\<exists>e. err = Errorf (if cf_dialCircuit cf then ''write done file: '' else ''peer never confirmed the punch: '') e)" for err
    using peer_confirm_error [of E cf h2 h3 err] f by simp
  ultimately show ?thesis
    by (cases r) simp_all
qed simp

theorem peer_result_witness:
  "\<exists>h' fs. runPeer demo_nat demo_config [] = Some (h', Inr ()) \<and> NvReport (''RESULT=PASS'' # fs) \<in> set h'"
proof -
  obtain h' where run: "runPeer demo_nat demo_config [] = Some (h', Inr ())"
    using demo_peer by blast
  with peer_result [OF run] show ?thesis
    by auto
qed

section \<open>Termination\<close>

abbreviation ticks :: "nat \<Rightarrow> ('key nat_event, 'a) run \<Rightarrow> bool" where
  "ticks \<equiv> at_most (\<lambda>e. e = NvTick)"

text \<open>A run that returns within a number of ticks.\<close>

definition ends_in :: "nat \<Rightarrow> ('key nat_event, 'a) run \<Rightarrow> bool" where
  "ends_in n m \<longleftrightarrow> returns m \<and> ticks n m"

lemma ends_in_basic:
  "ends_in 0 (okR a)" "ends_in 0 (failR err)" "ends_in 0 (pureR x)" "ends_in 0 (nowR f)" "ends_in 0 (report fs)"
  "e \<noteq> NvTick \<Longrightarrow> ends_in 0 (emitR e)" "e \<noteq> NvTick \<Longrightarrow> ends_in 0 (askR e ans)" "e \<noteq> NvTick \<Longrightarrow> ends_in 0 (tryR e ans')"
  by (simp_all add: ends_in_def report_def at_most_appends)

lemma ends_in_bind: "ends_in n m \<Longrightarrow> (\<And>a. ends_in k (f a)) \<Longrightarrow> ends_in (n + k) (bindR m f)"
  by (simp add: ends_in_def returns_bind at_most_bind)

lemma ends_in_then: "ends_in n m \<Longrightarrow> ends_in k m' \<Longrightarrow> ends_in (n + k) (thenR m m')"
  by (simp add: thenR_def ends_in_bind)

lemma ends_in_wrap: "ends_in n m \<Longrightarrow> ends_in n (wrapR p m)"
  by (simp add: ends_in_def returns_wrap at_most_wrap)

lemma ends_in_when: "(b \<Longrightarrow> ends_in n m) \<Longrightarrow> ends_in (if b then n else 0) (whenR b m)"
  by (simp add: ends_in_def returns_when at_most_when)

lemma ends_in_defer: "e \<noteq> NvTick \<Longrightarrow> ends_in n m \<Longrightarrow> ends_in n (deferR e m)"
  by (simp add: ends_in_def returns_defer at_most_defer)

lemma ends_in_poll: "expires k sel NvTick \<Longrightarrow> ends_in k (poll chk sel NvTick)"
  by (simp add: ends_in_def returns_poll at_most_poll)

lemma ends_in_mono: "ends_in n m \<Longrightarrow> n \<le> k \<Longrightarrow> ends_in k m"
  using at_most_mono by (auto simp: ends_in_def)

lemmas ends_in_intros = ends_in_bind ends_in_then ends_in_wrap ends_in_when ends_in_defer

lemma ends_at_once:
  "ends_in 0 m \<Longrightarrow> (\<And>a. ends_in 0 (f a)) \<Longrightarrow> ends_in 0 (bindR m f)" "ends_in 0 m \<Longrightarrow> ends_in 0 m' \<Longrightarrow> ends_in 0 (thenR m m')"
  "ends_in 0 m1 \<Longrightarrow> ends_in 0 m2 \<Longrightarrow> ends_in 0 (if b then m1 else m2)"
  using ends_in_bind [of 0 m 0 f] ends_in_then [of 0 m 0 m'] by simp_all

lemma ends_in_waits:
  assumes ctx: "expires k (ne_done E) NvTick"
  shows "ends_in k (waitCircuitAddr E)" and "ends_in k (waitDCUtRReady E)" and "ends_in k (waitForFile E path)"
    and "ends_in k (waitDirectConn E target)"
proof -
  note poll = ends_in_poll [OF ctx]
  show "ends_in k (waitCircuitAddr E)" "ends_in k (waitDCUtRReady E)"
    unfolding waitCircuitAddr_def waitDCUtRReady_def by (intro ends_in_wrap poll)+
  show "ends_in k (waitForFile E path)"
    unfolding waitForFile_def by (auto intro!: ends_in_wrap poll ends_in_mono [OF ends_in_basic(2)])
  have "\<exists>h' r. waitDirectConn E target h = Some (h', r)" for h
    using poll [of "direct_conn E target"] unfolding ends_in_def returns_def waitDirectConn_def
    by (fastforce split: option.split prod.split sum.split)
  moreover have "\<exists>d. h' = h @ d \<and> length (filter (\<lambda>e. e = NvTick) d) \<le> k"
    if w: "waitDirectConn E target h = Some (h', r)" for h h' r
  proof -
    obtain h1 r1 where p: "poll (direct_conn E target) (ne_done E) NvTick h = Some (h1, r1)"
      and "\<exists>d. h' = h1 @ d \<and> filter (\<lambda>e. e = NvTick) d = []"
      using w by (auto simp: waitDirectConn_def dump_conns_def split: option.splits prod.splits sum.splits)
    moreover obtain d where "h1 = h @ d" "length (filter (\<lambda>e. e = NvTick) d) \<le> k"
      using poll [of "direct_conn E target"] p unfolding ends_in_def at_most_def by blast
    ultimately show ?thesis
      by auto
  qed
  ultimately show "ends_in k (waitDirectConn E target)"
    unfolding ends_in_def returns_def at_most_def by fastforce
qed

lemma ends_in_parts:
  assumes ctx: "expires k (ne_done E) NvTick"
  shows "ends_in (2 * k) (peer_reserve E cf info)" and "ends_in (if cf_dialCircuit cf then k else 0) (peer_dial E cf target)"
    and "ends_in k (peer_check E target)" and "ends_in (if cf_dialCircuit cf then 0 else k) (peer_confirm E cf)"
proof -
  note steps = ends_in_intros ends_in_basic ends_in_waits [OF ctx]
  note at_once = ends_at_once ends_in_wrap ends_in_basic
  show "ends_in (2 * k) (peer_reserve E cf info)"
    unfolding peer_reserve_def by (rule ends_in_mono, (rule steps | simp)+)
  have tail: "ends_in 0 (if ai_ID info \<noteq> target then failR err
      else thenR (wrapR p (tryR (NvConnect info) (ne_connect E))) (report fs))" for info err p fs
    by (intro at_once) simp
  show "ends_in (if cf_dialCircuit cf then k else 0) (peer_dial E cf target)"
    unfolding peer_dial_def by (rule ends_in_mono, (rule steps tail)+) simp
  have "ends_in 0 (pingOver E target c)" for c
    unfolding pingOver_def by (intro at_once) simp_all
  then have tail: "ends_in 0 (if b then failR err else thenR (pingOver E target c) (bindR (nowR f) g))"
    if "\<And>a. ends_in 0 (g a)" for b err c f g
    using that by (intro at_once) simp_all
  show "ends_in k (peer_check E target)"
    unfolding peer_check_def by (rule ends_in_mono, (rule steps tail)+) simp
  have conf: "ends_in (if cf_dialCircuit cf then 0 else k)
      (if cf_dialCircuit cf then wrapR p (tryR (NvWriteFile f c) w) else bindR (wrapR p' (waitForFile E f)) (\<lambda>_. okR ()))" for p p' f c w
  proof (cases "cf_dialCircuit cf")
    case False
    have "ends_in (k + 0) (bindR (wrapR p' (waitForFile E f)) (\<lambda>_. okR ()))"
      by (intro ends_in_bind ends_in_wrap ends_in_waits(3) [OF ctx] ends_in_basic)
    with False show ?thesis
      by simp
  qed (simp add: ends_in_wrap ends_in_basic)
  show "ends_in (if cf_dialCircuit cf then 0 else k) (peer_confirm E cf)"
    unfolding peer_confirm_def by (rule ends_in_mono [OF ends_in_when [OF conf]]) simp
qed

text \<open>C29 A peer always ends: when the context expires within \<open>k\<close> polls of a wait, the run returns, with a
  result, after at most four times \<open>k\<close> ticks. It waits for the reservation, for the hole-punch
  service and for the direct connection, and once more for one file: the dialling peer for the other
  one's address, the dialled peer for the confirmation.\<close>

theorem peer_terminates:
  assumes "expires k (ne_done E) NvTick"
  shows "\<exists>d r. runPeer E cf h = Some (h @ d, r) \<and> length (filter (\<lambda>e. e = NvTick) d) \<le> 4 * k"
proof -
  note steps = ends_in_intros ends_in_basic
  have "ends_in (4 * k) (peer_body E cf info target)" for info target
    unfolding peer_body_def
    by (rule ends_in_mono, (rule ends_in_then ends_in_parts [OF assms])+) simp
  moreover have "ends_in 0 (newHost E cf relays)" for relays
    unfolding newHost_def by (intro ends_at_once ends_in_wrap ends_in_basic) simp
  ultimately have "ends_in (0 + (0 + (0 + 4 * k))) (runPeer E cf)"
    unfolding runPeer_def by (intro steps) simp_all
  then show ?thesis
    unfolding ends_in_def returns_def at_most_def by fastforce
qed

theorem peer_terminates_witness:
  "\<exists>d r. runPeer (demo_nat\<lparr>ne_addrs := (\<lambda>_. [])\<rparr>) demo_config [] = Some ([] @ d, r) \<and>
    length (filter (\<lambda>e. e = NvTick) d) \<le> 4 * 0"
proof (rule peer_terminates)
  show "expires 0 (ne_done (demo_nat\<lparr>ne_addrs := (\<lambda>_. [])\<rparr>)) NvTick"
    by (simp add: expires_def demo_nat_def)
qed

section \<open>Files and variables\<close>

lemma waitForFile_reads:
  assumes "path \<noteq> []" and "polled (file_content E path) (ne_done E) NvTick g j"
    and "ne_readFile E path (g @ replicate j NvTick) = Inr (s @ [CHR 0x0A])" and "strings_TrimSpace s \<noteq> []"
  shows "waitForFile E path g = Some (g @ replicate j NvTick, Inr (strings_TrimSpace s))"
proof -
  have "file_content E path (g @ replicate j NvTick) = Some (strings_TrimSpace s)"
    using assms(3,4) by (simp add: file_content_def TrimSpace_newline)
  from poll_success [OF assms(2) this] show ?thesis
    using assms(1) by (simp add: waitForFile_def wrapR_def)
qed

lemma peer_reserve_writes:
  assumes "peer_reserve E cf info h = Some (h', Inr u)" and "cf_readyFile cf \<noteq> []"
  obtains h0 h1 circuit where "circuit_addr E h0 = Some circuit"
    and "h' = h1 @ [NvWriteFile (cf_readyFile cf) (circuit @ [CHR 0x0A])]"
    and "NvReport [''event=reservation'', ''circuit='' @ quote circuit] \<in> set h1"
proof -
  obtain g h0 circuit h2 where c: "waitCircuitAddr E g = Some (h0, Inr circuit)"
    and d: "waitDCUtRReady E (h0 @ [NvReport [''event=reservation'', ''circuit='' @ quote circuit]]) = Some (h2, Inr ())"
    and h': "h' = (h2 @ [NvReport [''event=dcutr_ready'']]) @ [NvWriteFile (cf_readyFile cf) (circuit @ [CHR 0x0A])]"
    using assms unfolding peer_reserve_def report_def by (auto simp: run_simps)
  have "circuit_addr E h0 = Some circuit"
    using c by (auto simp: waitCircuitAddr_def run_simps elim: poll_InrD)
  moreover have "NvReport [''event=reservation'', ''circuit='' @ quote circuit] \<in> set h2"
    using d by (auto simp: waitDCUtRReady_def run_simps elim: poll_InrD)
  ultimately show ?thesis
    using that [OF _ h'] by simp
qed

lemma circuit_not_blank: "circuit_addr E h = Some circuit \<Longrightarrow> strings_TrimSpace circuit \<noteq> []"
proof -
  assume "circuit_addr E h = Some circuit"
  then have "CHR ''/'' \<in> set circuit"
    by (auto simp: circuit_addr_def split: option.splits)
  from TrimSpace_keeps [OF this slash_not_space] show ?thesis
    by auto
qed

text \<open>
  What go-multiaddr and the peer ids document of their texts: a multiaddress begins with a slash, and
  an id is written in base 58.
\<close>

definition base58_alphabet :: string where
  "base58_alphabet = ''123456789ABCDEFGHJKLMNPQRSTUVWXYZabcdefghijkmnopqrstuvwxyz''"

definition texts_documented :: "'key nat_env \<Rightarrow> bool" where
  "texts_documented E \<longleftrightarrow>
     (\<forall>h. \<forall>a \<in> set (ne_addrs E h). a \<noteq> [] \<and> hd a = CHR ''/'') \<and> set (ne_hostID E) \<subseteq> set base58_alphabet"

lemma base58_not_space: "c \<in> set base58_alphabet \<Longrightarrow> c \<notin> space_bytes"
proof -
  have "list_all (\<lambda>p. list_all (\<lambda>c. c \<notin> set base58_alphabet) p) utf8_spaces"
    by code_simp
  then show "c \<in> set base58_alphabet \<Longrightarrow> c \<notin> space_bytes"
    by (auto simp: space_bytes_def list_all_iff)
qed

lemma circuit_trimmed:
  assumes "texts_documented E" and "circuit_addr E h = Some circuit"
  shows "strings_TrimSpace circuit = circuit"
proof (rule TrimSpace_ends)
  obtain a where a: "a \<in> set (ne_addrs E h)" "circuit = a @ ''/p2p/'' @ ne_hostID E"
    using assms(2) by (auto simp: circuit_addr_def dest: find_SomeD split: option.splits)
  then have "a \<noteq> []" "hd a = CHR ''/''"
    using assms(1) unfolding texts_documented_def by blast+
  then show "circuit \<noteq> []" "hd circuit \<notin> space_bytes"
    using slash_not_space by (simp_all add: a(2))
  have "last circuit = (if ne_hostID E = [] then CHR ''/'' else last (ne_hostID E))"
    by (simp add: a(2))
  moreover have "ne_hostID E \<noteq> [] \<Longrightarrow> last (ne_hostID E) \<notin> space_bytes"
    using assms(1) base58_not_space last_in_set unfolding texts_documented_def by blast
  ultimately show "last circuit \<notin> space_bytes"
    using slash_not_space by simp
qed

text \<open>C28 The ready file carries the address over intact. A peer that reserved its slot and has a ready
  file writes the circuit address it reports, and a newline; it goes through a relay and names the
  peer. Any peer that waits for the file and finds that content, at whatever poll before its
  deadline, gets exactly that address: without the newline, and trimming took nothing else.\<close>

theorem ready_file_round_trip:
  fixes EA :: "'key nat_env"
  assumes "peer_reserve EA cf info h = Some (h', Inr ())" and "cf_readyFile cf \<noteq> []" and "texts_documented EA"
  shows "\<exists>a h0 h1. isRelayAddr a \<and> a \<in> set (ne_addrs EA h0) \<and>
    (let circuit = a @ ''/p2p/'' @ ne_hostID EA
     in h' = h1 @ [NvWriteFile (cf_readyFile cf) (circuit @ [CHR 0x0A])] \<and>
       NvReport [''event=reservation'', ''circuit='' @ quote circuit] \<in> set h1 \<and>
       (\<forall>(EB :: 'key nat_env) path g j. path \<noteq> [] \<and> polled (file_content EB path) (ne_done EB) NvTick g j \<and>
          ne_readFile EB path (g @ replicate j NvTick) = Inr (circuit @ [CHR 0x0A]) \<longrightarrow>
          waitForFile EB path g = Some (g @ replicate j NvTick, Inr circuit)))"
proof -
  obtain h0 h1 circuit where c: "circuit_addr EA h0 = Some circuit"
    and w: "h' = h1 @ [NvWriteFile (cf_readyFile cf) (circuit @ [CHR 0x0A])]"
      "NvReport [''event=reservation'', ''circuit='' @ quote circuit] \<in> set h1"
    using peer_reserve_writes [OF assms(1,2)] by metis
  obtain a where a: "isRelayAddr a" "a \<in> set (ne_addrs EA h0)" "circuit = a @ ''/p2p/'' @ ne_hostID EA"
    using c by (auto simp: circuit_addr_def dest: find_SomeD split: option.splits)
  note read = waitForFile_reads [OF _ _ _ circuit_not_blank [OF c], unfolded circuit_trimmed [OF assms(3) c]]
  show ?thesis
    using a(1,2) w
    by (intro exI [of _ a] exI [of _ h0] exI [of _ h1])
      (unfold Let_def a(3) [symmetric], intro conjI allI impI, simp_all, elim conjE, rule read)
qed

text \<open>The other peer, which finds at once what the first one wrote.\<close>

theorem ready_file_round_trip_witness:
  "\<exists>h1 c. peer_reserve demo_nat demo_config \<lparr>ai_ID = ''R'', ai_Addrs = []\<rparr> [] =
      Some (h1 @ [NvWriteFile ''a.addr'' (c @ [CHR 0x0A])], Inr ()) \<and>
    waitForFile (demo_nat\<lparr>ne_readFile := (\<lambda>_ _. Inr (c @ [CHR 0x0A]))\<rparr>) ''a.addr'' [] = Some ([], Inr c)"
proof -
  obtain h' where run: "peer_reserve demo_nat demo_config \<lparr>ai_ID = ''R'', ai_Addrs = []\<rparr> [] = Some (h', Inr ())"
    using demo_reserve by blast
  have f: "cf_readyFile demo_config = ''a.addr''" and f': "cf_readyFile demo_config \<noteq> []"
    by (simp_all add: demo_config_def)
  have doc: "texts_documented demo_nat"
    by (simp add: texts_documented_def demo_nat_def base58_alphabet_def)
  obtain c h1 where w: "h' = h1 @ [NvWriteFile (cf_readyFile demo_config) (c @ [CHR 0x0A])]"
    and rd: "\<forall>(EB :: nat nat_env) path g j. path \<noteq> [] \<and> polled (file_content EB path) (ne_done EB) NvTick g j \<and>
          ne_readFile EB path (g @ replicate j NvTick) = Inr (c @ [CHR 0x0A]) \<longrightarrow>
          waitForFile EB path g = Some (g @ replicate j NvTick, Inr c)"
    using ready_file_round_trip [OF run f' doc] unfolding Let_def by (elim exE conjE) (rule that)
  have "waitForFile (demo_nat\<lparr>ne_readFile := (\<lambda>_ _. Inr (c @ [CHR 0x0A]))\<rparr>) ''a.addr'' [] =
      Some ([] @ replicate 0 NvTick, Inr c)"
    by (rule rd [rule_format]) simp
  then show ?thesis
    using run w by (auto simp: f)
qed

lemma envInt_itoa:
  assumes "in_int64 n" and "getenv key = itoa n \<or> getenv key = itoa n @ [CHR 0x0A]"
  shows "envInt getenv key def = n"
  using assms by (auto simp: envInt_def envStr_def TrimSpace_newline TrimSpace_itoa Atoi_itoa)

text \<open>The port survives the way through the environment: a number of 64 bits printed into
  \<^verbatim>\<open>NATLAB_PORT\<close>, with or without the newline a shell adds, is the port of the listen address, in the
  same digits. A variable that is unset, blank or not a number gives 4001.\<close>

theorem port_round_trip:
  assumes "in_int64 n" and "getenv ''NATLAB_PORT'' = itoa n \<or> getenv ''NATLAB_PORT'' = itoa n @ [CHR 0x0A]"
    and "strings_TrimSpace (getenv' ''NATLAB_PORT'') = [] \<or> strconv_Atoi (strings_TrimSpace (getenv' ''NATLAB_PORT'')) = None"
  shows "NhListenAddr (''/ip4/'' @ cf_listenIP (config_of_env parse getenv) @ ''/tcp/'' @ itoa n) \<in>
      set (host_options (config_of_env parse getenv) sha privKey selfID relays) \<and>
    cf_listenPort (config_of_env parse getenv') = 4001"
proof -
  have "cf_listenPort (config_of_env parse getenv) = n"
    using envInt_itoa [OF assms(1), of getenv "''NATLAB_PORT''"] assms(2) by (simp add: config_of_env_def)
  moreover have "strconv_Atoi [] = None"
    by (simp add: strconv_Atoi_def)
  ultimately show ?thesis
    using assms(3) by (auto simp: host_options_def config_of_env_def envInt_def envStr_def Let_def)
qed

theorem port_round_trip_witness:
  "NhListenAddr ''/ip4//tcp/443'' \<in>
     set (host_options (config_of_env (\<lambda>_. None) (\<lambda>k. if k = ''NATLAB_PORT'' then ''443'' else [])) id (0 :: nat) ''A'' []) \<and>
   cf_listenPort (config_of_env (\<lambda>_. None) (\<lambda>_. [])) = 4001"
proof -
  have n: "itoa 443 = ''443''" and blank: "strings_TrimSpace [] = []"
    by code_simp+
  have "in_int64 443"
    by (simp add: in_int64_def)
  from port_round_trip [OF this, of "\<lambda>k. if k = ''NATLAB_PORT'' then ''443'' else []" "\<lambda>_. []" "\<lambda>_. None" id 0 "''A''" "[]"]
  show ?thesis
    by (simp add: n blank) (simp add: config_of_env_def envStr_def blank)
qed

lemma delete_self_filter:
  "distinct (map ai_ID static) \<Longrightarrow> delete_self self static = filter (\<lambda>info. ai_ID info \<noteq> self) static"
proof (induction static)
  case (Cons info static)
  show ?case
  proof (cases "ai_ID info = self")
    case True
    then have "\<forall>i \<in> set static. ai_ID i \<noteq> self"
      using Cons.prems by (metis distinct.simps(2) image_eqI list.simps(9) set_map)
    with True show ?thesis
      by (simp add: filter_id_conv)
  qed (use Cons in simp)
qed simp

text \<open>What the options of a host add up to, for relays with distinct ids: the camouflage transport is
  the only one, the lab's key is set, the last word on hole punching has the tracer, reachability is
  stated public for the relay alone, and the static relays are exactly the given ones without the
  node itself, an option that is left out when none remains.\<close>

theorem host_options_shape:
  assumes "distinct (map ai_ID relays)"
  shows "let os = host_options cf sha privKey self relays;
      others = filter (\<lambda>info. ai_ID info \<noteq> self) relays
    in filter (\<lambda>x. x = NhCamouflageTransport) os = [NhCamouflageTransport] \<and> NhPrivateNetwork (labPSK_nat sha) \<in> set os \<and>
      (\<exists>ys zs. os = ys @ NhHolePunchingTraced # zs \<and> NhHolePunching \<in> set ys \<and> NhHolePunching \<notin> set zs) \<and>
      (NhForceReachabilityPublic \<in> set os \<longleftrightarrow> cf_role cf = ''relay'') \<and>
      (\<forall>rs b a. NhStaticRelays rs b a \<in> set os \<longleftrightarrow> rs = others \<and> others \<noteq> [] \<and> b = 300000000000 \<and> a = 300000000000)"
proof -
  define others where "others = filter (\<lambda>info. ai_ID info \<noteq> self) relays"
  define first where "first = [NhIdentity privKey, NhPrivateNetwork (labPSK_nat sha),
      NhListenAddr (''/ip4/'' @ cf_listenIP cf @ ''/tcp/'' @ itoa (cf_listenPort cf))] @
     (if others = [] then (if relays = [] then [] else [NhNothing]) else [NhStaticRelays others 300000000000 300000000000])"
  define final where "final = (if cf_role cf = ''relay'' then [NhForceReachabilityPublic] else []) @
     (if cf_forcePrivate cf then [NhForceReachabilityPrivate :: 'a nat_option] else [])"
  have os: "host_options cf sha privKey self relays = (first @ commonOptions) @ NhHolePunchingTraced # final"
    by (auto simp: host_options_def staticRelays_def delete_self_filter [OF assms] first_def final_def others_def
        Let_def time_Second_def)
  have "\<exists>ys zs. (first @ commonOptions) @ NhHolePunchingTraced # final = ys @ NhHolePunchingTraced # zs \<and>
      NhHolePunching \<in> set ys \<and> NhHolePunching \<notin> set zs"
    by (intro exI [of _ "first @ commonOptions"] exI [of _ final]) (simp add: commonOptions_def final_def)
  then show ?thesis
    unfolding Let_def os others_def [symmetric]
    by (intro conjI) (auto simp: first_def final_def commonOptions_def)
qed

theorem host_options_shape_witness:
  "let os = host_options demo_config id (0 :: nat) ''A''
       [\<lparr>ai_ID = ''A'', ai_Addrs = []\<rparr>, \<lparr>ai_ID = ''R'', ai_Addrs = [''/r'']\<rparr>]
   in NhStaticRelays [\<lparr>ai_ID = ''R'', ai_Addrs = [''/r'']\<rparr>] 300000000000 300000000000 \<in> set os"
  using host_options_shape [of "[\<lparr>ai_ID = ''A'', ai_Addrs = []\<rparr>, \<lparr>ai_ID = ''R'', ai_Addrs = [''/r'']\<rparr>]" demo_config id "0 :: nat" "''A''"]
  by (simp add: Let_def)

end
