(* ===== verification/NatlabPair.thy ===== *)
theory NatlabPair
  imports NatlabClaims
begin

text \<open>
  The two peers of the hole-punch harness together (\<^verbatim>\<open>src/natlab/main.go\<close>, with the files
  \<^verbatim>\<open>src/natlab/topology.sh\<close> gives them): the dialled peer writes its circuit address for the dialling
  one, which confirms in a second file. When the network lets them punch, both pass.
\<close>

section \<open>A network that works\<close>

text \<open>A wait whose condition holds at some poll before its context ends, whenever it is begun.\<close>

definition in_time :: "'key nat_env \<Rightarrow> ('key nat_event list \<Rightarrow> 'a option) \<Rightarrow> bool" where
  "in_time E chk \<longleftrightarrow> (\<forall>h. \<exists>j. polled chk (ne_done E) NvTick h j \<and> chk (h @ replicate j NvTick) \<noteq> None)"

lemma poll_in_time:
  assumes "in_time E chk"
  obtains h' a where "poll chk (ne_done E) NvTick h = Some (h', Inr a)" and "chk h' = Some a" and "prefix h h'"
  using assms poll_success unfolding in_time_def by (metis not_None_eq prefixI)

text \<open>The calls on the host succeed, and the hole punch to \<open>target\<close> works: a direct connection to a
  public address comes up, and streams opened from then on use it.\<close>

definition network_works :: "'key nat_env \<Rightarrow> string \<Rightarrow> bool" where
  "network_works E target \<longleftrightarrow>
     (\<forall>h. ne_new E h = None \<and> ne_connect E h = None \<and> ne_writeFile E h = None \<and> (\<exists>rtt. ne_ping E h = Inr rtt)) \<and>
     in_time E (circuit_addr E) \<and> in_time E (dcutr_ready E) \<and> in_time E (direct_conn E target) \<and>
     (\<forall>h c. direct_conn E target h = Some c \<longrightarrow> ne_isPublic E (nc_remote c) \<and>
        (\<forall>h'. prefix h h' \<longrightarrow> ne_newStream E h' = Inr (nc_remote c)))"

text \<open>The settings of a peer can be read: its identity, its relay and its target.\<close>

definition well_configured :: "'key nat_env \<Rightarrow> nat_config \<Rightarrow> 'key \<Rightarrow> string \<Rightarrow> addr_info \<Rightarrow> string \<Rightarrow> bool" where
  "well_configured E cf key self relay target \<longleftrightarrow>
     cf_role cf = ''peer'' \<and> labIdentity (ne_sha256 E) (ne_keyFromSeed E) (cf_seed cf) = Inr key \<and>
     ne_idFromKey E key = Inr self \<and> addrInfo E (cf_relayAddr cf) = Inr relay \<and>
     ne_decodeID E (cf_targetID cf) = Inr target"

text \<open>A reader of the file finds the content at some poll before its deadline.\<close>

definition delivered :: "'key nat_env \<Rightarrow> string \<Rightarrow> string \<Rightarrow> bool" where
  "delivered E path content \<longleftrightarrow>
     (\<forall>g. \<exists>j. polled (file_content E path) (ne_done E) NvTick g j \<and>
        ne_readFile E path (g @ replicate j NvTick) = Inr content)"

lemma waitForFile_delivered:
  assumes "delivered E path (s @ [CHR 0x0A])" and "path \<noteq> []" and "strings_TrimSpace s \<noteq> []"
  obtains g' where "waitForFile E path g = Some (g', Inr (strings_TrimSpace s))"
  using assms(1) waitForFile_reads [OF assms(2) _ _ assms(3)] that unfolding delivered_def by meson

section \<open>The parts of a run\<close>

lemma newHost_works:
  assumes "network_works E target" and "well_configured E cf key self relay target"
  shows "newHost E cf [relay] h = Some (h @ [NvNew (host_options cf (ne_sha256 E) key self [relay])], Inr ())"
  using assms by (simp add: newHost_def network_works_def well_configured_def run_defs)

lemma reserve_works:
  assumes "network_works E target"
  shows "\<exists>h'. peer_reserve E cf relay h = Some (h', Inr ())"
proof -
  have wait: "\<exists>h' a. waitCircuitAddr E g = Some (h', Inr a)" "\<exists>h'. waitDCUtRReady E g = Some (h', Inr ())" for g
    using assms poll_in_time [of E "circuit_addr E" g] poll_in_time [of E "dcutr_ready E" g]
    unfolding network_works_def waitCircuitAddr_def waitDCUtRReady_def wrapR_Inr_iff by (metis old.unit.exhaust)+
  have calls: "ne_connect E = (\<lambda>_. None)" "ne_writeFile E = (\<lambda>_. None)"
    using assms by (simp_all add: network_works_def fun_eq_iff)
  obtain h1 c where c: "waitCircuitAddr E
      ((h @ [NvReport [''event=peer_up'', ''id='' @ ne_hostID E, ''addrs='' @ quote (addrsString (ne_addrs E h))]]) @
       [NvNotify] @ [NvConnect relay] @ [NvReport [''event=relay_connected'', ''relay='' @ ai_ID relay]]) = Some (h1, Inr c)"
    using wait(1) by blast
  obtain h2 where "waitDCUtRReady E (h1 @ [NvReport [''event=reservation'', ''circuit='' @ quote c]]) = Some (h2, Inr ())"
    using wait(2) by blast
  with c show ?thesis
    by (simp add: peer_reserve_def report_def run_defs calls)
qed

lemma check_works:
  assumes "network_works E target"
  shows "\<exists>h'. peer_check E target h = Some (h', Inr ()) \<and> prefix h h'"
proof -
  obtain h1 c where p: "poll (direct_conn E target) (ne_done E) NvTick h = Some (h1, Inr c)"
    and c: "direct_conn E target h1 = Some c" and pre: "prefix h h1"
    using assms poll_in_time [of E "direct_conn E target" h] unfolding network_works_def by blast
  have pub: "ne_isPublic E (nc_remote c)" and stream: "ne_newStream E (h1 @ d) = Inr (nc_remote c)" for d
    using assms c unfolding network_works_def by auto
  define g where "g = h1 @ [NvReport [''event=direct_conn'', ''peer='' @ target, ''local='' @ quote (nc_local c),
       ''remote='' @ quote (nc_remote c)]]"
  obtain rtt where rtt: "ne_ping E (g @ [NvNewStream target, NvCloseStream, NvPing target]) = Inr rtt"
    using assms unfolding network_works_def by blast
  have used: "ne_newStream E (g @ [NvNewStream target]) = Inr (nc_remote c)"
    using stream by (simp add: g_def)
  have "waitDirectConn E target h = Some (h1, Inr c)"
    using p by (simp add: waitDirectConn_def)
  moreover have "\<exists>d. pingOver E target c g = Some (g @ d, Inr ())"
    using used rtt by (simp add: pingOver_def report_def run_defs)
  ultimately show ?thesis
    using pub pre by (auto simp: peer_check_def report_def run_simps g_def)
qed

lemma dial_works:
  assumes "network_works E target" and "cf_dialCircuit cf" and "waitForFile E (cf_waitFile cf) h = Some (g, Inr p)"
    and "addrInfo E p = Inr info" and "ai_ID info = target"
  shows "\<exists>d. peer_dial E cf target h = Some (d @ [NvConnect info, NvReport [''event=circuit_connected'', ''peer='' @ target]], Inr ())"
  using assms by (simp add: peer_dial_def network_works_def report_def run_defs)

text \<open>The four parts in order make a run of the process.\<close>

lemma nat_main_parts:
  assumes "network_works E target" and "well_configured E cf key self relay target"
    and "peer_reserve E cf relay [NvNew (host_options cf (ne_sha256 E) key self [relay])] = Some (h1, Inr ())"
    and "peer_dial E cf target h1 = Some (h2, Inr ())" and "peer_check E target h2 = Some (h3, Inr ())"
    and "peer_confirm E cf h3 = Some (h4, Inr ())"
  shows "runPeer E cf [] = Some (h4 @ [NvHostClose], Inr ())" and "nat_main E cf [] = Some (h4 @ [NvHostClose], Inr ())"
proof -
  have "peer_body E cf relay target [NvNew (host_options cf (ne_sha256 E) key self [relay])] = Some (h4, Inr ())"
    using assms(3-6) unfolding peer_body_def thenR_Inr_iff by blast
  then show run: "runPeer E cf [] = Some (h4 @ [NvHostClose], Inr ())"
    using newHost_works [OF assms(1,2), of "[]"] assms(2)
    by (simp add: runPeer_def run_simps well_configured_def)
  show "nat_main E cf [] = Some (h4 @ [NvHostClose], Inr ())"
    using run assms(2) by (simp add: nat_main_def nat_run_def well_configured_def)
qed

section \<open>Two peers\<close>

text \<open>The first peer dials, the second is dialled; they agree on the two files, and what one writes the
  other one reads in time. The address the second writes resolves, for the first, to its target.\<close>

definition paired :: "'key nat_env \<Rightarrow> nat_config \<Rightarrow> string \<Rightarrow> 'key nat_env \<Rightarrow> nat_config \<Rightarrow> addr_info \<Rightarrow> bool" where
  "paired EA cfA targetA EB cfB relayB \<longleftrightarrow>
     cf_dialCircuit cfA \<and> \<not> cf_dialCircuit cfB \<and>
     cf_readyFile cfB \<noteq> [] \<and> cf_waitFile cfA = cf_readyFile cfB \<and>
     cf_doneFile cfA \<noteq> [] \<and> cf_doneFile cfB = cf_doneFile cfA \<and>
     (\<forall>h s. thenR (newHost EB cfB [relayB]) (peer_reserve EB cfB relayB) [] = Some (h, Inr ()) \<and>
        NvWriteFile (cf_readyFile cfB) s \<in> set h \<longrightarrow> delivered EA (cf_waitFile cfA) s) \<and>
     (\<forall>h r s. runPeer EA cfA [] = Some (h, r) \<and> NvWriteFile (cf_doneFile cfA) s \<in> set h \<longrightarrow>
        delivered EB (cf_doneFile cfB) s) \<and>
     (\<forall>h c. circuit_addr EB h = Some c \<longrightarrow> (\<exists>info. addrInfo EA (strings_TrimSpace c) = Inr info \<and> ai_ID info = targetA))"

lemma dialled_reserves:
  assumes "network_works EB targetB" and "well_configured EB cfB keyB selfB relayB targetB"
    and "paired EA cfA targetA EB cfB relayB"
  obtains h1 circuit info where
    "peer_reserve EB cfB relayB [NvNew (host_options cfB (ne_sha256 EB) keyB selfB [relayB])] =
       Some (h1 @ [NvWriteFile (cf_readyFile cfB) (circuit @ [CHR 0x0A])], Inr ())"
    and "delivered EA (cf_waitFile cfA) (circuit @ [CHR 0x0A])" and "strings_TrimSpace circuit \<noteq> []"
    and "addrInfo EA (strings_TrimSpace circuit) = Inr info" and "ai_ID info = targetA"
proof -
  have f: "cf_readyFile cfB \<noteq> []"
    using assms(3) by (simp add: paired_def)
  obtain h where r: "peer_reserve EB cfB relayB [NvNew (host_options cfB (ne_sha256 EB) keyB selfB [relayB])] = Some (h, Inr ())"
    using reserve_works [OF assms(1)] by blast
  obtain h0 h1 circuit where c: "circuit_addr EB h0 = Some circuit"
    and h: "h = h1 @ [NvWriteFile (cf_readyFile cfB) (circuit @ [CHR 0x0A])]"
    using peer_reserve_writes [OF r f] by blast
  have "thenR (newHost EB cfB [relayB]) (peer_reserve EB cfB relayB) [] = Some (h, Inr ())"
    using newHost_works [OF assms(1,2), of "[]"] r by (simp add: run_simps)
  then have "delivered EA (cf_waitFile cfA) (circuit @ [CHR 0x0A])"
    using assms(3) h unfolding paired_def by auto
  moreover obtain info where "addrInfo EA (strings_TrimSpace circuit) = Inr info" "ai_ID info = targetA"
    using assms(3) c unfolding paired_def by blast
  ultimately show ?thesis
    using that r h circuit_not_blank [OF c] by blast
qed

text \<open>The dialling peer, once the other one has written its address.\<close>

lemma dialling_passes:
  assumes "network_works E target" and "well_configured E cf key self relay target" and "cf_dialCircuit cf"
    and "cf_doneFile cf \<noteq> []" and "cf_waitFile cf \<noteq> []" and "delivered E (cf_waitFile cf) (c @ [CHR 0x0A])"
    and "strings_TrimSpace c \<noteq> []" and "addrInfo E (strings_TrimSpace c) = Inr info" and "ai_ID info = target"
  obtains h where "runPeer E cf [] = Some (h, Inr ())" and "nat_main E cf [] = Some (h, Inr ())"
    and "NvConnect info \<in> set h" and "NvWriteFile (cf_doneFile cf) (''done'' @ [CHR 0x0A]) \<in> set h"
    and "saw_direct E target h" and "passed h"
proof -
  obtain h1 where h1: "peer_reserve E cf relay [NvNew (host_options cf (ne_sha256 E) key self [relay])] = Some (h1, Inr ())"
    using reserve_works [OF assms(1)] by blast
  obtain g where "waitForFile E (cf_waitFile cf) h1 = Some (g, Inr (strings_TrimSpace c))"
    using waitForFile_delivered [OF assms(6,5,7)] by blast
  then obtain h2 where h2: "peer_dial E cf target h1 = Some (h2, Inr ())" "NvConnect info \<in> set h2"
    using dial_works [OF assms(1,3) _ assms(8,9)] by fastforce
  obtain h3 where h3: "peer_check E target h2 = Some (h3, Inr ())" "prefix h2 h3"
    using check_works [OF assms(1)] by blast
  have h4: "peer_confirm E cf h3 = Some (h3 @ [NvWriteFile (cf_doneFile cf) (''done'' @ [CHR 0x0A])], Inr ())"
    using assms(1,3,4) by (simp add: peer_confirm_def network_works_def run_defs)
  have "NvConnect info \<in> set h3"
    using h2(2) h3(2) set_mono_prefix by blast
  then show ?thesis
    using that nat_main_parts [OF assms(1,2) h1 h2(1) h3(1) h4] peer_check_Inr [OF h3(1)]
      saw_direct_prefix [of E target h3] by simp
qed

text \<open>The dialled peer, once the other one has confirmed.\<close>

lemma dialled_passes:
  assumes "network_works E target" and "well_configured E cf key self relay target" and "\<not> cf_dialCircuit cf"
    and "cf_doneFile cf \<noteq> []" and "delivered E (cf_doneFile cf) (''done'' @ [CHR 0x0A])"
    and "peer_reserve E cf relay [NvNew (host_options cf (ne_sha256 E) key self [relay])] = Some (h1, Inr ())"
  obtains h where "nat_main E cf [] = Some (h, Inr ())" and "prefix h1 h" and "saw_direct E target h" and "passed h"
proof -
  have h2: "peer_dial E cf target h1 = Some (h1, Inr ())"
    using assms(3) by (simp add: peer_dial_def run_defs)
  obtain h3 where h3: "peer_check E target h1 = Some (h3, Inr ())" "prefix h1 h3"
    using check_works [OF assms(1)] by blast
  have "strings_TrimSpace ''done'' \<noteq> []"
    by code_simp
  then obtain h4 where "waitForFile E (cf_doneFile cf) h3 = Some (h4, Inr (strings_TrimSpace ''done''))"
    using waitForFile_delivered [OF assms(5,4)] by blast
  then have h4: "peer_confirm E cf h3 = Some (h4, Inr ())"
    using assms(3,4) by (simp add: peer_confirm_def run_defs)
  have pre: "prefix h3 (h4 @ [NvHostClose])"
    using prefix_confirm [OF h4] by (simp add: prefix_prefix)
  then have "prefix h1 (h4 @ [NvHostClose])" "passed (h4 @ [NvHostClose])"
    using h3(2) prefix_order.trans peer_check_Inr [OF h3(1)] by (blast, auto elim: prefixE)
  then show ?thesis
    using that nat_main_parts(2) [OF assms(1,2,6) h2 h3(1) h4] peer_check_Inr [OF h3(1)] saw_direct_prefix [OF _ pre]
    by blast
qed

text \<open>C14 Two peers of the harness complete a punch: when the library calls succeed, a direct connection
  to a public address comes up within the time of the waits, and each peer's file is read by the
  other, both processes end without an error and report PASS, each having seen the direct connection.
  The dialling one connected to exactly the address the dialled one wrote. No wait is circular: that the
  address arrives rests on the dialled peer's run up to its reservation alone, that the confirmation
  arrives rests on the whole run of the dialling peer.\<close>

theorem both_peers_pass:
  fixes EA :: "'key nat_env" and EB :: "'key nat_env"
  assumes "network_works EA targetA" and "well_configured EA cfA keyA selfA relayA targetA"
    and "network_works EB targetB" and "well_configured EB cfB keyB selfB relayB targetB"
    and "paired EA cfA targetA EB cfB relayB"
  shows "\<exists>hA hB circuit info fsA fsB. nat_main EA cfA [] = Some (hA, Inr ()) \<and> nat_main EB cfB [] = Some (hB, Inr ()) \<and>
    NvWriteFile (cf_readyFile cfB) (circuit @ [CHR 0x0A]) \<in> set hB \<and>
    addrInfo EA (strings_TrimSpace circuit) = Inr info \<and> ai_ID info = targetA \<and> NvConnect info \<in> set hA \<and>
    saw_direct EA targetA hA \<and> NvReport (''RESULT=PASS'' # fsA) \<in> set hA \<and>
    saw_direct EB targetB hB \<and> NvReport (''RESULT=PASS'' # fsB) \<in> set hB"
proof -
  obtain h1 circuit info where w:
    "peer_reserve EB cfB relayB [NvNew (host_options cfB (ne_sha256 EB) keyB selfB [relayB])] =
       Some (h1 @ [NvWriteFile (cf_readyFile cfB) (circuit @ [CHR 0x0A])], Inr ())"
    and c: "delivered EA (cf_waitFile cfA) (circuit @ [CHR 0x0A])" "strings_TrimSpace circuit \<noteq> []"
    "addrInfo EA (strings_TrimSpace circuit) = Inr info" "ai_ID info = targetA"
    using dialled_reserves [OF assms(3,4,5)] .
  have p: "cf_dialCircuit cfA" "\<not> cf_dialCircuit cfB" "cf_doneFile cfA \<noteq> []" "cf_waitFile cfA \<noteq> []" "cf_doneFile cfB \<noteq> []"
    using assms(5) by (simp_all add: paired_def)
  obtain hA where hA: "runPeer EA cfA [] = Some (hA, Inr ())" "nat_main EA cfA [] = Some (hA, Inr ())"
    "NvConnect info \<in> set hA" "NvWriteFile (cf_doneFile cfA) (''done'' @ [CHR 0x0A]) \<in> set hA"
    "saw_direct EA targetA hA" "passed hA"
    using dialling_passes [OF assms(1,2) p(1,3,4) c] .
  then have "delivered EB (cf_doneFile cfB) (''done'' @ [CHR 0x0A])"
    using assms(5) unfolding paired_def by blast
  then obtain hB where hB: "nat_main EB cfB [] = Some (hB, Inr ())"
    "prefix (h1 @ [NvWriteFile (cf_readyFile cfB) (circuit @ [CHR 0x0A])]) hB" "saw_direct EB targetB hB" "passed hB"
    using dialled_passes [OF assms(3,4) p(2,5) _ w] by blast
  then have "NvWriteFile (cf_readyFile cfB) (circuit @ [CHR 0x0A]) \<in> set hB"
    using set_mono_prefix by fastforce
  then show ?thesis
    using hA hB c(3,4) unfolding passed_def is_pass_def by blast
qed

section \<open>Two peers that pass\<close>

text \<open>The peers of the witness, configured as \<^verbatim>\<open>topology.sh\<close> configures peers A and B.\<close>

definition demo_circuit :: string where
  "demo_circuit = ''/ip4/203.0.113.1/p2p/R/p2p-circuit/p2p/B''"

definition demo_a :: "nat nat_env" where
  "demo_a = demo_nat\<lparr>ne_readFile := (\<lambda>_ _. Inr (demo_circuit @ [CHR 0x0A]))\<rparr>"

definition demo_b :: "nat nat_env" where
  "demo_b = demo_nat\<lparr>ne_hostID := ''B'', ne_idFromKey := (\<lambda>_. Inr ''B''), ne_readFile := (\<lambda>_ _. Inr (''done'' @ [CHR 0x0A]))\<rparr>"

definition demo_config_b :: nat_config where
  "demo_config_b = demo_config\<lparr>cf_seed := ''b'', cf_targetID := ''A'', cf_dialCircuit := False, cf_readyFile := ''b.addr'',
     cf_waitFile := []\<rparr>"

lemma demo_fields:
  "ne_done demo_a = ne_done demo_nat" "ne_done demo_b = ne_done demo_nat"
  "addrInfo demo_a = (\<lambda>s. Inr \<lparr>ai_ID = ''B'', ai_Addrs = [s]\<rparr>)" "addrInfo demo_b = (\<lambda>s. Inr \<lparr>ai_ID = ''B'', ai_Addrs = [s]\<rparr>)"
  by (simp_all add: demo_a_def demo_b_def demo_nat_def addrInfo_def fun_eq_iff)

lemma demo_pair_now:
  "circuit_addr demo_a h = Some (''/ip4/203.0.113.1/p2p/R/p2p-circuit'' @ ''/p2p/'' @ ''A'')"
  "circuit_addr demo_b h = Some demo_circuit"
  "dcutr_ready demo_a h = Some ()" "dcutr_ready demo_b h = Some ()"
  "direct_conn demo_a t h = Some demo_conn" "direct_conn demo_b t h = Some demo_conn"
  "file_content demo_a p h = Some demo_circuit" "file_content demo_b p h = Some ''done''"
proof -
  have "isRelayAddr ''/ip4/203.0.113.1/p2p/R/p2p-circuit''" "\<not> isRelayAddr ''/ip4/192.168.1.2''"
    "\<not> isRelayAddr ''/ip4/203.0.113.2''"
    by code_simp+
  moreover have "strings_TrimSpace (demo_circuit @ [CHR 0x0A]) = demo_circuit" "strings_TrimSpace (''done'' @ [CHR 0x0A]) = ''done''"
    "demo_circuit \<noteq> []"
    by code_simp+
  ultimately show "circuit_addr demo_a h = Some (''/ip4/203.0.113.1/p2p/R/p2p-circuit'' @ ''/p2p/'' @ ''A'')"
    "circuit_addr demo_b h = Some demo_circuit"
    "dcutr_ready demo_a h = Some ()" "dcutr_ready demo_b h = Some ()"
    "direct_conn demo_a t h = Some demo_conn" "direct_conn demo_b t h = Some demo_conn"
    "file_content demo_a p h = Some demo_circuit" "file_content demo_b p h = Some ''done''"
    by (simp_all add: circuit_addr_def dcutr_ready_def direct_conn_def file_content_def demo_a_def demo_b_def demo_nat_def
        demo_conn_def demo_circuit_def)
qed

lemma in_time_now: "(\<And>h. chk h \<noteq> None) \<Longrightarrow> in_time E chk"
  by (auto simp: in_time_def intro: polled_0)

lemma demo_networks: "network_works demo_a t" "network_works demo_b t"
proof -
  have "nc_remote demo_conn = ''/ip4/203.0.113.2''"
    by (simp add: demo_conn_def)
  then show "network_works demo_a t" "network_works demo_b t"
    by (simp_all add: network_works_def in_time_now demo_pair_now) (simp_all add: demo_a_def demo_b_def demo_nat_def)
qed

lemma demo_configured:
  "well_configured demo_a demo_config 32 ''A'' \<lparr>ai_ID = ''B'', ai_Addrs = [''/r'']\<rparr> ''B''"
  "well_configured demo_b demo_config_b 32 ''B'' \<lparr>ai_ID = ''B'', ai_Addrs = [''/r'']\<rparr> ''A''"
  by (simp_all add: well_configured_def demo_fields)
    (simp_all add: demo_a_def demo_b_def demo_nat_def demo_config_b_def demo_config_def labIdentity_def bytes_of_def)

text \<open>The one file each of them leaves for the other.\<close>

lemma demo_b_writes:
  assumes "peer_reserve demo_b demo_config_b info h = Some (h', Inr ())" and "NvWriteFile p s \<in> set h'"
  shows "NvWriteFile p s \<in> set h \<or> s = demo_circuit @ [CHR 0x0A]"
proof -
  have waits: "waitCircuitAddr demo_b g = Some (g, Inr demo_circuit)" "waitDCUtRReady demo_b g = Some (g, Inr ())" for g
    by (simp_all add: waitCircuitAddr_def waitDCUtRReady_def wrapR_def poll_at_once demo_pair_now)
  have "ne_connect demo_b = (\<lambda>_. None)" "ne_writeFile demo_b = (\<lambda>_. None)"
    by (simp_all add: demo_b_def demo_nat_def)
  then show ?thesis
    using assms by (auto simp: peer_reserve_def report_def run_defs waits demo_config_b_def)
qed

lemma demo_a_writes:
  assumes "runPeer demo_a demo_config [] = Some (h, r)" and "NvWriteFile ''a.done'' s \<in> set h"
  shows "s = ''done'' @ [CHR 0x0A]"
proof -
  have waits: "waitCircuitAddr demo_a g = Some (g, Inr (''/ip4/203.0.113.1/p2p/R/p2p-circuit'' @ ''/p2p/'' @ ''A''))"
    "waitDCUtRReady demo_a g = Some (g, Inr ())" "waitDirectConn demo_a t g = Some (g, Inr demo_conn)"
    "waitForFile demo_a ''b.addr'' g = Some (g, Inr demo_circuit)" for g t
    by (simp_all add: waitCircuitAddr_def waitDCUtRReady_def waitDirectConn_def waitForFile_def wrapR_def poll_at_once
        demo_pair_now)
  have env: "ne_connect demo_a = (\<lambda>_. None)" "ne_writeFile demo_a = (\<lambda>_. None)" "ne_new demo_a = (\<lambda>_. None)"
    "ne_decodeID demo_a = Inr" "ne_newStream demo_a = (\<lambda>_. Inr ''/ip4/203.0.113.2'')" "ne_ping demo_a = (\<lambda>_. Inr 5)"
    "ne_isPublic demo_a = (\<lambda>_. True)" "nc_remote demo_conn = ''/ip4/203.0.113.2''"
    "labIdentity (ne_sha256 demo_a) (ne_keyFromSeed demo_a) ''a'' = Inr 32" "ne_idFromKey demo_a 32 = Inr ''A''"
    by (simp_all add: demo_a_def demo_nat_def demo_conn_def labIdentity_def bytes_of_def)
  have cf: "cf_targetID demo_config = ''B''" "cf_dialCircuit demo_config" "cf_waitFile demo_config = ''b.addr''"
    "cf_readyFile demo_config = ''a.addr''" "cf_doneFile demo_config = ''a.done''" "cf_seed demo_config = ''a''"
    by (simp_all add: demo_config_def)
  show ?thesis
    using assms
    by (auto simp: runPeer_def newHost_def peer_body_def peer_reserve_def peer_dial_def peer_check_def pingOver_def
        peer_confirm_def report_def run_defs waits env cf demo_fields)
qed

lemma demo_paired: "paired demo_a demo_config ''B'' demo_b demo_config_b \<lparr>ai_ID = ''B'', ai_Addrs = [''/r'']\<rparr>"
proof -
  let ?relay = "\<lparr>ai_ID = ''B'', ai_Addrs = [''/r'']\<rparr>"
  have cf: "cf_dialCircuit demo_config" "\<not> cf_dialCircuit demo_config_b" "cf_readyFile demo_config_b = ''b.addr''"
    "cf_waitFile demo_config = ''b.addr''" "cf_doneFile demo_config = ''a.done''" "cf_doneFile demo_config_b = ''a.done''"
    by (simp_all add: demo_config_def demo_config_b_def)
  have a: "delivered demo_a p (demo_circuit @ [CHR 0x0A])" and b: "delivered demo_b p (''done'' @ [CHR 0x0A])" for p
    by (auto simp: delivered_def demo_a_def demo_b_def intro: polled_0)
  have "delivered demo_a ''b.addr'' s"
    if run: "thenR (newHost demo_b demo_config_b [?relay]) (peer_reserve demo_b demo_config_b ?relay) [] = Some (h, Inr ())"
      and w: "NvWriteFile ''b.addr'' s \<in> set h" for h s
  proof -
    have "peer_reserve demo_b demo_config_b ?relay [NvNew (host_options demo_config_b (ne_sha256 demo_b) 32 ''B'' [?relay])] =
        Some (h, Inr ())"
      using run newHost_works [OF demo_networks(2) demo_configured(2), of "[]"] by (simp add: run_simps)
    from demo_b_writes [OF this w] a show ?thesis
      by auto
  qed
  then show ?thesis
    using b demo_a_writes unfolding paired_def cf by (auto simp: cf(1,2) demo_pair_now demo_fields)
qed

theorem both_peers_pass_witness:
  "\<exists>hA hB fsA fsB. nat_main demo_a demo_config [] = Some (hA, Inr ()) \<and> nat_main demo_b demo_config_b [] = Some (hB, Inr ()) \<and>
    NvReport (''RESULT=PASS'' # fsA) \<in> set hA \<and> NvReport (''RESULT=PASS'' # fsB) \<in> set hB"
  using both_peers_pass [OF demo_networks(1) demo_configured(1) demo_networks(2) demo_configured(2) demo_paired] by blast

end
