(* ===== verification/Spec2Isabelle.thy ===== *)
theory Spec2Isabelle
  imports SpoofClaims SpoofConcurrentClaims CertClaims TlsClaims TransportClaims UnitTests ListenerClaims
    DpiLab NatlabClaims NatlabPair
begin

text \<open>
  A model of the camouflage transport for libp2p and of the programs of its labs, with the theorems
  that make them correct.

  \<^bold>\<open>The program.\<close> The transport (\<^verbatim>\<open>src/camouflage.go\<close>) makes a libp2p connection look like a browser's
  TLS session. A dial opens a resource scope, connects, wraps the socket in a \<^verbatim>\<open>SpoofConn\<close>
  (\<^verbatim>\<open>src/dpi-spoof.go\<close>), which cuts the TLS hello inside the server name, runs a uTLS handshake over it
  (\<^verbatim>\<open>src/tls-camouflage.go\<close>) and hands the tunnel to the upgrader. A listener accepts sockets in one
  goroutine, runs up to 64 TLS handshakes in others and delivers the tunnels through a queue; its
  certificates come from a chain generated once per name. Two labs drive the transport: \<^verbatim>\<open>src/dpilab\<close>
  makes traffic between two nodes and judges what nDPI says of it, \<^verbatim>\<open>src/natlab\<close> asserts that two peers
  behind NATs end up with a direct connection.

  \<^bold>\<open>The theories.\<close>

  \<^item> \<open>Prelude\<close>: bytes, Go errors and \<^verbatim>\<open>errors.Is\<close>, slices that panic, fallible actions, reachability and
    traces of a step relation, and the contract of an invariant (locale \<open>invariant_of\<close>). \<open>GoStrings\<close>
    and \<open>GoText\<close>: the functions of \<^verbatim>\<open>bytes\<close>, \<^verbatim>\<open>strings\<close> and \<^verbatim>\<open>strconv\<close> the code calls.
  \<^item> \<open>SpoofConn\<close> (\<^verbatim>\<open>SpoofConn\<close>, its \<^verbatim>\<open>Write\<close> in three modes, short writes and errors included),
    \<open>SpoofSegments\<close> (which write calls it makes) and \<open>SpoofClaims\<close>. The writer below is a parameter
    with the contract of \<^verbatim>\<open>io.Writer\<close>, interpreted on the connections of the unit tests.
  \<^item> \<open>SpoofConcurrent\<close>: the same \<^verbatim>\<open>Write\<close> as the steps of any number of goroutines on one connection,
    the mutex and each access of the counter included. \<open>SpoofConcurrentInv\<close> has mutual exclusion, the
    account of the counter and of the bytes of each goroutine, and the measure; \<open>SpoofConcurrentGuard\<close>
    which loop a goroutine is in and what it can have on the wire; \<open>SpoofConcurrentClaims\<close> the properties.
  \<^item> \<open>CertChain\<close>, \<open>CertClaims\<close>: certificate templates, chain, serial numbers, cache and server
    configuration; the cryptographic library is a record of operations.
  \<^item> \<open>Env\<close>: connections, the calls on libraries as events of a history, and their answers as functions
    of the history. \<open>TlsCamouflage\<close>, \<open>TlsClaims\<close>: the configuration, both handshakes, the ALPN check,
    and the methods of \<^verbatim>\<open>CamouflageConn\<close>.
  \<^item> \<open>Transport\<close>, \<open>TransportClaims\<close>: options, constructor, dialling with its scope (locale
    \<open>scoped_body\<close>), socket tuning, \<^verbatim>\<open>Listen\<close>.
  \<^item> \<open>Listener\<close>: the accept loop, the handshake goroutines, timers, \<^verbatim>\<open>Accept\<close> and \<^verbatim>\<open>Close\<close> as an
    \<open>inductive\<close> step relation over all interleavings. \<open>ListenerInv\<close> has its invariants,
    \<open>ListenerProgress\<close> the measure and the absence of deadlock, \<open>ListenerSpec\<close> the abstract ledger of
    connections it refines, \<open>ListenerClaims\<close> the properties.
  \<^item> \<open>DpiVerify\<close>, \<open>DpiClaims\<close>: the verdict of \<^verbatim>\<open>src/dpilab/verify.go\<close>.
  \<^item> \<open>LabRun\<close>: the shape of both lab programs, runs that record calls, may fail and may not return, and
    polling until a deadline. \<open>DpiNode\<close>, \<open>DpiNodeClaims\<close>: \<^verbatim>\<open>src/dpilab/main.go\<close>, with the bulk protocol
    over streams of bytes (locale \<open>fixed_width\<close> for the length prefix). \<open>DpiLab\<close> composes the two: the
    judging process from its files to its exit status, a dialling node against a serving one. \<open>Natlab\<close>,
    \<open>NatlabClaims\<close>: \<^verbatim>\<open>src/natlab/main.go\<close> and \<^verbatim>\<open>src/natlab/options.go\<close>; \<open>NatlabPair\<close> composes the dialling
    and the dialled peer through the files they exchange.
  \<^item> \<open>UnitTests\<close>: the unit tests of pure code, replayed on the model.

  Definitions carry the names of the functions, types and constants they translate; where a function
  is split, the parts are composed under its name, and a prefix (\<open>ct_\<close>, \<open>spoof_\<close>, \<open>lab_\<close>, \<open>nat_\<close>,
  \<open>peer_\<close>) keeps methods and functions of different parts apart.

  \<^bold>\<open>What is shown.\<close> Of \<^verbatim>\<open>SpoofConn\<close>: it is a faithful byte stream with exact accounting, the cut hides the
  name, fragment mode follows its plan; when goroutines race on it, no count is lost, each sends its own
  bytes in order, nothing leaves unsplit before the handshake length is reached, and all return. (Two
  racing writes may interleave on the wire, \<open>demo_race_end\<close>; the TLS layer above takes its own lock
  around each record.) One goroutine alone computes the function. Of the tunnel: what a handshake does,
  which clients the server accepts, that one configuration serves both ends, what the certificates say.
  Of a dial: its scope and its socket are released exactly on failure, and a success is one exact
  sequence of calls. Of the listener: every accepted connection is delivered once or discarded with its
  scope, at most 64 handshakes run, a silent peer does not block the next,
  \<^verbatim>\<open>Close\<close> returns though nobody calls \<^verbatim>\<open>Accept\<close>, leaves nothing
  behind, and the whole refines the ledger. Of the labs: what the exit status of either arm certifies, that
  map order changes nothing that is printed but the order of the allowed notes, that the
  bulk protocol and the exchanged files are round trips, that every run ends with its context, that the
  rounds are made in order, what a reported PASS proves, and that two nodes (two peers) that reach each
  other complete and report it. The theory at hand adds what holds across
  the layers.

  \<^bold>\<open>Bounds and fuel.\<close> No definition uses fuel. Loops over buffers recurse on what is left and are total;
  the loop over rounds recurses on the rounds left; a polling loop is a \<open>partial_function\<close> whose value
  \<open>None\<close> is not returning, and the theorems show that it returns when one of the next \<open>k\<close> \<^verbatim>\<open>select\<close>
  statements takes the branch of the context (\<open>expires k\<close>). \<^verbatim>\<open>Close\<close> returns after at most 330 steps:
  64 handshakes of at most five steps each and ten of the loop and of \<^verbatim>\<open>Close\<close> itself (a handshake is one
  step of the listener, which its deadline ends); a racing \<^verbatim>\<open>Write\<close>
  of \<open>n\<close> bytes after at most \<open>14 * n + 18\<close> steps of its own. Go's \<^verbatim>\<open>int\<close> and
  \<^verbatim>\<open>time.Duration\<close> are \<open>int\<close>, with the range stated where an overflow could matter (the byte counter, the
  sum of SYNs, which wraps, and \<^verbatim>\<open>strconv.Atoi\<close>); bytes and the length prefix are words.

  \<^bold>\<open>Not modelled.\<close> TLS records and cryptography, uTLS, libp2p (upgrader, resource manager, TCP transport,
  swarm, relay, hole punching), the kernel, JSON and \<^verbatim>\<open>time.ParseDuration\<close> are the environment: the
  theorems hold for every answer they can give, or under named assumptions (\<open>x509_documented\<close>,
  \<open>clock_documented\<close>, \<open>texts_documented\<close> state what the libraries document). Contexts are a deadline, the
  roles of a simultaneous connect, or the choice of a \<^verbatim>\<open>select\<close>. \<^verbatim>\<open>temporaryHandshakeError\<close> is modelled
  but has no use in the program; \<^verbatim>\<open>init\<close> of \<^verbatim>\<open>src/natlab/options.go\<close>, which sets a variable of libp2p, and
  the two empty methods of \<^verbatim>\<open>connLogger\<close> are left out, as are the tests that run libp2p hosts and the
  shell scripts, containers and workflows around the labs.
\<close>

section \<open>Properties that span components\<close>

text \<open>C7 The layers of a dialled connection fit together: for a transport built with the package's options
  (and a server name of at least two bytes), the name uTLS is told to put into its hello is the name
  the \<^verbatim>\<open>SpoofConn\<close> below cuts at, so a hello that holds it once leaves as two write calls, neither of
  which shows it, whatever the options set the limits to.\<close>

theorem dialled_hello_hides_name:
  assumes "\<forall>opt \<in> set opts. package_option opt"
    and "NewCamouflageTransport K newTCP rcmgr sharedTCP opts w0 = (w0', Inr t)"
    and "2 \<le> length (ct_sni t)" and "ct_camoConfig t = Some cfg" and "wrapConn t c = Spoofed c sc"
    and "NewCamouflageConn E (wrapConn t c) True cfg h = (h', r)"
    and "full_env wr segs rnd slp"
    and "EvUtlsHandshake d u hid dur \<in> set (drop (length h) h')"
    and "occurs_at (bytes_of (ut_ServerName u)) hello i"
    and "\<And>j. occurs_at (bytes_of (ut_ServerName u)) hello j \<Longrightarrow> j = i"
  shows "d = Spoofed c sc \<and> (\<exists>w' c' x y. spoof_Write wr rnd slp w sc hello =
      (w', c', Return (int (length hello), None)) \<and>
    segs w' = segs w @ [x, y] \<and> x @ y = hello \<and>
    \<not> contains x (bytes_of (ut_ServerName u)) \<and> \<not> contains y (bytes_of (ut_ServerName u)))"
proof -
  obtain t0 where t0: "apply_options opts (initial_transport rcmgr sharedTCP) = Inr t0"
    and keeps: "option_keeps (initial_transport rcmgr sharedTCP) t0"
    using apply_package_options [OF assms(1)] by blast
  have "limits_ok t0"
    using option_keeps_limits [OF keeps initial_limits] .
  then have len: "0 < ct_handshakeLen t" and sni: "cg_sni cfg = ct_sni t"
    using assms(2,4) t0 by (auto elim!: NewCamouflageTransport_Inr dest!: BuildCamouflageConfig_Inr simp: limits_ok_def)
  have sc: "sc = NewSpoofConn (ct_fragmentSize t) (ct_handshakeLen t) (ct_maxDelay t) (ct_sni t)"
    using assms(5) by (simp add: wrapConn_def)
  have hello: "d = wrapConn t c \<and> ut_ServerName u = cg_sni cfg"
    using assms(6,8)
    by (auto simp: NewCamouflageConn_def clientTLSHandshake_def Let_def split: option.splits)
  then have name: "bytes_of (ut_ServerName u) = sc_sni sc"
    by (simp add: sc sni NewSpoofConn_def)
  have "\<not> past_handshake sc" "2 \<le> length (sc_sni sc)"
    using len assms(3) by (simp_all add: sc past_handshake_def NewSpoofConn_def)
  from spoof_Write_split_once [OF assms(7) this assms(9,10) [unfolded name], of w]
  show ?thesis
    unfolding name using hello assms(5) by auto
qed

theorem dialled_hello_hides_name_witness:
  "\<exists>w0' t cfg sc h' r w' c' x y.
    NewCamouflageTransport sym_crypto demo_tcp None False [WithSNI ''ab''] (0, 7) = (w0', Inr t) \<and>
    ct_camoConfig t = Some cfg \<and> wrapConn t (RawConn 1) = Spoofed (RawConn 1) sc \<and>
    NewCamouflageConn calm_env (wrapConn t (RawConn 1)) True cfg [] = (h', r) \<and>
    spoof_Write fake_Write fake_rand fake_sleep (fresh_fake []) sc (bytes_of ''xxabyy'') = (w', c', Return (6, None)) \<and>
    fc_writes w' = [x, y] \<and> \<not> contains x (bytes_of ''ab'') \<and> \<not> contains y (bytes_of ''ab'')"
proof -
  have opts: "\<forall>opt \<in> set [WithSNI ''ab'' :: (int, sym_der) dial_option]. package_option opt"
    by (auto intro: package_option.intros)
  obtain w0' t where T: "NewCamouflageTransport sym_crypto demo_tcp None False [WithSNI ''ab''] (0, 7) = (w0', Inr t)"
    using demo_constructs [OF opts] by blast
  have sni: "ct_sni t = ''ab''" and cfg': "\<exists>cfg. ct_camoConfig t = Some cfg \<and> cg_sni cfg = ''ab''"
    using T by (auto elim!: NewCamouflageTransport_Inr dest!: BuildCamouflageConfig_Inr simp: WithSNI_def)
  then obtain cfg where cfg: "ct_camoConfig t = Some cfg" "cg_sni cfg = ''ab''"
    by blast
  define sc where "sc = NewSpoofConn (ct_fragmentSize t) (ct_handshakeLen t) (ct_maxDelay t) (ct_sni t)"
  have wrap: "wrapConn t (RawConn 1) = Spoofed (RawConn 1) sc"
    by (simp add: wrapConn_def sc_def)
  obtain h' r where N: "NewCamouflageConn calm_env (wrapConn t (RawConn 1)) True cfg [] = (h', r)"
    by (metis surj_pair)
  define u where "u = \<lparr>ut_ServerName = ''ab'', ut_NextProtos = cg_alpnProtos cfg, ut_InsecureSkipVerify = True\<rparr>"
  have ev: "EvUtlsHandshake (wrapConn t (RawConn 1)) u (cg_clientHelloID cfg) (cg_handshakeTimeout cfg) \<in> set (drop (length []) h')"
    using N by (auto simp: NewCamouflageConn_def clientTLSHandshake_def calm_env_def u_def cfg(2))
  have occ: "occurs_at (bytes_of (ut_ServerName u)) (bytes_of ''xxabyy'') 2"
    by (simp add: occurs_at_def u_def bytes_of_def)
  have uniq: "j = 2" if "occurs_at (bytes_of (ut_ServerName u)) (bytes_of ''xxabyy'') j" for j
  proof -
    have "j \<le> 4"
      using occurs_at_bound [OF that] by (simp add: u_def)
    then have "j = 0 \<or> j = 1 \<or> j = 2 \<or> j = 3 \<or> j = 4"
      by linarith
    then show ?thesis
      using that by (auto simp: occurs_at_def u_def bytes_of_def)
  qed
  have two: "2 \<le> length (ct_sni t)"
    by (simp add: sni)
  from dialled_hello_hides_name [OF opts T two cfg(1) wrap N fake.full_env_axioms ev occ uniq, of "fresh_fake []"]
  obtain w' c' x y where "spoof_Write fake_Write fake_rand fake_sleep (fresh_fake []) sc (bytes_of ''xxabyy'') =
      (w', c', Return (int (length (bytes_of ''xxabyy'')), None))"
    "fc_writes w' = fc_writes (fresh_fake []) @ [x, y]"
    "\<not> contains x (bytes_of (ut_ServerName u))" "\<not> contains y (bytes_of (ut_ServerName u))"
    by blast
  moreover have "ut_ServerName u = ''ab''"
    by (simp add: u_def)
  ultimately show ?thesis
    using T cfg(1) wrap N
    by (intro exI [of _ w0'] exI [of _ t] exI [of _ cfg] exI [of _ sc] exI [of _ h'] exI [of _ r]
        exI [of _ w'] exI [of _ c'] exI [of _ x] exI [of _ y]) (simp add: fresh_fake_def)
qed

text \<open>With a server name configured, as it is by default, the fragment size has no effect: a dialled
  connection makes the same write calls and returns the same results for every \<^verbatim>\<open>WithFragmentSize\<close>.
  Small segments are made only when the name is set to the empty string.\<close>

theorem default_ignores_fragment_size:
  assumes "ct_sni t \<noteq> []" and "0 < n"
    and "wrapConn t c = Spoofed c s1" and "wrapConn (fst (WithFragmentSize n t)) c = Spoofed c s2"
    and "spoof_Write wr rnd slp w s1 b = (w1, s1', r1)" and "spoof_Write wr rnd slp w s2 b = (w2, s2', r2)"
  shows "w1 = w2 \<and> r1 = r2 \<and> sc_bytesWritten s1' = sc_bytesWritten s2'"
proof -
  have s1: "s1 = NewSpoofConn (ct_fragmentSize t) (ct_handshakeLen t) (ct_maxDelay t) (ct_sni t)"
    using assms(3) by (simp add: wrapConn_def)
  have "s2 = s1\<lparr>sc_fragmentSize := n\<rparr>" and "sc_sni s1 \<noteq> []"
    using assms(1,2,4) by (simp_all add: s1 wrapConn_def WithFragmentSize_def NewSpoofConn_def)
  with spoof_Write_fragmentSize [of s1 wr rnd slp w n b] assms(5,6) show ?thesis
    by auto
qed

theorem default_ignores_fragment_size_witness:
  "\<exists>w1 s1' r1 w2 s2' r2.
    spoof_Write fake_Write fake_rand fake_sleep (fresh_fake [])
      (NewSpoofConn 2 2048 0 ''www.googleapis.com'') [1, 2, 3] = (w1, s1', r1) \<and>
    spoof_Write fake_Write fake_rand fake_sleep (fresh_fake [])
      (NewSpoofConn 1 2048 0 ''www.googleapis.com'') [1, 2, 3] = (w2, s2', r2) \<and> w1 = w2 \<and> r1 = r2"
proof -
  obtain w1 s1' r1 where 1: "spoof_Write fake_Write fake_rand fake_sleep (fresh_fake [])
      (NewSpoofConn 2 2048 0 ''www.googleapis.com'') [1, 2, 3] = (w1, s1', r1)"
    by (rule prod_cases3)
  obtain w2 s2' r2 where 2: "spoof_Write fake_Write fake_rand fake_sleep (fresh_fake [])
      (NewSpoofConn 1 2048 0 ''www.googleapis.com'') [1, 2, 3] = (w2, s2', r2)"
    by (rule prod_cases3)
  have "ct_sni demo_transport \<noteq> []" "wrapConn demo_transport (RawConn 1) =
      Spoofed (RawConn 1) (NewSpoofConn 2 2048 0 ''www.googleapis.com'')"
    "wrapConn (fst (WithFragmentSize 1 demo_transport)) (RawConn 1) =
      Spoofed (RawConn 1) (NewSpoofConn 1 2048 0 ''www.googleapis.com'')"
    by (simp_all add: demo_transport_def initial_transport_def wrapConn_def WithFragmentSize_def default_defs)
  from default_ignores_fragment_size [OF this(1) _ this(2,3) 1 2] 1 2 show ?thesis
    by simp
qed

end
